(* ===== verification/Kernel_Prelude.thy ===== *)
theory Kernel_Prelude
  imports Main "HOL-Library.Word"
begin

unbundle bit_operations_syntax

text \<open>
  Shared material of the TAOS development.

  \<^item> The machine integers of the kernel: bytes, on-disk fields and bitmap entries are
    words of their width; \<open>u64\<close> and \<open>usize\<close> quantities that index buffers, sectors and
    frames are natural numbers, and the arithmetic that can leave the 64-bit range is
    written with the checked operations below.  The Makefile builds the dev profile, in
    which an overflow, an underflow and a division by zero panic.
  \<^item> \<open>res\<close>: what a Rust call gives back (a value, an \<open>Err\<close>, a panic), and \<open>prog\<close>: a call
    that also changes state, with the sequencing that the question mark operator and the
    semicolon of the source have.
  \<^item> Lemmas on buffers and on little-endian encodings that the components share.
\<close>

section \<open>Machine integers\<close>

type_synonym u8 = "8 word"
type_synonym u16 = "16 word"
type_synonym u32 = "32 word"
type_synonym u64 = "64 word"
type_synonym bytes = "u8 list"

section \<open>Results and stateful calls\<close>

datatype ('e, 'a) res = Ok 'a | Err 'e | Panic

type_synonym ('s, 'e, 'a) prog = "'s \<Rightarrow> ('e, 'a) res \<times> 's"

definition ret :: "'a \<Rightarrow> ('s, 'e, 'a) prog" where
  "ret x s = (Ok x, s)"

definition raise :: "'e \<Rightarrow> ('s, 'e, 'a) prog" where
  "raise e s = (Err e, s)"

definition panic :: "('s, 'e, 'a) prog" where
  "panic s = (Panic, s)"

definition lift_res :: "('e, 'a) res \<Rightarrow> ('s, 'e, 'a) prog" where
  "lift_res r s = (r, s)"

definition bnd :: "('s, 'e, 'a) prog \<Rightarrow> ('a \<Rightarrow> ('s, 'e, 'b) prog) \<Rightarrow> ('s, 'e, 'b) prog" where
  "bnd m f s = (case m s of
      (Ok x, s') \<Rightarrow> f x s'
    | (Err e, s') \<Rightarrow> (Err e, s')
    | (Panic, s') \<Rightarrow> (Panic, s'))"

text \<open>The state is read and replaced with \<open>get_st\<close> and \<open>modify_st\<close>; \<open>assert_p\<close> is Rust's
  \<open>assert!\<close>.\<close>

definition get_st :: "('s, 'e, 's) prog" where
  "get_st s = (Ok s, s)"

definition modify_st :: "('s \<Rightarrow> 's) \<Rightarrow> ('s, 'e, unit) prog" where
  "modify_st f s = (Ok (), f s)"

definition assert_p :: "bool \<Rightarrow> ('s, 'e, unit) prog" where
  "assert_p b s = (if b then Ok () else Panic, s)"

definition gets :: "('s \<Rightarrow> 'a) \<Rightarrow> ('s, 'e, 'a) prog" where
  "gets f s = (Ok (f s), s)"

text \<open>\<open>zoom\<close> runs a call that owns one part of the state, such as the device of a file system.\<close>

definition zoom :: "('s \<Rightarrow> 'x) \<Rightarrow> ('x \<Rightarrow> 's \<Rightarrow> 's) \<Rightarrow> ('x, 'e, 'a) prog \<Rightarrow> ('s, 'e, 'a) prog" where
  "zoom sel upd m s = (case m (sel s) of (r, x) \<Rightarrow> (r, upd x s))"

text \<open>\<open>try_p m\<close> is a call whose \<open>Result\<close> the caller inspects instead of propagating it
  (\<open>is_ok()\<close>, \<open>match\<close>): an error becomes a value, a panic stays one.\<close>

definition try_p :: "('s, 'e, 'a) prog \<Rightarrow> ('s, 'e, 'e + 'a) prog" where
  "try_p m s = (case m s of
      (Ok x, s') \<Rightarrow> (Ok (Inr x), s')
    | (Err e, s') \<Rightarrow> (Ok (Inl e), s')
    | (Panic, s') \<Rightarrow> (Panic, s'))"

definition is_Ok :: "('e, 'a) res \<Rightarrow> bool" where
  "is_Ok r = (case r of Ok _ \<Rightarrow> True | _ \<Rightarrow> False)"

text \<open>A for loop over a list whose body may fail: \<open>for x in xs { body?; }\<close>.\<close>

fun for_each :: "'x list \<Rightarrow> ('x \<Rightarrow> ('s, 'e, unit) prog) \<Rightarrow> ('s, 'e, unit) prog" where
  "for_each [] body = ret ()"
| "for_each (x # xs) body = bnd (body x) (\<lambda>_. for_each xs body)"

section \<open>Checked 64-bit arithmetic\<close>

definition u64_add :: "nat \<Rightarrow> nat \<Rightarrow> ('e, nat) res" where
  "u64_add a b = (if a + b < 2 ^ 64 then Ok (a + b) else Panic)"

definition u64_sub :: "nat \<Rightarrow> nat \<Rightarrow> ('e, nat) res" where
  "u64_sub a b = (if b \<le> a then Ok (a - b) else Panic)"

definition u64_mul :: "nat \<Rightarrow> nat \<Rightarrow> ('e, nat) res" where
  "u64_mul a b = (if a * b < 2 ^ 64 then Ok (a * b) else Panic)"

definition u64_rem :: "nat \<Rightarrow> nat \<Rightarrow> ('e, nat) res" where
  "u64_rem a b = (if b = 0 then Panic else Ok (a mod b))"

definition u64_div :: "nat \<Rightarrow> nat \<Rightarrow> ('e, nat) res" where
  "u64_div a b = (if b = 0 then Panic else Ok (a div b))"

text \<open>Rust's \<open>usize::div_ceil\<close>.\<close>

definition div_ceil :: "nat \<Rightarrow> nat \<Rightarrow> nat" where
  "div_ceil a b = (if a mod b = 0 then a div b else a div b + 1)"

section \<open>Buffers\<close>

text \<open>\<open>buf[off..off + src.len()].copy_from_slice(src)\<close>: panics when the range leaves the
  buffer.\<close>

definition buf_splice :: "'a list \<Rightarrow> nat \<Rightarrow> 'a list \<Rightarrow> 'a list" where
  "buf_splice buf off src = take off buf @ src @ drop (off + length src) buf"

definition copy_slice :: "'a list \<Rightarrow> nat \<Rightarrow> 'a list \<Rightarrow> ('e, 'a list) res" where
  "copy_slice buf off src = (if off + length src \<le> length buf then Ok (buf_splice buf off src) else Panic)"

text \<open>\<open>&buf[off..off + n]\<close>.\<close>

definition sub_slice :: "'a list \<Rightarrow> nat \<Rightarrow> nat \<Rightarrow> ('e, 'a list) res" where
  "sub_slice buf off n = (if off + n \<le> length buf then Ok (take n (drop off buf)) else Panic)"

text \<open>\<open>dst.copy_from_slice(src)\<close> on whole slices.\<close>

definition copy_from_slice :: "'a list \<Rightarrow> 'a list \<Rightarrow> ('e, 'a list) res" where
  "copy_from_slice dst src = (if length dst = length src then Ok src else Panic)"

text \<open>\<open>buf[i]\<close> and \<open>buf[i] = v\<close>.\<close>

definition index_at :: "'a list \<Rightarrow> nat \<Rightarrow> ('e, 'a) res" where
  "index_at buf i = (if i < length buf then Ok (buf ! i) else Panic)"

definition store_at :: "'a list \<Rightarrow> nat \<Rightarrow> 'a \<Rightarrow> ('e, 'a list) res" where
  "store_at buf i v = (if i < length buf then Ok (buf[i := v]) else Panic)"

section \<open>Little-endian encodings\<close>

definition u16_to_le :: "u16 \<Rightarrow> bytes" where
  "u16_to_le w = [ucast w, ucast (drop_bit 8 w)]"

definition u16_from_le :: "u8 \<Rightarrow> u8 \<Rightarrow> u16" where
  "u16_from_le b0 b1 = ucast b0 OR push_bit 8 (ucast b1)"

definition u32_to_le :: "u32 \<Rightarrow> bytes" where
  "u32_to_le w = [ucast w, ucast (drop_bit 8 w), ucast (drop_bit 16 w), ucast (drop_bit 24 w)]"

definition u32_from_le :: "u8 \<Rightarrow> u8 \<Rightarrow> u8 \<Rightarrow> u8 \<Rightarrow> u32" where
  "u32_from_le b0 b1 b2 b3 =
     ucast b0 OR push_bit 8 (ucast b1) OR push_bit 16 (ucast b2) OR push_bit 24 (ucast b3)"

section \<open>Lemma collections\<close>

named_theorems prog_simps \<open>evaluation of stateful calls\<close>
named_theorems buf_simps \<open>lengths and elements of buffers\<close>

subsection \<open>Stateful calls\<close>

lemma ret_apply [prog_simps]: "ret x s = (Ok x, s)"
  by (simp add: ret_def)

lemma raise_apply [prog_simps]: "raise e s = (Err e, s)"
  by (simp add: raise_def)

lemma panic_apply [prog_simps]: "panic s = (Panic, s)"
  by (simp add: panic_def)

lemma lift_res_apply [prog_simps]: "lift_res r s = (r, s)"
  by (simp add: lift_res_def)

lemma get_st_apply [prog_simps]: "get_st s = (Ok s, s)"
  by (simp add: get_st_def)

lemma modify_st_apply [prog_simps]: "modify_st f s = (Ok (), f s)"
  by (simp add: modify_st_def)

lemma gets_apply [prog_simps]: "gets f s = (Ok (f s), s)"
  by (simp add: gets_def)

lemma zoom_apply [prog_simps]: "m (sel s) = (r, x) \<Longrightarrow> zoom sel upd m s = (r, upd x s)"
  by (simp add: zoom_def)

lemma assert_p_apply [prog_simps]: "assert_p b s = (if b then Ok () else Panic, s)"
  by (simp add: assert_p_def)

lemma bnd_Ok [prog_simps]: "m s = (Ok x, s') \<Longrightarrow> bnd m f s = f x s'"
  by (simp add: bnd_def)

lemma bnd_Err [prog_simps]: "m s = (Err e, s') \<Longrightarrow> bnd m f s = (Err e, s')"
  by (simp add: bnd_def)

lemma bnd_Panic [prog_simps]: "m s = (Panic, s') \<Longrightarrow> bnd m f s = (Panic, s')"
  by (simp add: bnd_def)

lemma bnd_cases:
  assumes "bnd m f s = (r, t)"
  obtains (Ok) x s' where "m s = (Ok x, s')" "f x s' = (r, t)"
    | (Err) e where "m s = (Err e, t)" "r = Err e"
    | (Panic) "m s = (Panic, t)" "r = Panic"
  using assms by (cases "m s"; cases "fst (m s)") (auto simp: bnd_def)

lemma bnd_Ok_iff: "bnd m f s = (Ok y, t) \<longleftrightarrow> (\<exists>x s'. m s = (Ok x, s') \<and> f x s' = (Ok y, t))"
  by (auto simp: bnd_def split: prod.splits res.splits)

lemma bnd_assoc: "bnd (bnd m f) g = bnd m (\<lambda>x. bnd (f x) g)"
  by (rule ext) (simp add: bnd_def split: prod.splits res.splits)

lemma bnd_ret_left [simp]: "bnd (ret x) f = f x"
  by (rule ext) (simp add: bnd_def ret_def)

lemma bnd_ret_right [simp]: "bnd m ret = m"
  by (rule ext) (simp add: bnd_def ret_def split: prod.splits res.splits)

lemma try_p_Ok [prog_simps]: "m s = (Ok x, s') \<Longrightarrow> try_p m s = (Ok (Inr x), s')"
  by (simp add: try_p_def)

lemma try_p_Err [prog_simps]: "m s = (Err e, s') \<Longrightarrow> try_p m s = (Ok (Inl e), s')"
  by (simp add: try_p_def)

lemma bnd_cong [fundef_cong]:
  assumes "s = s'" "m s' = m' s'" "\<And>x t. m' s' = (Ok x, t) \<Longrightarrow> f x t = f' x t"
  shows "bnd m f s = bnd m' f' s'"
  using assms by (auto simp: bnd_def split: prod.splits res.splits)

lemma for_each_append: "for_each (xs @ ys) body = bnd (for_each xs body) (\<lambda>_. for_each ys body)"
  by (induction xs) (simp_all add: bnd_assoc)

subsection \<open>Checked arithmetic\<close>

lemma u64_add_Ok [prog_simps]: "a + b < 2 ^ 64 \<Longrightarrow> u64_add a b = Ok (a + b)"
  by (simp add: u64_add_def)

lemma u64_sub_Ok [prog_simps]: "b \<le> a \<Longrightarrow> u64_sub a b = Ok (a - b)"
  by (simp add: u64_sub_def)

lemma u64_mul_Ok [prog_simps]: "a * b < 2 ^ 64 \<Longrightarrow> u64_mul a b = Ok (a * b)"
  by (simp add: u64_mul_def)

lemma u64_rem_Ok [prog_simps]: "0 < b \<Longrightarrow> u64_rem a b = Ok (a mod b)"
  by (simp add: u64_rem_def)

lemma u64_div_Ok [prog_simps]: "0 < b \<Longrightarrow> u64_div a b = Ok (a div b)"
  by (simp add: u64_div_def)

lemma div_ceil_bounds:
  assumes "0 < b"
  shows "a \<le> div_ceil a b * b" and "div_ceil a b * b < a + b"
proof -
  have m: "a mod b < b" using assms by simp
  have e: "a div b * b + a mod b = a" by simp
  show "a \<le> div_ceil a b * b" and "div_ceil a b * b < a + b"
    using m e assms by (cases "a mod b = 0"; simp add: div_ceil_def; linarith)+
qed

subsection \<open>Buffers\<close>

lemma length_buf_splice [buf_simps]:
  "off + length src \<le> length buf \<Longrightarrow> length (buf_splice buf off src) = length buf"
  by (simp add: buf_splice_def)

lemma nth_buf_splice [buf_simps]:
  assumes "off + length src \<le> length buf" "i < length buf"
  shows "buf_splice buf off src ! i
     = (if off \<le> i \<and> i < off + length src then src ! (i - off) else buf ! i)"
  using assms by (auto simp: buf_splice_def nth_append min_def)

lemma buf_splice_same: "off + length src \<le> length buf \<Longrightarrow> take (length src) (drop off (buf_splice buf off src)) = src"
  by (simp add: buf_splice_def)

lemma buf_splice_disjoint:
  assumes "off + length src \<le> length buf" "off + length src \<le> o2 \<or> o2 + n \<le> off" "o2 + n \<le> length buf"
  shows "take n (drop o2 (buf_splice buf off src)) = take n (drop o2 buf)"
  by (rule nth_equalityI) (use assms in \<open>auto simp: buf_simps\<close>)

lemma copy_slice_Ok [prog_simps]:
  "off + length src \<le> length buf \<Longrightarrow> copy_slice buf off src = Ok (buf_splice buf off src)"
  by (simp add: copy_slice_def)

lemma sub_slice_Ok [prog_simps]:
  "off + n \<le> length buf \<Longrightarrow> sub_slice buf off n = Ok (take n (drop off buf))"
  by (simp add: sub_slice_def)

lemma index_at_Ok [prog_simps]: "i < length buf \<Longrightarrow> index_at buf i = Ok (buf ! i)"
  by (simp add: index_at_def)

lemma store_at_Ok [prog_simps]: "i < length buf \<Longrightarrow> store_at buf i v = Ok (buf[i := v])"
  by (simp add: store_at_def)

lemma copy_from_slice_Ok [prog_simps]: "length dst = length src \<Longrightarrow> copy_from_slice dst src = Ok src"
  by (simp add: copy_from_slice_def)

subsection \<open>Little-endian encodings\<close>

lemma length_u16_to_le [simp]: "length (u16_to_le w) = 2"
  by (simp add: u16_to_le_def)

lemma length_u32_to_le [simp]: "length (u32_to_le w) = 4"
  by (simp add: u32_to_le_def)

lemma u16_from_to_le [simp]: "u16_from_le (u16_to_le w ! 0) (u16_to_le w ! 1) = w"
  by (rule bit_word_eqI) (auto simp: u16_from_le_def u16_to_le_def bit_simps)

lemma u16_to_from_le [simp]: "u16_to_le (u16_from_le a b) = [a, b]"
  by (auto simp: u16_from_le_def u16_to_le_def intro!: bit_word_eqI)
     (auto simp: bit_simps dest: bit_imp_le_length)

lemma u32_from_to_le [simp]:
  "u32_from_le (u32_to_le w ! 0) (u32_to_le w ! 1) (u32_to_le w ! 2) (u32_to_le w ! 3) = w"
proof (rule bit_word_eqI)
  fix n assume "n < LENGTH(32)"
  then show "bit (u32_from_le (u32_to_le w ! 0) (u32_to_le w ! 1) (u32_to_le w ! 2) (u32_to_le w ! 3)) n
      = bit w n"
    by (cases "24 \<le> n"; cases "16 \<le> n"; cases "8 \<le> n")
       (auto simp: u32_from_le_def u32_to_le_def bit_simps)
qed

lemma u32_to_from_le [simp]: "u32_to_le (u32_from_le a b c d) = [a, b, c, d]"
  by (auto simp: u32_from_le_def u32_to_le_def intro!: bit_word_eqI)
     (auto simp: bit_simps dest: bit_imp_le_length)

section \<open>Simulation of stateful calls\<close>

text \<open>\<open>sim R p q\<close>: from related states, \<open>p\<close> and \<open>q\<close> give the same result and end in related
  states.  The rules follow the structure of a call, so that a program built from related parts
  is related by \<open>sim_rules\<close> alone.\<close>

named_theorems sim_rules \<open>simulation rules, by the structure of the call\<close>

definition sim :: "('s \<Rightarrow> 't \<Rightarrow> bool) \<Rightarrow> ('s, 'e, 'a) prog \<Rightarrow> ('t, 'e, 'a) prog \<Rightarrow> bool" where
  "sim R p q \<longleftrightarrow> (\<forall>s t. R s t \<longrightarrow> fst (p s) = fst (q t) \<and> R (snd (p s)) (snd (q t)))"

lemma simI: "(\<And>s t. R s t \<Longrightarrow> fst (p s) = fst (q t) \<and> R (snd (p s)) (snd (q t))) \<Longrightarrow> sim R p q"
  by (simp add: sim_def)

lemma simD: "sim R p q \<Longrightarrow> R s t \<Longrightarrow> p s = (r, s') \<Longrightarrow> \<exists>t'. q t = (r, t') \<and> R s' t'"
  by (cases "q t") (force simp: sim_def)

lemma sim_apply: "sim R p q \<Longrightarrow> R s t \<Longrightarrow> fst (p s) = fst (q t) \<and> R (snd (p s)) (snd (q t))"
  by (simp add: sim_def)

lemma sim_ret [sim_rules]: "sim R (ret x) (ret x)"
  by (simp add: sim_def prog_simps)

lemma sim_raise [sim_rules]: "sim R (raise e) (raise e)"
  by (simp add: sim_def prog_simps)

lemma sim_panic [sim_rules]: "sim R panic panic"
  by (simp add: sim_def prog_simps)

lemma sim_lift_res [sim_rules]: "sim R (lift_res r) (lift_res r)"
  by (simp add: sim_def prog_simps)

lemma sim_assert_p [sim_rules]: "sim R (assert_p b) (assert_p b)"
  by (simp add: sim_def prog_simps)

lemma sim_bnd [sim_rules]:
  assumes "sim R p q" "\<And>x. sim R (f x) (g x)"
  shows "sim R (bnd p f) (bnd q g)"
proof (rule simI)
  fix s t assume "R s t"
  moreover obtain r s' where p: "p s = (r, s')" by fastforce
  ultimately obtain t' where q: "q t = (r, t')" and R: "R s' t'" using simD [OF assms(1)] by blast
  show "fst (bnd p f s) = fst (bnd q g t) \<and> R (snd (bnd p f s)) (snd (bnd q g t))"
    using p q R assms(2) by (cases r) (auto simp: bnd_def sim_def)
qed

lemma sim_try_p [sim_rules]:
  assumes "sim R p q"
  shows "sim R (try_p p) (try_p q)"
proof (rule simI)
  fix s t assume "R s t"
  moreover obtain r s' where p: "p s = (r, s')" by fastforce
  ultimately obtain t' where "q t = (r, t')" and "R s' t'" using simD [OF assms] by blast
  with p show "fst (try_p p s) = fst (try_p q t) \<and> R (snd (try_p p s)) (snd (try_p q t))"
    by (cases r) (simp_all add: try_p_def)
qed

lemma sim_for_each [sim_rules]:
  "(\<And>x. sim R (f x) (g x)) \<Longrightarrow> sim R (for_each xs f) (for_each xs g)"
  by (induction xs) (simp_all add: sim_rules)

lemma sim_if [sim_rules]:
  "(b \<Longrightarrow> sim R p q) \<Longrightarrow> (\<not> b \<Longrightarrow> sim R p' q') \<Longrightarrow> sim R (if b then p else p') (if b then q else q')"
  by simp

lemma sim_case_option [sim_rules]:
  "sim R p q \<Longrightarrow> (\<And>x. sim R (f x) (g x)) \<Longrightarrow>
     sim R (case v of None \<Rightarrow> p | Some x \<Rightarrow> f x) (case v of None \<Rightarrow> q | Some x \<Rightarrow> g x)"
  by (cases v) simp_all

lemma sim_case_prod [sim_rules]:
  "(\<And>x y. sim R (f x y) (g x y)) \<Longrightarrow> sim R (case v of (x, y) \<Rightarrow> f x y) (case v of (x, y) \<Rightarrow> g x y)"
  by (cases v) simp_all

lemma sim_case_sum [sim_rules]:
  "(\<And>x. sim R (f x) (g x)) \<Longrightarrow> (\<And>x. sim R (f' x) (g' x)) \<Longrightarrow>
     sim R (case v of Inl x \<Rightarrow> f x | Inr x \<Rightarrow> f' x) (case v of Inl x \<Rightarrow> g x | Inr x \<Rightarrow> g' x)"
  by (cases v) simp_all

lemma sim_Let [sim_rules]: "(\<And>x. sim R (f x) (g x)) \<Longrightarrow> sim R (Let v f) (Let v g)"
  by simp

lemma sim_gets: "(\<And>s t. R s t \<Longrightarrow> f s = g t) \<Longrightarrow> sim R (gets f) (gets g)"
  by (simp add: sim_def prog_simps)

lemma sim_modify: "(\<And>s t. R s t \<Longrightarrow> R (f s) (g t)) \<Longrightarrow> sim R (modify_st f) (modify_st g)"
  by (simp add: sim_def prog_simps)

section \<open>Invariants of stateful calls\<close>

text \<open>\<open>keeps I p\<close>: the call \<open>p\<close> preserves \<open>I\<close>, whatever its result.  Again the rules follow the
  structure of the call.\<close>

named_theorems keeps_rules \<open>invariance rules, by the structure of the call\<close>

definition keeps :: "('s \<Rightarrow> bool) \<Rightarrow> ('s, 'e, 'a) prog \<Rightarrow> bool" where
  "keeps I p \<longleftrightarrow> (\<forall>s. I s \<longrightarrow> I (snd (p s)))"

lemma keepsD: "keeps I p \<Longrightarrow> I s \<Longrightarrow> p s = (r, s') \<Longrightarrow> I s'"
  by (metis keeps_def snd_conv)

lemma keeps_basic [keeps_rules]:
  "keeps I (ret x)" "keeps I (raise e)" "keeps I panic" "keeps I (lift_res r)" "keeps I (assert_p b)"
  "keeps I (gets f)" "keeps I get_st"
  by (simp_all add: keeps_def prog_simps)

lemma keeps_bnd [keeps_rules]:
  assumes "keeps I p" "\<And>x. keeps I (f x)"
  shows "keeps I (bnd p f)"
  unfolding keeps_def
proof (intro allI impI)
  fix s assume "I s"
  obtain r s' where p: "p s = (r, s')" by fastforce
  then have "I s'" using keepsD [OF assms(1) \<open>I s\<close>] by simp
  then show "I (snd (bnd p f s))" using p assms(2) by (cases r) (auto simp: bnd_def keeps_def)
qed

lemma keeps_try_p [keeps_rules]: "keeps I p \<Longrightarrow> keeps I (try_p p)"
  by (auto simp: keeps_def try_p_def split: prod.splits res.splits)

lemma keeps_for_each [keeps_rules]: "(\<And>x. keeps I (f x)) \<Longrightarrow> keeps I (for_each xs f)"
  by (induction xs) (simp_all add: keeps_rules)

lemma keeps_if [keeps_rules]: "(b \<Longrightarrow> keeps I p) \<Longrightarrow> (\<not> b \<Longrightarrow> keeps I q) \<Longrightarrow> keeps I (if b then p else q)"
  by simp

lemma keeps_case_option [keeps_rules]:
  "keeps I p \<Longrightarrow> (\<And>x. keeps I (f x)) \<Longrightarrow> keeps I (case v of None \<Rightarrow> p | Some x \<Rightarrow> f x)"
  by (cases v) simp_all

lemma keeps_case_prod [keeps_rules]: "(\<And>x y. keeps I (f x y)) \<Longrightarrow> keeps I (case v of (x, y) \<Rightarrow> f x y)"
  by (cases v) simp_all

lemma keeps_case_sum [keeps_rules]:
  "(\<And>x. keeps I (f x)) \<Longrightarrow> (\<And>x. keeps I (g x)) \<Longrightarrow> keeps I (case v of Inl x \<Rightarrow> f x | Inr x \<Rightarrow> g x)"
  by (cases v) simp_all

lemma keeps_Let [keeps_rules]: "(\<And>x. keeps I (f x)) \<Longrightarrow> keeps I (Let v f)"
  by simp

lemma keeps_modify: "(\<And>s. I s \<Longrightarrow> I (f s)) \<Longrightarrow> keeps I (modify_st f)"
  by (simp add: keeps_def prog_simps)

lemma keeps_zoom: "(\<And>s x. I s \<Longrightarrow> I (upd x s)) \<Longrightarrow> keeps I (zoom sel upd m)"
  by (simp add: keeps_def zoom_def split: prod.splits)

end
