(* ===== verification/Phys_Frames.thy ===== *)
theory Phys_Frames
  imports Kernel_Prelude
begin

text \<open>
  Physical frames and the two interfaces around them.

  \<open>PhysFrame\<close> and \<open>PhysAddr\<close> are types of the \<open>x86_64\<close> crate, so the model takes them as
  a parameter: a record of the two calls the kernel makes, with their documented
  behaviour as the locale \<open>phys_frames\<close>.  The memory map is the data that the boot
  protocol hands to the kernel.  The locale \<open>frame_source\<close> is the contract of the trait
  pair \<open>FrameAllocator\<close> and \<open>FrameDeallocator\<close> that the boot allocator, the bitmap
  allocator and the global allocator all implement; what every client relies on is proved
  in it once.
\<close>

section \<open>Constants and boot data\<close>

definition FRAME_SIZE :: nat where "FRAME_SIZE = 4096"

text \<open>The layout constants of \<open>constants/memory.rs\<close>; \<open>HEAP_START\<close> is a pointer whose value the
  boot allocator compares with physical addresses.\<close>

definition HEAP_START :: nat where "HEAP_START = 0xFFFF810000000000"
definition HEAP_SIZE :: nat where "HEAP_SIZE = 1024 * 1024"
definition MAX_ALLOCATED_FRAMES :: nat where "MAX_ALLOCATED_FRAMES = 1024"
definition BITMAP_ENTRY_SIZE :: nat where "BITMAP_ENTRY_SIZE = 64"
definition FULL_BITMAP_ENTRY :: u64 where "FULL_BITMAP_ENTRY = 0xFFFFFFFFFFFFFFFF"

datatype entry_type = USABLE | OTHER_TYPE nat

record mem_entry =
  me_base :: nat
  me_length :: nat
  me_type :: entry_type

section \<open>The frame type of the x86_64 crate\<close>

text \<open>\<open>frame_containing a\<close> is \<open>PhysFrame::containing_address(PhysAddr::new(a))\<close>, \<open>None\<close> where
  \<open>PhysAddr::new\<close> panics; \<open>frame_start f\<close> is \<open>f.start_address().as_u64()\<close>.\<close>

record 'f frame_api =
  frame_containing :: "nat \<Rightarrow> 'f option"
  frame_start :: "'f \<Rightarrow> nat"

locale phys_frames =
  fixes api :: "'f frame_api"
  assumes containing: "a < 2 ^ 52 \<Longrightarrow>
      \<exists>f. frame_containing api a = Some f \<and> frame_start api f = a div 4096 * 4096"
    and aligned: "frame_start api f mod 4096 = 0"
    and start_inj: "frame_start api f = frame_start api g \<Longrightarrow> f = g"
begin

lemma start_by_index: "frame_start api f div 4096 * 4096 = frame_start api f"
  using aligned [of f] div_mult_mod_eq [of "frame_start api f" 4096] by simp

lemma index_inj: "frame_start api f div 4096 = frame_start api g div 4096 \<Longrightarrow> f = g"
  using start_by_index [of f] start_by_index [of g] start_inj by metis

lemma containing_page:
  assumes "i * 4096 < 2 ^ 52"
  obtains f where "frame_containing api (i * 4096) = Some f" "frame_start api f = i * 4096"
  using containing [OF assms] by auto

lemma containing_unique:
  assumes "frame_containing api a = Some f" "a < 2 ^ 52"
  shows "frame_start api f = a div 4096 * 4096"
  using containing [OF assms(2)] assms(1) by auto

end

text \<open>The representation the crate documents: a frame is its 4 KiB frame number.\<close>

definition numbered_frames :: "nat frame_api" where
  "numbered_frames = \<lparr>frame_containing = (\<lambda>a. if a < 2 ^ 52 then Some (a div 4096) else None),
                      frame_start = (\<lambda>n. n * 4096)\<rparr>"

interpretation numbered: phys_frames numbered_frames
  by unfold_locales (simp_all add: numbered_frames_def)

section \<open>The contract of a frame allocator\<close>

text \<open>
  \<open>alloc\<close> may fail to return (\<open>None\<close>), may panic, may report that no frame is left, or
  hands out a frame.  \<open>used\<close> is the set of frames the allocator regards as taken.
\<close>

locale frame_source =
  fixes alloc :: "'a \<Rightarrow> ((unit, 'f option) res \<times> 'a) option"
    and dealloc :: "'f \<Rightarrow> 'a \<Rightarrow> (unit, unit) res \<times> 'a"
    and used :: "'a \<Rightarrow> 'f set"
    and inv :: "'a \<Rightarrow> bool"
  assumes alloc_fresh: "inv a \<Longrightarrow> alloc a = Some (Ok (Some f), a') \<Longrightarrow>
        f \<notin> used a \<and> used a' = insert f (used a)"
    and alloc_inv: "inv a \<Longrightarrow> alloc a = Some (Ok r, a') \<Longrightarrow> inv a'"
    and alloc_none: "inv a \<Longrightarrow> alloc a = Some (Ok None, a') \<Longrightarrow> used a' = used a"
    and dealloc_used: "inv a \<Longrightarrow> f \<in> used a \<Longrightarrow> dealloc f a = (Ok (), a') \<Longrightarrow>
        used a' = used a - {f} \<and> inv a'"
begin

text \<open>A client holds the frames it was given and returns only those.\<close>

inductive client_step :: "'a \<times> 'f set \<Rightarrow> 'a \<times> 'f set \<Rightarrow> bool" where
  take_frame: "alloc a = Some (Ok (Some f), a') \<Longrightarrow> client_step (a, live) (a', insert f live)"
| out_of_frames: "alloc a = Some (Ok None, a') \<Longrightarrow> client_step (a, live) (a', live)"
| give_back: "f \<in> live \<Longrightarrow> dealloc f a = (Ok (), a') \<Longrightarrow> client_step (a, live) (a', live - {f})"

definition client_inv :: "'a \<times> 'f set \<Rightarrow> bool" where
  "client_inv s \<longleftrightarrow> inv (fst s) \<and> snd s \<subseteq> used (fst s)"

lemma client_step_inv: "client_step s t \<Longrightarrow> client_inv s \<Longrightarrow> client_inv t"
proof (induction rule: client_step.induct)
  case (take_frame a f a' live)
  then show ?case using alloc_fresh [of a f a'] alloc_inv [of a "Some f" a']
    by (auto simp: client_inv_def)
next
  case (out_of_frames a a' live)
  then show ?case using alloc_none [of a a'] alloc_inv [of a None a']
    by (auto simp: client_inv_def)
next
  case (give_back f live a a')
  then show ?case using dealloc_used [of a f a'] by (auto simp: client_inv_def)
qed

lemma client_run_inv: "client_step\<^sup>*\<^sup>* s t \<Longrightarrow> client_inv s \<Longrightarrow> client_inv t"
  by (induction rule: rtranclp_induct) (auto intro: client_step_inv)

text \<open>No frame is handed out while it is still live.\<close>

lemma no_double_allocation:
  assumes "inv a" "client_step\<^sup>*\<^sup>* (a, {}) (b, live)" "alloc b = Some (Ok (Some f), c)"
  shows "f \<notin> live"
proof -
  have "client_inv (a, {})" using assms(1) by (simp add: client_inv_def)
  with assms(2) have "client_inv (b, live)" by (rule client_run_inv)
  then show ?thesis using alloc_fresh [of b f c] assms(3) by (auto simp: client_inv_def)
qed

text \<open>Frames that were taken before the client started are never handed to it.\<close>

lemma client_run_keeps_foreign:
  assumes "client_step\<^sup>*\<^sup>* s t" "client_inv s" "g \<in> used (fst s)" "g \<notin> snd s"
  shows "g \<in> used (fst t) \<and> g \<notin> snd t"
  using assms
proof (induction rule: rtranclp_induct)
  case base
  then show ?case by simp
next
  case (step t u)
  then have t: "client_inv t" "g \<in> used (fst t)" "g \<notin> snd t"
    using client_run_inv by auto
  from step.hyps(2) t show ?case
  proof (cases rule: client_step.cases)
    case (take_frame a f a' live)
    then show ?thesis using t alloc_fresh [of a f a'] by (auto simp: client_inv_def)
  next
    case (out_of_frames a a' live)
    then show ?thesis using t alloc_none [of a a'] by (auto simp: client_inv_def)
  next
    case (give_back f live a a')
    then show ?thesis using t dealloc_used [of a f a'] by (auto simp: client_inv_def)
  qed
qed

end

end
