(* ===== verification/Frame_Bitmap.thy ===== *)
theory Frame_Bitmap
  imports Phys_Frames
begin

unbundle bit_operations_syntax

text \<open>
  The bitmap frame allocator (\<open>memory/bitmap_frame_allocator.rs\<close>): the record of the struct,
  one definition per method, and what allocation, deallocation and initialisation do.
  A set bit is a frame in use.  \<open>allocate_frame\<close> searches with a loop that need not end,
  so it is a \<open>partial_function\<close> into \<open>option\<close>: \<open>None\<close> is a call that never returns.
\<close>

section \<open>The struct and its methods\<close>

record bitmap_alloc =
  total_frames :: nat
  free_frames :: nat
  to_allocate :: nat
  bitmap :: "u64 list"
  allocate_count :: nat
  free_count :: nat

definition bm_set_bit :: "nat \<Rightarrow> (bitmap_alloc, unit, unit) prog" where
  "bm_set_bit frame_index a =
    (if \<not> frame_index < total_frames a then (Panic, a)
     else let byte_index = frame_index div 64; bit_index = frame_index mod 64;
              mask = push_bit bit_index (1 :: u64)
       in if \<not> byte_index < length (bitmap a) then (Panic, a)
       else let a1 = a\<lparr>bitmap := (bitmap a)[byte_index := bitmap a ! byte_index OR mask]\<rparr>
       in (case u64_sub (free_frames a1) 1 of
             Ok n \<Rightarrow> (Ok (), a1\<lparr>free_frames := n\<rparr>)
           | Err e \<Rightarrow> (Err e, a1)
           | Panic \<Rightarrow> (Panic, a1)))"

text \<open>The inner assertion of \<open>clear_bit\<close> is reached only where the word is 0, so it always fails.\<close>

definition bm_clear_bit :: "nat \<Rightarrow> (bitmap_alloc, unit, unit) prog" where
  "bm_clear_bit frame_index a =
    (if \<not> frame_index < total_frames a then (Panic, a)
     else let byte_index = frame_index div 64; bit_index = frame_index mod 64;
              mask = push_bit bit_index (1 :: u64)
       in if \<not> byte_index < length (bitmap a) then (Panic, a)
       else if bitmap a ! byte_index = 0 \<and> \<not> bitmap a ! byte_index = 1 then (Panic, a)
       else (Ok (), a\<lparr>bitmap := (bitmap a)[byte_index := bitmap a ! byte_index AND NOT mask],
                      free_frames := free_frames a + 1\<rparr>))"

definition bm_clear_bit_init :: "nat \<Rightarrow> (bitmap_alloc, unit, unit) prog" where
  "bm_clear_bit_init frame_index a =
    (if \<not> frame_index < total_frames a then (Panic, a)
     else let byte_index = frame_index div 64; bit_index = frame_index mod 64;
              mask = push_bit bit_index (1 :: u64)
       in if \<not> byte_index < length (bitmap a) then (Panic, a)
       else (Ok (), a\<lparr>bitmap := (bitmap a)[byte_index := bitmap a ! byte_index AND NOT mask],
                      free_frames := free_frames a + 1\<rparr>))"

definition bm_is_bit_set :: "nat \<Rightarrow> bitmap_alloc \<Rightarrow> (unit, bool) res" where
  "bm_is_bit_set frame_index a =
    (if \<not> frame_index < total_frames a then Panic
     else let byte_index = frame_index div 64; bit_index = frame_index mod 64;
              mask = push_bit bit_index (1 :: u64)
       in if \<not> byte_index < length (bitmap a) then Panic
       else Ok ((bitmap a ! byte_index) AND mask \<noteq> 0))"

definition bm_is_frame_used :: "'f frame_api \<Rightarrow> 'f \<Rightarrow> bitmap_alloc \<Rightarrow> (unit, bool) res" where
  "bm_is_frame_used api frame a = bm_is_bit_set (frame_start api frame div FRAME_SIZE) a"

definition bm_mark_frame_used :: "'f frame_api \<Rightarrow> 'f \<Rightarrow> (bitmap_alloc, unit, unit) prog" where
  "bm_mark_frame_used api frame = bm_set_bit (frame_start api frame div FRAME_SIZE)"

definition bm_mark_frame_free :: "'f frame_api \<Rightarrow> 'f \<Rightarrow> (bitmap_alloc, unit, unit) prog" where
  "bm_mark_frame_free api frame = bm_clear_bit (frame_start api frame div FRAME_SIZE)"

definition bm_free_region :: "nat \<Rightarrow> nat \<Rightarrow> (bitmap_alloc, unit, unit) prog" where
  "bm_free_region base len =
    bnd (lift_res (u64_add base len)) (\<lambda>region_end.
      let start_frame = base div FRAME_SIZE; end_frame = region_end div FRAME_SIZE
      in for_each [start_frame..<end_frame] bm_clear_bit_init)"

text \<open>The two loops of \<open>init\<close> over the memory map: the top of usable memory, and the freeing of
  each usable region.\<close>

fun bm_true_end :: "mem_entry list \<Rightarrow> nat \<Rightarrow> (unit, nat) res" where
  "bm_true_end [] true_end = Ok true_end"
| "bm_true_end (entry # rest) true_end =
    (if me_type entry = USABLE
     then (case u64_add (me_base entry) (me_length entry) of
             Ok end_addr \<Rightarrow> bm_true_end rest (if end_addr > true_end then end_addr else true_end)
           | Err e \<Rightarrow> Err e
           | Panic \<Rightarrow> Panic)
     else bm_true_end rest true_end)"

definition bm_init_entry :: "mem_entry \<Rightarrow> (bitmap_alloc, unit, unit) prog" where
  "bm_init_entry entry =
    (if me_type entry = USABLE
     then bnd (bm_free_region (me_base entry) (me_length entry)) (\<lambda>_.
            modify_st (\<lambda>a. a\<lparr>free_frames := free_frames a + div_ceil (me_length entry) FRAME_SIZE\<rparr>))
     else ret ())"

definition bm_empty :: "nat \<Rightarrow> nat \<Rightarrow> bitmap_alloc" where
  "bm_empty true_end n_initial =
    (let total = div_ceil true_end FRAME_SIZE; bitmap_size = div_ceil total BITMAP_ENTRY_SIZE
     in \<lparr>total_frames = total, free_frames = 0, to_allocate = n_initial,
         bitmap = replicate bitmap_size FULL_BITMAP_ENTRY, allocate_count = 0, free_count = 0\<rparr>)"

definition bm_init :: "'f frame_api \<Rightarrow> mem_entry list \<Rightarrow> 'f list \<Rightarrow> (unit, bitmap_alloc) res" where
  "bm_init api memory_map initial_frames =
    (case bm_true_end memory_map 0 of
       Ok true_end \<Rightarrow>
         (case bnd (for_each memory_map bm_init_entry)
                   (\<lambda>_. for_each initial_frames (bm_mark_frame_used api))
                   (bm_empty true_end (length initial_frames)) of
            (Ok _, a) \<Rightarrow> Ok a
          | (Err e, _) \<Rightarrow> Err e
          | (Panic, _) \<Rightarrow> Panic)
     | Err e \<Rightarrow> Err e
     | Panic \<Rightarrow> Panic)"

text \<open>\<open>allocate_frame\<close>: the body of the loop where the bit is clear, the loop, and the call.\<close>

definition bm_take :: "'f frame_api \<Rightarrow> bitmap_alloc \<Rightarrow> (unit, 'f option) res \<times> bitmap_alloc" where
  "bm_take api a =
    (case bm_set_bit (to_allocate a) a of
       (Ok _, a1) \<Rightarrow>
         (let addr = to_allocate a1 * FRAME_SIZE;
              a2 = a1\<lparr>to_allocate := (to_allocate a1 + 1) mod total_frames a1,
                      allocate_count := allocate_count a1 + 1\<rparr>
          in case frame_containing api addr of
               Some f \<Rightarrow> (Ok (Some f), a2)
             | None \<Rightarrow> (Panic, a2))
     | (Err e, a1) \<Rightarrow> (Err e, a1)
     | (Panic, a1) \<Rightarrow> (Panic, a1))"

partial_function (option) bm_search ::
  "'f frame_api \<Rightarrow> bitmap_alloc \<Rightarrow> ((unit, 'f option) res \<times> bitmap_alloc) option" where
  "bm_search api a =
    (case bm_is_bit_set (to_allocate a) a of
       Ok used \<Rightarrow>
         (if \<not> used then Some (bm_take api a)
          else bm_search api (a\<lparr>to_allocate := (to_allocate a + 1) mod total_frames a\<rparr>))
     | Err e \<Rightarrow> Some (Err e, a)
     | Panic \<Rightarrow> Some (Panic, a))"

definition bm_allocate_frame ::
  "'f frame_api \<Rightarrow> bitmap_alloc \<Rightarrow> ((unit, 'f option) res \<times> bitmap_alloc) option" where
  "bm_allocate_frame api a =
    (if free_frames a = total_frames a then Some (Ok None, a) else bm_search api a)"

definition bm_deallocate_frame :: "'f frame_api \<Rightarrow> 'f \<Rightarrow> (bitmap_alloc, unit, unit) prog" where
  "bm_deallocate_frame api frame a =
    bm_mark_frame_free api frame (a\<lparr>free_count := free_count a + 1\<rparr>)"

declare push_bit_of_1 [simp del]

section \<open>The set of used frames\<close>

text \<open>\<open>bm_bit a i\<close>: frame number \<open>i\<close> is marked as used.\<close>

definition bm_bit :: "bitmap_alloc \<Rightarrow> nat \<Rightarrow> bool" where
  "bm_bit a i = bit (bitmap a ! (i div 64)) (i mod 64)"

definition bm_clear_set :: "bitmap_alloc \<Rightarrow> nat set" where
  "bm_clear_set a = {i. i < total_frames a \<and> \<not> bm_bit a i}"

definition bm_shape :: "bitmap_alloc \<Rightarrow> bool" where
  "bm_shape a \<longleftrightarrow> total_frames a \<le> 64 * length (bitmap a)"

definition bm_inv :: "bitmap_alloc \<Rightarrow> bool" where
  "bm_inv a \<longleftrightarrow> bm_shape a \<and> to_allocate a < total_frames a \<and> total_frames a * FRAME_SIZE \<le> 2 ^ 52
     \<and> card (bm_clear_set a) \<le> free_frames a"

definition bm_used :: "'f frame_api \<Rightarrow> bitmap_alloc \<Rightarrow> 'f set" where
  "bm_used api a = {f. frame_start api f div FRAME_SIZE \<notin> bm_clear_set a}"

subsection \<open>Single bits\<close>

lemma and_push_bit_1_iff: "(w AND push_bit n (1 :: u64) \<noteq> 0) \<longleftrightarrow> n < 64 \<and> bit w n"
proof
  assume "w AND push_bit n 1 \<noteq> 0"
  then obtain k where "bit (w AND push_bit n 1) k" using bit_eqI [of "w AND push_bit n 1" 0] by auto
  then show "n < 64 \<and> bit w n" by (auto simp: bit_simps dest: bit_imp_le_length)
next
  assume "n < 64 \<and> bit w n"
  then have "bit (w AND push_bit n 1) n" by (simp add: bit_simps)
  then show "w AND push_bit n 1 \<noteq> 0" by auto
qed

lemma bm_shape_index: "bm_shape a \<Longrightarrow> i < total_frames a \<Longrightarrow> i div 64 < length (bitmap a)"
  by (simp add: bm_shape_def less_mult_imp_div_less mult.commute)

lemma bm_is_bit_set_eq: "bm_shape a \<Longrightarrow> i < total_frames a \<Longrightarrow> bm_is_bit_set i a = Ok (bm_bit a i)"
  by (simp add: bm_is_bit_set_def bm_bit_def bm_shape_index and_push_bit_1_iff Let_def)

lemma same_word_and_bit: "i div 64 = j div 64 \<Longrightarrow> i mod 64 = j mod 64 \<Longrightarrow> (i :: nat) = j"
  by (metis div_mult_mod_eq)

lemma bm_set_bit_eq:
  assumes "bm_shape a" "i < total_frames a" "0 < free_frames a"
  shows "bm_set_bit i a = (Ok (), a\<lparr>bitmap := (bitmap a)[i div 64 := bitmap a ! (i div 64) OR push_bit (i mod 64) 1],
      free_frames := free_frames a - 1\<rparr>)"
  using assms by (simp add: bm_set_bit_def bm_shape_index u64_sub_def Let_def)

lemma bm_set_bit_bits:
  assumes "bm_shape a" "i < total_frames a" "bm_set_bit i a = (Ok (), a')"
  shows "bm_bit a' j = (j = i \<or> bm_bit a j)"
proof -
  have w: "i div 64 < length (bitmap a)" using assms(1,2) by (rule bm_shape_index)
  have "bitmap a' = (bitmap a)[i div 64 := bitmap a ! (i div 64) OR push_bit (i mod 64) 1]"
    using assms w by (auto simp: bm_set_bit_def u64_sub_def Let_def split: if_splits)
  then show ?thesis
    using w same_word_and_bit [of i j] by (cases "i div 64 = j div 64") (auto simp: bm_bit_def bit_simps)
qed

lemma bm_set_bit_frame:
  assumes "bm_set_bit i a = (Ok (), a')"
  shows "total_frames a' = total_frames a" "to_allocate a' = to_allocate a"
    "length (bitmap a') = length (bitmap a)" "free_frames a' = free_frames a - 1" "0 < free_frames a"
    "allocate_count a' = allocate_count a" "free_count a' = free_count a" "i < total_frames a"
  using assms by (auto simp: bm_set_bit_def u64_sub_def Let_def split: if_splits)

lemma bm_clear_word:
  assumes "bm_shape a" "i < total_frames a"
    and "bitmap a' = (bitmap a)[i div 64 := bitmap a ! (i div 64) AND NOT (push_bit (i mod 64) 1)]"
  shows "bm_bit a' j = (j \<noteq> i \<and> bm_bit a j)"
proof -
  have w: "i div 64 < length (bitmap a)" using assms(1,2) by (rule bm_shape_index)
  then show ?thesis
    using assms(3) same_word_and_bit [of i j] by (cases "i div 64 = j div 64")
      (auto simp: bm_bit_def bit_simps dest: bit_imp_le_length)
qed

lemma bm_clear_bit_init_eq:
  assumes "bm_shape a" "i < total_frames a"
  shows "bm_clear_bit_init i a = (Ok (), a\<lparr>bitmap := (bitmap a)[i div 64 := bitmap a ! (i div 64) AND NOT (push_bit (i mod 64) 1)],
      free_frames := free_frames a + 1\<rparr>)"
  using assms by (simp add: bm_clear_bit_init_def bm_shape_index Let_def)

lemma bm_clear_bit_eq:
  assumes "bm_shape a" "i < total_frames a"
  shows "bm_clear_bit i a = (if bitmap a ! (i div 64) = 0 then (Panic, a)
     else (Ok (), a\<lparr>bitmap := (bitmap a)[i div 64 := bitmap a ! (i div 64) AND NOT (push_bit (i mod 64) 1)],
      free_frames := free_frames a + 1\<rparr>))"
  using assms by (auto simp: bm_clear_bit_def bm_shape_index Let_def)

lemma finite_bm_clear_set [simp]: "finite (bm_clear_set a)"
  by (simp add: bm_clear_set_def)

subsection \<open>Allocation\<close>

lemma bm_bit_cursor [simp]: "bm_bit (a\<lparr>to_allocate := n\<rparr>) = bm_bit a"
  by (rule ext) (simp add: bm_bit_def)

lemma bm_search_finds:
  assumes "bm_shape a" "to_allocate a < total_frames a"
    and "\<forall>k' < k. bm_bit a ((to_allocate a + k') mod total_frames a)"
    and "\<not> bm_bit a ((to_allocate a + k) mod total_frames a)"
  shows "bm_search api a
     = Some (bm_take api (a\<lparr>to_allocate := (to_allocate a + k) mod total_frames a\<rparr>))"
  using assms
proof (induction k arbitrary: a)
  case 0
  then show ?case by (subst bm_search.simps) (simp add: bm_is_bit_set_eq)
next
  case (Suc k)
  let ?a = "a\<lparr>to_allocate := (to_allocate a + 1) mod total_frames a\<rparr>"
  have step: "((to_allocate a + 1) mod total_frames a + j) mod total_frames a
      = (to_allocate a + Suc j) mod total_frames a" for j
    by (simp add: mod_add_left_eq)
  have sh: "bm_shape ?a" and lt: "to_allocate ?a < total_frames ?a"
    using Suc.prems(1,2) by (simp_all add: bm_shape_def)
  have used: "bm_bit a (to_allocate a)"
    using Suc.prems(2) Suc.prems(3) [rule_format, of 0] by simp
  have "bm_search api ?a = Some (bm_take api (?a\<lparr>to_allocate := (to_allocate ?a + k) mod total_frames ?a\<rparr>))"
  proof (rule Suc.IH [OF sh lt])
    show "\<forall>k' < k. bm_bit ?a ((to_allocate ?a + k') mod total_frames ?a)"
    proof (intro allI impI)
      fix k' assume "k' < k"
      then show "bm_bit ?a ((to_allocate ?a + k') mod total_frames ?a)"
        using Suc.prems(3) [rule_format, of "Suc k'"] step [of k'] by simp
    qed
    show "\<not> bm_bit ?a ((to_allocate ?a + k) mod total_frames ?a)"
      using Suc.prems(4) step [of k] by simp
  qed
  moreover have "bm_search api a = bm_search api ?a"
    using Suc.prems(1,2) used by (subst bm_search.simps) (simp add: bm_is_bit_set_eq)
  ultimately show ?case using step [of k] by (simp del: One_nat_def add_Suc_right)
qed

lemma cyclic_first:
  assumes "(t :: nat) < n" "i < n" "P i"
  obtains k where "k < n" "P ((t + k) mod n)" "\<forall>k' < k. \<not> P ((t + k') mod n)"
proof -
  let ?k = "(i + n - t) mod n"
  have "(t + ?k) mod n = (t + (i + n - t)) mod n" by (simp add: mod_add_right_eq)
  also have "\<dots> = i" using assms by simp
  finally have ex: "P ((t + ?k) mod n)" using assms(3) by simp
  define m where "m = (LEAST k. P ((t + k) mod n))"
  have m: "P ((t + m) mod n)" unfolding m_def using ex by (rule LeastI)
  have "m \<le> ?k" unfolding m_def using ex by (rule Least_le)
  moreover have "?k < n" using assms(1) by simp
  moreover have "\<forall>k' < m. \<not> P ((t + k') mod n)" unfolding m_def using not_less_Least by blast
  ultimately show ?thesis using m that by (meson le_less_trans)
qed

lemma bm_clear_set_set_bit:
  assumes "bm_shape a" "bm_set_bit i a = (Ok (), a')"
  shows "bm_clear_set a' = bm_clear_set a - {i}"
  using bm_set_bit_bits [OF assms(1) bm_set_bit_frame(8) [OF assms(2)] assms(2)]
    bm_set_bit_frame(1) [OF assms(2)] by (auto simp: bm_clear_set_def)

lemma bm_inv_set_bit:
  assumes "bm_inv a" "bm_set_bit i a = (Ok (), a')" "i \<in> bm_clear_set a"
  shows "bm_inv a'"
proof -
  have sh: "bm_shape a" using assms(1) by (simp add: bm_inv_def)
  have "card (bm_clear_set a') = card (bm_clear_set a) - 1"
    using assms(3) bm_clear_set_set_bit [OF sh assms(2)] by simp
  with assms(1) show ?thesis
    by (simp add: bm_inv_def bm_shape_def bm_set_bit_frame(1-4) [OF assms(2)] diff_le_mono)
qed

lemma bm_free_frames_pos: "bm_inv a \<Longrightarrow> i \<in> bm_clear_set a \<Longrightarrow> 0 < free_frames a"
  unfolding bm_inv_def by (metis card_gt_0_iff empty_iff finite_bm_clear_set le_zero_eq not_gr_zero)

lemma bm_clear_set_cursor [simp]:
  "bm_clear_set (a\<lparr>to_allocate := n, allocate_count := c\<rparr>) = bm_clear_set a"
  "bm_clear_set (a\<lparr>to_allocate := n\<rparr>) = bm_clear_set a"
  "bm_clear_set (a\<lparr>free_count := c\<rparr>) = bm_clear_set a"
  by (simp_all add: bm_clear_set_def bm_bit_def)

lemma bm_inv_cursor:
  "bm_inv a \<Longrightarrow> n < total_frames a \<Longrightarrow> bm_inv (a\<lparr>to_allocate := n, allocate_count := c\<rparr>)"
  "bm_inv a \<Longrightarrow> n < total_frames a \<Longrightarrow> bm_inv (a\<lparr>to_allocate := n\<rparr>)"
  "bm_inv (a\<lparr>free_count := c\<rparr>) = bm_inv a"
  by (simp_all add: bm_inv_def bm_shape_def)

text \<open>Taking the frame under the cursor.\<close>

lemma bm_take_clear:
  assumes "phys_frames api" "bm_inv a" "to_allocate a \<in> bm_clear_set a"
  obtains f a' where "bm_take api a = (Ok (Some f), a')" "frame_start api f = to_allocate a * FRAME_SIZE"
    "bm_clear_set a' = bm_clear_set a - {to_allocate a}" "bm_inv a'"
    "to_allocate a' = (to_allocate a + 1) mod total_frames a"
    "total_frames a' = total_frames a" "free_frames a' = free_frames a - 1"
    "allocate_count a' = allocate_count a + 1"
proof -
  let ?i = "to_allocate a"
  have sh: "bm_shape a" and i: "?i < total_frames a" and b: "total_frames a * FRAME_SIZE \<le> 2 ^ 52"
    using assms(2) by (auto simp: bm_inv_def)
  obtain a1 where a1: "bm_set_bit ?i a = (Ok (), a1)"
    using bm_set_bit_eq [OF sh i bm_free_frames_pos [OF assms(2,3)]] by blast
  note fr = bm_set_bit_frame [OF a1]
  have "?i * 4096 < 2 ^ 52" using i b by (simp add: FRAME_SIZE_def)
  then obtain f where f: "frame_containing api (?i * 4096) = Some f" "frame_start api f = ?i * 4096"
    using phys_frames.containing_page [OF assms(1)] by blast
  let ?a = "a1\<lparr>to_allocate := (?i + 1) mod total_frames a, allocate_count := allocate_count a + 1\<rparr>"
  have "bm_take api a = (Ok (Some f), ?a)"
    using a1 f fr by (simp add: bm_take_def FRAME_SIZE_def Let_def)
  moreover have "bm_inv ?a"
    using bm_inv_cursor(1) [OF bm_inv_set_bit [OF assms(2) a1 assms(3)]] i fr by simp
  ultimately show ?thesis
    using f fr bm_clear_set_set_bit [OF sh a1] by (intro that [of f ?a]) (simp_all add: FRAME_SIZE_def)
qed

text \<open>The whole search: the first free frame at or after the cursor, cyclically.\<close>

lemma bm_allocate_finds:
  assumes "phys_frames api" "bm_inv a" "free_frames a \<noteq> total_frames a" "bm_clear_set a \<noteq> {}"
  obtains k f a' where "bm_allocate_frame api a = Some (Ok (Some f), a')" "k < total_frames a"
    "\<forall>k' < k. (to_allocate a + k') mod total_frames a \<notin> bm_clear_set a"
    "(to_allocate a + k) mod total_frames a \<in> bm_clear_set a"
    "frame_start api f = (to_allocate a + k) mod total_frames a * FRAME_SIZE"
    "bm_clear_set a' = bm_clear_set a - {(to_allocate a + k) mod total_frames a}"
    "to_allocate a' = ((to_allocate a + k) mod total_frames a + 1) mod total_frames a"
    "total_frames a' = total_frames a" "free_frames a' = free_frames a - 1"
    "allocate_count a' = allocate_count a + 1" "bm_inv a'"
proof -
  let ?n = "total_frames a" and ?t = "to_allocate a"
  have sh: "bm_shape a" and t: "?t < ?n" using assms(2) by (auto simp: bm_inv_def)
  from assms(4) obtain i where i: "i < ?n" "\<not> bm_bit a i" by (auto simp: bm_clear_set_def)
  obtain k where k: "k < ?n" "\<not> bm_bit a ((?t + k) mod ?n)"
    "\<forall>k' < k. bm_bit a ((?t + k') mod ?n)"
    using cyclic_first [OF t i(1), of "\<lambda>j. \<not> bm_bit a j"] i(2) by (metis (no_types, lifting))
  let ?j = "(?t + k) mod ?n" and ?a = "a\<lparr>to_allocate := (?t + k) mod ?n\<rparr>"
  have j: "?j \<in> bm_clear_set a" using k(2) t by (auto simp: bm_clear_set_def)
  have inv: "bm_inv ?a" using bm_inv_cursor(2) [OF assms(2)] t by simp
  have cur: "to_allocate ?a \<in> bm_clear_set ?a" using j by simp
  obtain f a' where tk: "bm_take api ?a = (Ok (Some f), a')"
    "frame_start api f = to_allocate ?a * FRAME_SIZE"
    "bm_clear_set a' = bm_clear_set ?a - {to_allocate ?a}" "bm_inv a'"
    "to_allocate a' = (to_allocate ?a + 1) mod total_frames ?a"
    "total_frames a' = total_frames ?a" "free_frames a' = free_frames ?a - 1"
    "allocate_count a' = allocate_count ?a + 1"
    by (rule bm_take_clear [OF assms(1) inv cur]) (rule that)
  note take = tk(1) tk(2-) [simplified]
  have "bm_allocate_frame api a = Some (Ok (Some f), a')"
    using bm_search_finds [OF sh t k(3,2), of api] take(1) assms(3) by (simp add: bm_allocate_frame_def)
  moreover have "\<forall>k' < k. (?t + k') mod ?n \<notin> bm_clear_set a"
    using k(3) by (auto simp: bm_clear_set_def)
  ultimately show ?thesis using take k(1) j by (intro that [of f a' k]) simp_all
qed

lemma bm_search_diverges:
  assumes "bm_shape a" "to_allocate a < total_frames a" "bm_clear_set a = {}"
  shows "bm_search (api :: 'f frame_api) a = None"
proof (rule ccontr)
  assume "bm_search api a \<noteq> None"
  then obtain r where ret: "bm_search api a = Some r" by auto
  let ?S = "\<lambda>a. bm_shape a \<and> to_allocate a < total_frames a \<and> bm_clear_set a = {}"
  have "\<not> ?S a"
  proof (rule bm_search.raw_induct [where P = "\<lambda>_ a _. \<not> ?S a", OF _ ret])
    fix s and api :: "'f frame_api" and a and r :: "(unit, 'f option) res \<times> bitmap_alloc"
    assume IH: "\<And>api a r. s api a = Some r \<Longrightarrow> \<not> ?S a"
      and eq: "(case bm_is_bit_set (to_allocate a) a of
          Ok used \<Rightarrow> if \<not> used then Some (bm_take api a)
            else s api (a\<lparr>to_allocate := (to_allocate a + 1) mod total_frames a\<rparr>)
        | Err e \<Rightarrow> Some (Err e, a) | Panic \<Rightarrow> Some (Panic, a)) = Some r"
    show "\<not> ?S a"
    proof
      assume S: "?S a"
      then have "bm_bit a (to_allocate a)" by (auto simp: bm_clear_set_def)
      with S eq have "s api (a\<lparr>to_allocate := (to_allocate a + 1) mod total_frames a\<rparr>) = Some r"
        by (simp add: bm_is_bit_set_eq)
      from IH [OF this] S show False by (auto simp: bm_shape_def)
    qed
  qed
  with assms show False by simp
qed

subsection \<open>Deallocation\<close>

lemma bm_clear_bit_Ok:
  assumes "bm_shape a" "bm_clear_bit i a = (Ok (), a')"
  shows "i < total_frames a" "bm_clear_set a' = insert i (bm_clear_set a)"
    "total_frames a' = total_frames a" "to_allocate a' = to_allocate a" "bm_shape a'"
    "free_frames a' = free_frames a + 1" "allocate_count a' = allocate_count a"
    "bitmap a ! (i div 64) \<noteq> 0"
proof -
  show i: "i < total_frames a" using assms(2) by (auto simp: bm_clear_bit_def split: if_splits)
  have nz: "bitmap a ! (i div 64) \<noteq> 0"
    and eq: "a' = a\<lparr>bitmap := (bitmap a)[i div 64 := bitmap a ! (i div 64) AND NOT (push_bit (i mod 64) 1)],
      free_frames := free_frames a + 1\<rparr>"
    using assms(2) bm_clear_bit_eq [OF assms(1) i] by (auto split: if_splits)
  show "bitmap a ! (i div 64) \<noteq> 0" by (rule nz)
  show tot: "total_frames a' = total_frames a" and "to_allocate a' = to_allocate a"
    and "free_frames a' = free_frames a + 1" and "allocate_count a' = allocate_count a"
    by (simp_all add: eq)
  show "bm_shape a'" using assms(1) by (simp add: eq bm_shape_def)
  have "bm_bit a' j = (j \<noteq> i \<and> bm_bit a j)" for j
    by (rule bm_clear_word [OF assms(1) i]) (simp add: eq)
  then show "bm_clear_set a' = insert i (bm_clear_set a)"
    using i tot by (auto simp: bm_clear_set_def)
qed

lemma bm_shape_free_count [simp]: "bm_shape (a\<lparr>free_count := c\<rparr>) = bm_shape a"
  by (simp add: bm_shape_def)

lemma bm_deallocate_Ok:
  assumes "bm_inv a" "bm_deallocate_frame api f a = (Ok (), a')"
  shows "frame_start api f div FRAME_SIZE < total_frames a"
    "bm_clear_set a' = insert (frame_start api f div FRAME_SIZE) (bm_clear_set a)"
    "bm_inv a'" "free_frames a' = free_frames a + 1" "to_allocate a' = to_allocate a"
proof -
  let ?a = "a\<lparr>free_count := free_count a + 1\<rparr>" and ?i = "frame_start api f div FRAME_SIZE"
  have sh: "bm_shape ?a" using assms(1) by (simp add: bm_inv_def)
  have eq: "bm_clear_bit ?i ?a = (Ok (), a')"
    using assms(2) by (simp add: bm_deallocate_frame_def bm_mark_frame_free_def)
  note c = bm_clear_bit_Ok [OF sh eq]
  show "?i < total_frames a" "free_frames a' = free_frames a + 1" "to_allocate a' = to_allocate a"
    using c by simp_all
  show cl: "bm_clear_set a' = insert ?i (bm_clear_set a)" using c(2) by simp
  have "card (bm_clear_set a') \<le> card (bm_clear_set a) + 1"
    unfolding cl by (simp add: card_insert_if)
  then show "bm_inv a'" using assms(1) c by (simp add: bm_inv_def)
qed

lemma bm_allocate_Ok:
  assumes "phys_frames api" "bm_inv a" "bm_allocate_frame api a = Some (Ok r, a')"
  shows "(r = None \<and> a' = a \<and> free_frames a = total_frames a) \<or>
    (\<exists>f i. r = Some f \<and> i \<in> bm_clear_set a \<and> frame_start api f = i * FRAME_SIZE
       \<and> bm_clear_set a' = bm_clear_set a - {i} \<and> bm_inv a' \<and> total_frames a' = total_frames a)"
proof (cases "free_frames a = total_frames a")
  case True
  then show ?thesis using assms(3) by (simp add: bm_allocate_frame_def)
next
  case False
  have sh: "bm_shape a" and t: "to_allocate a < total_frames a" using assms(2) by (auto simp: bm_inv_def)
  have "bm_clear_set a \<noteq> {}"
    using bm_search_diverges [OF sh t, of api] assms(3) False by (auto simp: bm_allocate_frame_def)
  then show ?thesis
    using bm_allocate_finds [OF assms(1,2) False] assms(3)
    by (metis (no_types, lifting) Pair_inject option.inject res.inject(1))
qed

text \<open>The bitmap allocator meets the contract of a frame allocator.\<close>

sublocale phys_frames \<subseteq> bm: frame_source "bm_allocate_frame api" "bm_deallocate_frame api" "bm_used api" bm_inv
proof unfold_locales
  have idx: "frame_start api f = i * FRAME_SIZE \<Longrightarrow> frame_start api f div FRAME_SIZE = i" for f i
    by (simp add: FRAME_SIZE_def)
  have only: "frame_start api g div FRAME_SIZE = frame_start api f div FRAME_SIZE \<Longrightarrow> g = f" for f g
    using index_inj [of g f] by (simp add: FRAME_SIZE_def)
  fix a a' f r
  assume inv: "bm_inv a"
  show "f \<notin> bm_used api a \<and> bm_used api a' = insert f (bm_used api a)"
    if "bm_allocate_frame api a = Some (Ok (Some f), a')"
    using bm_allocate_Ok [OF phys_frames_axioms inv that] idx only by (auto simp: bm_used_def)
  show "bm_inv a'" if "bm_allocate_frame api a = Some (Ok r, a')"
    using bm_allocate_Ok [OF phys_frames_axioms inv that] inv by auto
  show "bm_used api a' = bm_used api a" if "bm_allocate_frame api a = Some (Ok None, a')"
    using bm_allocate_Ok [OF phys_frames_axioms inv that] by auto
  show "bm_used api a' = bm_used api a - {f} \<and> bm_inv a'"
    if "f \<in> bm_used api a" "bm_deallocate_frame api f a = (Ok (), a')"
    using bm_deallocate_Ok [OF inv that(2)] only by (auto simp: bm_used_def)
qed

subsection \<open>Initialisation\<close>

text \<open>What the memory map says: the usable entries, their top, the frames wholly inside them, and
  the two page counts that \<open>init\<close> adds up per region.\<close>

definition usable_entries :: "mem_entry list \<Rightarrow> mem_entry list" where
  "usable_entries mm = filter (\<lambda>r. me_type r = USABLE) mm"

definition usable_top :: "mem_entry list \<Rightarrow> nat" where
  "usable_top mm = fold (\<lambda>r t. max (me_base r + me_length r) t) (usable_entries mm) 0"

definition region_frames :: "mem_entry \<Rightarrow> nat set" where
  "region_frames r = {me_base r div FRAME_SIZE ..< (me_base r + me_length r) div FRAME_SIZE}"

definition usable_frame_set :: "mem_entry list \<Rightarrow> nat set" where
  "usable_frame_set mm = (\<Union>r \<in> set (usable_entries mm). region_frames r)"

definition frame_no :: "'f frame_api \<Rightarrow> 'f \<Rightarrow> nat" where
  "frame_no api f = frame_start api f div FRAME_SIZE"

definition region_credit :: "mem_entry \<Rightarrow> nat" where
  "region_credit r = ((me_base r + me_length r) div FRAME_SIZE - me_base r div FRAME_SIZE)
     + div_ceil (me_length r) FRAME_SIZE"

definition mm_ok :: "mem_entry list \<Rightarrow> bool" where
  "mm_ok mm \<longleftrightarrow> (\<forall>r \<in> set (usable_entries mm). me_base r + me_length r < 2 ^ 64)"

lemma usable_entries_Cons:
  "usable_entries (r # mm) = (if me_type r = USABLE then r # usable_entries mm else usable_entries mm)"
  by (simp add: usable_entries_def)

lemma fold_max_ge: "t \<le> fold (\<lambda>r t. max (g r) t) rs (t :: nat)"
proof (induction rs arbitrary: t)
  case (Cons r rs)
  from Cons [of "max (g r) t"] show ?case by simp
qed simp

lemma fold_max_mem: "r \<in> set rs \<Longrightarrow> g r \<le> fold (\<lambda>r t. max (g r) t) rs (t :: nat)"
proof (induction rs arbitrary: t)
  case (Cons x rs)
  then show ?case
  proof (cases "r = x")
    case True
    have "max (g r) t \<le> fold (\<lambda>r t. max (g r) t) rs (max (g r) t)" by (rule fold_max_ge)
    then show ?thesis using True by simp
  qed auto
qed simp

lemma bm_true_end_eq:
  "mm_ok mm \<Longrightarrow> bm_true_end mm t
     = Ok (fold (\<lambda>r t. max (me_base r + me_length r) t) (usable_entries mm) t)"
proof (induction mm arbitrary: t)
  case Nil
  then show ?case by (simp add: usable_entries_def)
next
  case (Cons r mm)
  then have "mm_ok mm" by (auto simp: mm_ok_def usable_entries_Cons split: if_splits)
  moreover have "me_type r = USABLE \<Longrightarrow> me_base r + me_length r < 2 ^ 64"
    using Cons.prems by (auto simp: mm_ok_def usable_entries_Cons)
  ultimately show ?case
    using Cons.IH by (auto simp: usable_entries_Cons u64_add_def max_def)
qed

lemma region_below_top:
  assumes "r \<in> set (usable_entries mm)"
  shows "(me_base r + me_length r) div FRAME_SIZE \<le> div_ceil (usable_top mm) FRAME_SIZE"
proof -
  have "me_base r + me_length r \<le> usable_top mm"
    unfolding usable_top_def using assms by (rule fold_max_mem)
  then have "(me_base r + me_length r) div FRAME_SIZE \<le> usable_top mm div FRAME_SIZE"
    by (rule div_le_mono)
  then show ?thesis by (simp add: div_ceil_def)
qed

lemma bm_clear_bit_init_Ok:
  assumes "bm_shape a" "i < total_frames a"
  obtains a' where "bm_clear_bit_init i a = (Ok (), a')" "bm_shape a'"
    "total_frames a' = total_frames a" "to_allocate a' = to_allocate a"
    "bm_clear_set a' = insert i (bm_clear_set a)" "free_frames a' = free_frames a + 1"
proof -
  define a' where "a' = a\<lparr>bitmap := (bitmap a)[i div 64 := bitmap a ! (i div 64) AND NOT (push_bit (i mod 64) 1)],
      free_frames := free_frames a + 1\<rparr>"
  have "bm_bit a' j = (j \<noteq> i \<and> bm_bit a j)" for j
    by (rule bm_clear_word [OF assms]) (simp add: a'_def)
  then have "bm_clear_set a' = insert i (bm_clear_set a)"
    using assms(2) by (auto simp: bm_clear_set_def a'_def)
  then show ?thesis
    using assms bm_clear_bit_init_eq [OF assms] by (intro that [of a']) (simp_all add: a'_def bm_shape_def)
qed

lemma bm_clear_all:
  assumes "bm_shape a" "\<forall>i \<in> set is. i < total_frames a"
  obtains a' where "for_each is bm_clear_bit_init a = (Ok (), a')" "bm_shape a'"
    "total_frames a' = total_frames a" "to_allocate a' = to_allocate a"
    "bm_clear_set a' = bm_clear_set a \<union> set is" "free_frames a' = free_frames a + length is"
proof -
  have "\<exists>a'. for_each is bm_clear_bit_init a = (Ok (), a') \<and> bm_shape a'
      \<and> total_frames a' = total_frames a \<and> to_allocate a' = to_allocate a
      \<and> bm_clear_set a' = bm_clear_set a \<union> set is \<and> free_frames a' = free_frames a + length is"
    using assms
  proof (induction "is" arbitrary: a)
    case Nil
    then show ?case by (simp add: ret_def)
  next
    case (Cons i "is")
    have i: "i < total_frames a" using Cons.prems(2) by simp
    with Cons.prems(1) obtain a1 where a1: "bm_clear_bit_init i a = (Ok (), a1)" "bm_shape a1"
      "total_frames a1 = total_frames a" "to_allocate a1 = to_allocate a"
      "bm_clear_set a1 = insert i (bm_clear_set a)" "free_frames a1 = free_frames a + 1"
      by (rule bm_clear_bit_init_Ok)
    have "\<forall>i \<in> set is. i < total_frames a1" using Cons.prems(2) a1(3) by simp
    from Cons.IH [OF a1(2) this] obtain a' where "for_each is bm_clear_bit_init a1 = (Ok (), a')" "bm_shape a'"
      "total_frames a' = total_frames a1" "to_allocate a' = to_allocate a1"
      "bm_clear_set a' = bm_clear_set a1 \<union> set is" "free_frames a' = free_frames a1 + length is"
      by blast
    then show ?case using a1 by (auto simp: bnd_def)
  qed
  then show ?thesis using that by blast
qed

lemma bm_init_entries:
  assumes "bm_shape a" "mm_ok mm"
    "\<forall>r \<in> set (usable_entries mm). (me_base r + me_length r) div FRAME_SIZE \<le> total_frames a"
  obtains a' where "for_each mm bm_init_entry a = (Ok (), a')" "bm_shape a'"
    "total_frames a' = total_frames a" "to_allocate a' = to_allocate a"
    "bm_clear_set a' = bm_clear_set a \<union> usable_frame_set mm"
    "free_frames a' = free_frames a + sum_list (map region_credit (usable_entries mm))"
proof -
  have "\<exists>a'. for_each mm bm_init_entry a = (Ok (), a') \<and> bm_shape a'
      \<and> total_frames a' = total_frames a \<and> to_allocate a' = to_allocate a
      \<and> bm_clear_set a' = bm_clear_set a \<union> usable_frame_set mm
      \<and> free_frames a' = free_frames a + sum_list (map region_credit (usable_entries mm))"
    using assms
  proof (induction mm arbitrary: a)
    case Nil
    then show ?case by (simp add: ret_def usable_frame_set_def usable_entries_def)
  next
    case (Cons r mm)
    have mm: "mm_ok mm" using Cons.prems(2) by (auto simp: mm_ok_def usable_entries_Cons split: if_splits)
    show ?case
    proof (cases "me_type r = USABLE")
      case False
      then show ?thesis using Cons mm
        by (auto simp: bm_init_entry_def usable_frame_set_def usable_entries_Cons)
    next
      case True
      let ?is = "[me_base r div FRAME_SIZE ..< (me_base r + me_length r) div FRAME_SIZE]"
      have e: "me_base r + me_length r < 2 ^ 64"
        using Cons.prems(2) True by (simp add: mm_ok_def usable_entries_Cons)
      have "\<forall>i \<in> set ?is. i < total_frames a"
        using Cons.prems(3) True by (auto simp: usable_entries_Cons)
      with Cons.prems(1) obtain a1 where a1: "for_each ?is bm_clear_bit_init a = (Ok (), a1)" "bm_shape a1"
        "total_frames a1 = total_frames a" "to_allocate a1 = to_allocate a"
        "bm_clear_set a1 = bm_clear_set a \<union> set ?is" "free_frames a1 = free_frames a + length ?is"
        by (rule bm_clear_all)
      let ?a = "a1\<lparr>free_frames := free_frames a1 + div_ceil (me_length r) FRAME_SIZE\<rparr>"
      have "bm_free_region (me_base r) (me_length r) a = (Ok (), a1)"
        using e a1(1) by (simp add: bm_free_region_def bnd_def lift_res_def u64_add_def)
      then have step: "bm_init_entry r a = (Ok (), ?a)"
        using True by (simp add: bm_init_entry_def bnd_def modify_st_def)
      have same: "bm_clear_set ?a = bm_clear_set a1" "bm_shape ?a = bm_shape a1"
        by (auto simp: bm_clear_set_def bm_bit_def bm_shape_def)
      have "\<exists>a'. for_each mm bm_init_entry ?a = (Ok (), a') \<and> bm_shape a'
          \<and> total_frames a' = total_frames ?a \<and> to_allocate a' = to_allocate ?a
          \<and> bm_clear_set a' = bm_clear_set ?a \<union> usable_frame_set mm
          \<and> free_frames a' = free_frames ?a + sum_list (map region_credit (usable_entries mm))"
        using Cons.prems(3) a1 same by (intro Cons.IH mm) (auto simp: usable_entries_Cons True)
      then obtain a' where a': "for_each mm bm_init_entry ?a = (Ok (), a')" "bm_shape a'"
          "total_frames a' = total_frames ?a" "to_allocate a' = to_allocate ?a"
          "bm_clear_set a' = bm_clear_set ?a \<union> usable_frame_set mm"
          "free_frames a' = free_frames ?a + sum_list (map region_credit (usable_entries mm))"
        by blast
      show ?thesis
        using a' a1 same step True
        by (auto simp: bnd_def usable_frame_set_def usable_entries_Cons region_frames_def region_credit_def [of r])
    qed
  qed
  then show ?thesis using that by blast
qed

lemma bm_mark_all:
  assumes "bm_shape a" "\<forall>f \<in> set fs. frame_no api f < total_frames a"
    "length fs \<le> free_frames a"
  obtains a' where "for_each fs (bm_mark_frame_used api) a = (Ok (), a')" "bm_shape a'"
    "total_frames a' = total_frames a" "to_allocate a' = to_allocate a"
    "bm_clear_set a' = bm_clear_set a - frame_no api ` set fs"
    "free_frames a' = free_frames a - length fs"
proof -
  have "\<exists>a'. for_each fs (bm_mark_frame_used api) a = (Ok (), a') \<and> bm_shape a'
      \<and> total_frames a' = total_frames a \<and> to_allocate a' = to_allocate a
      \<and> bm_clear_set a' = bm_clear_set a - frame_no api ` set fs
      \<and> free_frames a' = free_frames a - length fs"
    using assms
  proof (induction fs arbitrary: a)
    case Nil
    then show ?case by (simp add: ret_def)
  next
    case (Cons f fs)
    let ?i = "frame_no api f"
    have i: "?i < total_frames a" "0 < free_frames a" using Cons.prems by auto
    obtain a1 where a1: "bm_set_bit ?i a = (Ok (), a1)"
      using bm_set_bit_eq [OF Cons.prems(1) i] by blast
    then have m: "bm_mark_frame_used api f a = (Ok (), a1)"
      by (simp add: bm_mark_frame_used_def frame_no_def)
    note fr = bm_set_bit_frame [OF a1] and cl = bm_clear_set_set_bit [OF Cons.prems(1) a1]
    have "bm_shape a1" "\<forall>f \<in> set fs. frame_no api f < total_frames a1"
      "length fs \<le> free_frames a1"
      using Cons.prems fr by (auto simp: bm_shape_def)
    from Cons.IH [OF this] obtain a' where "for_each fs (bm_mark_frame_used api) a1 = (Ok (), a')"
      "bm_shape a'" "total_frames a' = total_frames a1" "to_allocate a' = to_allocate a1"
      "bm_clear_set a' = bm_clear_set a1 - frame_no api ` set fs"
      "free_frames a' = free_frames a1 - length fs"
      by blast
    then show ?case
      using m fr cl by (auto simp: bnd_def)
  qed
  then show ?thesis using that by blast
qed

lemma bm_empty_props:
  "total_frames (bm_empty t n) = div_ceil t FRAME_SIZE" "to_allocate (bm_empty t n) = n"
  "free_frames (bm_empty t n) = 0" "bm_shape (bm_empty t n)" "bm_clear_set (bm_empty t n) = {}"
proof -
  let ?n = "div_ceil t FRAME_SIZE"
  show "total_frames (bm_empty t n) = ?n" "to_allocate (bm_empty t n) = n" "free_frames (bm_empty t n) = 0"
    by (simp_all add: bm_empty_def Let_def)
  have "?n \<le> div_ceil ?n 64 * 64" by (rule div_ceil_bounds) simp
  then show sh: "bm_shape (bm_empty t n)"
    by (simp add: bm_shape_def bm_empty_def Let_def BITMAP_ENTRY_SIZE_def mult.commute)
  have full: "FULL_BITMAP_ENTRY = - 1" by (simp add: FULL_BITMAP_ENTRY_def)
  have "bm_bit (bm_empty t n) i" if "i < ?n" for i
    using bm_shape_index [OF sh, of i] that
    by (simp add: bm_bit_def bm_empty_def Let_def full)
  then show "bm_clear_set (bm_empty t n) = {}"
    by (auto simp: bm_clear_set_def bm_empty_def Let_def)
qed

text \<open>\<open>init\<close> as a whole.\<close>

lemma bm_init_result:
  assumes "mm_ok mm"
    and "\<forall>f \<in> set fs. frame_no api f < div_ceil (usable_top mm) FRAME_SIZE"
    and "length fs \<le> sum_list (map region_credit (usable_entries mm))"
  obtains a where "bm_init api mm fs = Ok a" "total_frames a = div_ceil (usable_top mm) FRAME_SIZE"
    "bm_clear_set a = usable_frame_set mm - frame_no api ` set fs"
    "free_frames a = sum_list (map region_credit (usable_entries mm)) - length fs"
    "to_allocate a = length fs" "bm_shape a"
proof -
  let ?e = "bm_empty (usable_top mm) (length fs)"
  have "\<forall>r \<in> set (usable_entries mm). (me_base r + me_length r) div FRAME_SIZE \<le> total_frames ?e"
    using region_below_top by (simp add: bm_empty_props)
  with bm_empty_props(4) assms(1) obtain a1 where a1: "for_each mm bm_init_entry ?e = (Ok (), a1)" "bm_shape a1"
    "total_frames a1 = total_frames ?e" "to_allocate a1 = to_allocate ?e"
    "bm_clear_set a1 = bm_clear_set ?e \<union> usable_frame_set mm"
    "free_frames a1 = free_frames ?e + sum_list (map region_credit (usable_entries mm))"
    by (rule bm_init_entries)
  have "\<forall>f \<in> set fs. frame_no api f < total_frames a1" "length fs \<le> free_frames a1"
    using assms(2,3) a1 by (simp_all add: bm_empty_props)
  with a1(2) obtain a2 where a2: "for_each fs (bm_mark_frame_used api) a1 = (Ok (), a2)" "bm_shape a2"
    "total_frames a2 = total_frames a1" "to_allocate a2 = to_allocate a1"
    "bm_clear_set a2 = bm_clear_set a1 - frame_no api ` set fs"
    "free_frames a2 = free_frames a1 - length fs"
    by (rule bm_mark_all)
  have "bm_true_end mm 0 = Ok (usable_top mm)"
    using bm_true_end_eq [OF assms(1), of 0] by (simp add: usable_top_def)
  then have "bm_init api mm fs = Ok a2"
    using a1(1) a2(1) by (simp add: bm_init_def bnd_def)
  then show ?thesis using a1 a2 by (intro that [of a2]) (simp_all add: bm_empty_props)
qed

section \<open>Properties\<close>

text \<open>A small allocator for the witnesses: two frames, the first one in use.\<close>

definition bm_sample :: bitmap_alloc where
  "bm_sample = \<lparr>total_frames = 2, free_frames = 1, to_allocate = 0, bitmap = [1],
    allocate_count = 1, free_count = 0\<rparr>"

lemma bm_sample_clear: "bm_clear_set bm_sample = {1}"
proof -
  have "bm_bit bm_sample 0" "\<not> bm_bit bm_sample 1"
    by (simp_all add: bm_bit_def bm_sample_def)
  then show ?thesis
    by (auto simp: bm_clear_set_def bm_sample_def less_2_cases_iff)
qed

lemma bm_sample_inv: "bm_inv bm_sample"
  unfolding bm_inv_def bm_sample_clear by (simp add: bm_shape_def bm_sample_def FRAME_SIZE_def)

lemma bm_sample_fields [simp]:
  "total_frames bm_sample = 2" "free_frames bm_sample = 1" "to_allocate bm_sample = 0"
  by (simp_all add: bm_sample_def)



text \<open>C16: Outside the early return, \<open>allocate_frame\<close> fails to return exactly when every frame is in
  use: it then searches forever instead of reporting that no frame is available.\<close>

theorem bm_allocate_diverges_iff:
  assumes "phys_frames api" "bm_inv a" "free_frames a \<noteq> total_frames a"
  shows "bm_allocate_frame api a = None \<longleftrightarrow> bm_clear_set a = {}"
proof
  assume n: "bm_allocate_frame api a = None"
  show "bm_clear_set a = {}"
  proof (rule ccontr)
    assume "bm_clear_set a \<noteq> {}"
    with assms obtain f a' where "bm_allocate_frame api a = Some (Ok (Some f), a')"
      by (rule bm_allocate_finds)
    with n show False by simp
  qed
next
  assume "bm_clear_set a = {}"
  then show "bm_allocate_frame api a = None"
    using assms(2,3) bm_search_diverges [of a api] by (simp add: bm_allocate_frame_def bm_inv_def)
qed

definition bm_sample_full :: bitmap_alloc where
  "bm_sample_full = \<lparr>total_frames = 1, free_frames = 0, to_allocate = 0, bitmap = [1],
    allocate_count = 1, free_count = 0\<rparr>"

theorem bm_allocate_diverges_witness:
  "phys_frames numbered_frames \<and> bm_inv bm_sample_full
   \<and> free_frames bm_sample_full \<noteq> total_frames bm_sample_full
   \<and> bm_allocate_frame numbered_frames bm_sample_full = None"
proof -
  have "bm_bit bm_sample_full 0" by (simp add: bm_bit_def bm_sample_full_def)
  then have c: "bm_clear_set bm_sample_full = {}"
    by (auto simp: bm_clear_set_def bm_sample_full_def intro!: gr0I)
  have h: "phys_frames numbered_frames" "bm_inv bm_sample_full"
    "free_frames bm_sample_full \<noteq> total_frames bm_sample_full"
    using numbered.phys_frames_axioms unfolding bm_inv_def c
    by (simp_all add: bm_shape_def bm_sample_full_def FRAME_SIZE_def)
  with bm_allocate_diverges_iff [OF h] c show ?thesis by blast
qed

text \<open>C20: Deallocating a frame of the managed range succeeds unless the 64-bit word that holds its
  bit is 0; it then frees exactly that frame, and the count of free frames grows by one even when
  the frame was free already.\<close>

theorem bm_deallocate_frees:
  assumes "bm_inv a" "frame_no api f < total_frames a" "bitmap a ! (frame_no api f div 64) \<noteq> 0"
  shows "\<exists>a'. bm_deallocate_frame api f a = (Ok (), a')
    \<and> bm_clear_set a' = insert (frame_no api f) (bm_clear_set a)
    \<and> free_frames a' = free_frames a + 1 \<and> to_allocate a' = to_allocate a \<and> bm_inv a'"
proof -
  let ?a = "a\<lparr>free_count := free_count a + 1\<rparr>"
  have "bm_shape ?a" "frame_no api f < total_frames ?a" using assms by (simp_all add: bm_inv_def)
  then obtain a' where d: "bm_deallocate_frame api f a = (Ok (), a')"
    using assms(3) by (simp add: bm_deallocate_frame_def bm_mark_frame_free_def bm_clear_bit_eq frame_no_def)
  then show ?thesis
    using bm_deallocate_Ok [OF assms(1) d] by (auto simp: frame_no_def)
qed

theorem bm_deallocate_frees_witness:
  "bm_inv bm_sample \<and> frame_no numbered_frames 0 < total_frames bm_sample
   \<and> bitmap bm_sample ! (frame_no numbered_frames 0 div 64) \<noteq> 0
   \<and> (\<exists>a'. bm_deallocate_frame numbered_frames 0 bm_sample = (Ok (), a') \<and> bm_clear_set a' = {0, 1})"
proof -
  have h: "bm_inv bm_sample" "frame_no numbered_frames 0 < total_frames bm_sample"
    "bitmap bm_sample ! (frame_no numbered_frames 0 div 64) \<noteq> 0"
    by (simp_all add: bm_sample_inv frame_no_def numbered_frames_def) (simp add: bm_sample_def)
  have "frame_no numbered_frames 0 = 0" by (simp add: frame_no_def numbered_frames_def)
  with h bm_deallocate_frees [OF h] show ?thesis unfolding bm_sample_clear by auto
qed

text \<open>C21: \<open>init\<close> builds a bitmap over all frames below the top of usable memory in which exactly
  the frames of usable regions other than the initial ones are free.  Its count of free frames
  credits each region twice, once per cleared bit and once per page of the region's length.\<close>

theorem bm_init_frees_usable:
  assumes "mm_ok mm" "\<forall>f \<in> set fs. frame_no api f < div_ceil (usable_top mm) FRAME_SIZE"
    and "length fs \<le> sum_list (map region_credit (usable_entries mm))"
  shows "\<exists>a. bm_init api mm fs = Ok a \<and> total_frames a = div_ceil (usable_top mm) FRAME_SIZE
    \<and> bm_clear_set a = usable_frame_set mm - frame_no api ` set fs
    \<and> free_frames a = sum_list (map region_credit (usable_entries mm)) - length fs
    \<and> to_allocate a = length fs \<and> bm_shape a"
proof -
  obtain a where "bm_init api mm fs = Ok a" "total_frames a = div_ceil (usable_top mm) FRAME_SIZE"
    "bm_clear_set a = usable_frame_set mm - frame_no api ` set fs"
    "free_frames a = sum_list (map region_credit (usable_entries mm)) - length fs"
    "to_allocate a = length fs" "bm_shape a"
    using assms by (rule bm_init_result)
  then show ?thesis by (intro exI [of _ a] conjI)
qed

definition mm_sample :: "mem_entry list" where
  "mm_sample = [\<lparr>me_base = 0, me_length = 12288, me_type = USABLE\<rparr>]"

theorem bm_init_frees_usable_witness:
  "mm_ok mm_sample \<and> frame_no numbered_frames 0 < div_ceil (usable_top mm_sample) FRAME_SIZE
   \<and> (\<exists>a. bm_init numbered_frames mm_sample [0] = Ok a \<and> total_frames a = 3 \<and> free_frames a = 5)"
proof -
  have h: "mm_ok mm_sample" "\<forall>f \<in> set [0]. frame_no numbered_frames f < div_ceil (usable_top mm_sample) FRAME_SIZE"
    "length [0 :: nat] \<le> sum_list (map region_credit (usable_entries mm_sample))"
    "div_ceil (usable_top mm_sample) FRAME_SIZE = 3"
    "sum_list (map region_credit (usable_entries mm_sample)) - length [0 :: nat] = 5"
    by (simp_all add: mm_ok_def mm_sample_def frame_no_def numbered_frames_def usable_top_def
        usable_entries_def div_ceil_def FRAME_SIZE_def region_credit_def)
  show ?thesis using h(1,2,4,5) bm_init_frees_usable [OF h(1-3)] by auto
qed

end
