(* ===== verification/Frame_Boot.thy ===== *)
theory Frame_Boot
  imports Frame_Bitmap
begin

text \<open>
  The boot frame allocator (\<open>memory/boot_frame_allocator.rs\<close>), which walks the bootloader's
  memory map with a counter and never frees.  The iterator chain of \<open>usable_frames\<close> is lazy:
  an element whose computation panics does so only when the walk reaches it, so the chain is a
  list of options in which \<open>None\<close> is such an element.
\<close>

section \<open>The struct and its methods\<close>

record 'f boot_alloc =
  memory_map :: "mem_entry list"
  next_idx :: nat
  first_frame :: "'f option"
  last_frame :: "'f option"
  allocated_count :: nat
  kernel_start :: nat
  kernel_end :: nat

text \<open>\<open>init\<close> reads the two bootloader responses (\<open>None\<close>: the request failed; the second is the
  physical and the virtual base of the kernel) and the linker symbol \<open>_kernel_end\<close>.\<close>

definition boot_init ::
  "mem_entry list option \<Rightarrow> (nat \<times> nat) option \<Rightarrow> nat \<Rightarrow> (unit, 'f boot_alloc) res" where
  "boot_init map_response kernel_address_response kernel_end_symbol =
    (case map_response of None \<Rightarrow> Panic
     | Some mm \<Rightarrow> (case kernel_address_response of None \<Rightarrow> Panic
       | Some (physical_base, virtual_base) \<Rightarrow>
           (case u64_sub kernel_end_symbol virtual_base of
              Ok k_size \<Rightarrow> (case u64_add k_size physical_base of
                  Ok k_end \<Rightarrow> Ok \<lparr>memory_map = mm, next_idx = 0, first_frame = None, last_frame = None,
                      allocated_count = 0, kernel_start = physical_base, kernel_end = k_end\<rparr>
                | Err e \<Rightarrow> Err e
                | Panic \<Rightarrow> Panic)
            | Err e \<Rightarrow> Err e
            | Panic \<Rightarrow> Panic)))"

definition region_addrs :: "mem_entry \<Rightarrow> nat option list" where
  "region_addrs r =
    (case (u64_add (me_base r) (me_length r) :: (unit, nat) res) of
       Ok _ \<Rightarrow> map (\<lambda>k. Some (me_base r + 4096 * k)) [0..<div_ceil (me_length r) 4096]
     | _ \<Rightarrow> [None])"

definition boot_addr_ok :: "'f boot_alloc \<Rightarrow> nat \<Rightarrow> bool" where
  "boot_addr_ok b addr \<longleftrightarrow> addr < kernel_start b \<or> addr \<ge> kernel_end b
     \<or> addr < HEAP_START \<or> addr > (HEAP_START + HEAP_SIZE) mod 2 ^ 64"

definition boot_usable_frames :: "'f frame_api \<Rightarrow> 'f boot_alloc \<Rightarrow> 'f option list" where
  "boot_usable_frames api b =
    map (\<lambda>a. Option.bind a (frame_containing api))
      (filter (\<lambda>a. case a of None \<Rightarrow> True | Some addr \<Rightarrow> boot_addr_ok b addr)
        (concat (map region_addrs (usable_entries (memory_map b)))))"

text \<open>\<open>Iterator::nth\<close> on such a chain.\<close>

definition iter_nth :: "'a option list \<Rightarrow> nat \<Rightarrow> (unit, 'a option) res" where
  "iter_nth xs n = (if None \<in> set (take (Suc n) xs) then Panic
     else if n < length xs then Ok (xs ! n) else Ok None)"

definition boot_allocate_frame ::
  "'f frame_api \<Rightarrow> 'f boot_alloc \<Rightarrow> (unit, 'f option) res \<times> 'f boot_alloc" where
  "boot_allocate_frame api b =
    (case iter_nth (boot_usable_frames api b) (next_idx b) of
       Ok None \<Rightarrow> (Ok None, b)
     | Ok (Some frame) \<Rightarrow>
         (let b1 = b\<lparr>next_idx := next_idx b + 1\<rparr>
          in if \<not> allocated_count b1 < MAX_ALLOCATED_FRAMES then (Panic, b1)
          else (Ok (Some frame),
                b1\<lparr>first_frame := (if first_frame b1 = None then Some frame else first_frame b1),
                   last_frame := Some frame,
                   allocated_count := allocated_count b1 + 1\<rparr>))
     | Err e \<Rightarrow> (Err e, b)
     | Panic \<Rightarrow> (Panic, b))"

definition boot_deallocate_frame :: "'f \<Rightarrow> ('f boot_alloc, unit, unit) prog" where
  "boot_deallocate_frame frame b = (Panic, b)"

text \<open>\<open>allocated_frames\<close>, collected: the frames that follow the first one, as many as were
  allocated.\<close>

fun collect_frames :: "'a option list \<Rightarrow> (unit, 'a list) res" where
  "collect_frames [] = Ok []"
| "collect_frames (None # xs) = Panic"
| "collect_frames (Some x # xs) =
    (case collect_frames xs of Ok ys \<Rightarrow> Ok (x # ys) | Err e \<Rightarrow> Err e | Panic \<Rightarrow> Panic)"

definition boot_allocated_frames :: "'f frame_api \<Rightarrow> 'f boot_alloc \<Rightarrow> (unit, 'f list) res" where
  "boot_allocated_frames api b =
    (case first_frame b of
       None \<Rightarrow> Panic
     | Some f \<Rightarrow> let start_addr = frame_start api f
         in collect_frames (map (\<lambda>i. frame_containing api (start_addr + i * FRAME_SIZE))
              [0..<allocated_count b]))"

section \<open>What the allocator hands out\<close>

text \<open>The bootloader's guarantee for usable entries: page-aligned, sorted by base, disjoint, and
  below the 52-bit physical address limit.\<close>

definition limine_map :: "mem_entry list \<Rightarrow> bool" where
  "limine_map mm \<longleftrightarrow>
     (\<forall>r \<in> set (usable_entries mm). me_base r mod 4096 = 0 \<and> me_length r mod 4096 = 0
        \<and> 0 < me_length r \<and> me_base r + me_length r \<le> 2 ^ 52)
     \<and> sorted_wrt (\<lambda>r s. me_base r + me_length r \<le> me_base s) (usable_entries mm)"

text \<open>The page numbers of the usable regions, in the order of the map.\<close>

definition region_pages :: "mem_entry \<Rightarrow> nat list" where
  "region_pages r = [me_base r div 4096 ..< (me_base r + me_length r) div 4096]"

definition usable_pages :: "mem_entry list \<Rightarrow> nat list" where
  "usable_pages mm = concat (map region_pages (usable_entries mm))"

definition boot_used :: "'f frame_api \<Rightarrow> 'f boot_alloc \<Rightarrow> 'f set" where
  "boot_used api b = {f. Some f \<in> set (take (next_idx b) (boot_usable_frames api b))}"

definition boot_inv :: "'f frame_api \<Rightarrow> 'f boot_alloc \<Rightarrow> bool" where
  "boot_inv api b \<longleftrightarrow> distinct (boot_usable_frames api b) \<and> allocated_count b = next_idx b
     \<and> next_idx b \<le> length (boot_usable_frames api b)
     \<and> first_frame b = (if next_idx b = 0 then None else boot_usable_frames api b ! 0)
     \<and> last_frame b = (if next_idx b = 0 then None else boot_usable_frames api b ! (next_idx b - 1))
     \<and> None \<notin> set (take (next_idx b) (boot_usable_frames api b))"

lemma boot_usable_frames_cong [simp]:
  "boot_usable_frames api (b\<lparr>next_idx := n, first_frame := ff, last_frame := lf, allocated_count := c\<rparr>)
     = boot_usable_frames api b"
  by (simp add: boot_usable_frames_def boot_addr_ok_def cong: option.case_cong)

lemma boot_allocate_Ok:
  assumes "boot_allocate_frame api b = (Ok (Some f), b')"
  shows "next_idx b < length (boot_usable_frames api b)"
    "boot_usable_frames api b ! next_idx b = Some f"
    "None \<notin> set (take (Suc (next_idx b)) (boot_usable_frames api b))"
    "b' = b\<lparr>next_idx := next_idx b + 1,
            first_frame := (if first_frame b = None then Some f else first_frame b),
            last_frame := Some f, allocated_count := allocated_count b + 1\<rparr>"
  using assms by (auto simp: boot_allocate_frame_def iter_nth_def Let_def split: if_splits option.splits)

lemma boot_allocate_None:
  assumes "boot_allocate_frame api b = (Ok None, b')"
  shows "b' = b"
  using assms by (auto simp: boot_allocate_frame_def iter_nth_def Let_def split: if_splits option.splits)

lemma boot_inv_allocate:
  assumes inv: "boot_inv api b" and al: "boot_allocate_frame api b = (Ok (Some f), b')"
  shows "boot_inv api b'" "f \<notin> boot_used api b" "boot_used api b' = insert f (boot_used api b)"
proof -
  let ?u = "boot_usable_frames api b" and ?n = "next_idx b"
  note a = boot_allocate_Ok [OF al]
  have u': "boot_usable_frames api b' = ?u" by (simp add: a(4))
  have tk: "take (Suc ?n) ?u = take ?n ?u @ [Some f]"
    using a(1,2) by (simp add: take_Suc_conv_app_nth)
  have d: "distinct ?u" using inv by (simp add: boot_inv_def)
  have "distinct (take (Suc ?n) ?u)" using d by simp
  then have "Some f \<notin> set (take ?n ?u)" by (simp add: tk)
  then show "f \<notin> boot_used api b" by (simp add: boot_used_def)
  show "boot_used api b' = insert f (boot_used api b)"
    using tk u' a(4) by (auto simp: boot_used_def)
  have ff: "?n = 0 \<Longrightarrow> ?u ! 0 = Some f" using a(2) by simp
  have hd: "?n \<noteq> 0 \<Longrightarrow> ?u ! 0 \<noteq> None"
  proof -
    assume "?n \<noteq> 0"
    then have "?u ! 0 \<in> set (take ?n ?u)" using a(1) by (auto simp: in_set_conv_nth)
    moreover have "None \<notin> set (take ?n ?u)" using inv by (simp add: boot_inv_def)
    ultimately show ?thesis by metis
  qed
  show "boot_inv api b'"
    using inv a(1,2,3) ff hd unfolding boot_inv_def u' by (simp add: a(4))
qed

text \<open>The boot allocator meets the contract: it hands out each frame of the map once, and a
  deallocation never returns normally.\<close>

interpretation boot: frame_source "\<lambda>b. Some (boot_allocate_frame api b)" boot_deallocate_frame
  "boot_used api" "boot_inv api" for api :: "'f frame_api"
proof unfold_locales
  fix a a' :: "'f boot_alloc" and f r
  assume inv: "boot_inv api a"
  show "f \<notin> boot_used api a \<and> boot_used api a' = insert f (boot_used api a)"
    if "Some (boot_allocate_frame api a) = Some (Ok (Some f), a')"
    using boot_inv_allocate [OF inv, of f a'] that by simp
  show "boot_inv api a'" if "Some (boot_allocate_frame api a) = Some (Ok r, a')"
    using boot_inv_allocate [OF inv, of _ a'] boot_allocate_None [of api a a'] inv that by (cases r) auto
  show "boot_used api a' = boot_used api a" if "Some (boot_allocate_frame api a) = Some (Ok None, a')"
    using boot_allocate_None [of api a a'] that by simp
  show "boot_used api a' = boot_used api a - {f} \<and> boot_inv api a'"
    if "boot_deallocate_frame f a = (Ok (), a')"
    using that by (simp add: boot_deallocate_frame_def)
qed

subsection \<open>The frames of a well-formed memory map\<close>

text \<open>No physical address below the crate's 52-bit limit is at or above \<open>HEAP_START\<close>, a virtual
  address, so the third disjunct of the filter accepts every one of them.\<close>

lemma boot_addr_ok_physical: "addr < 2 ^ 52 \<Longrightarrow> boot_addr_ok b addr"
  by (simp add: boot_addr_ok_def HEAP_START_def)

lemma region_addrs_aligned:
  assumes "me_base r mod 4096 = 0" "me_length r mod 4096 = 0" "me_base r + me_length r \<le> 2 ^ 52"
  shows "region_addrs r = map (\<lambda>p. Some (p * 4096)) (region_pages r)"
proof -
  obtain b where b: "me_base r = 4096 * b" using mod_0_imp_dvd [OF assms(1)] by (rule dvdE)
  obtain l where l: "me_length r = 4096 * l" using mod_0_imp_dvd [OF assms(2)] by (rule dvdE)
  have n: "div_ceil (me_length r) 4096 = l" by (simp add: l div_ceil_def)
  have "u64_add (me_base r) (me_length r) = (Ok (me_base r + me_length r) :: (unit, nat) res)"
    using assms(3) by (simp add: u64_add_def)
  then have "region_addrs r = map (\<lambda>k. Some (me_base r + 4096 * k)) [0..<l]"
    by (simp add: region_addrs_def n)
  also have "\<dots> = map (\<lambda>p. Some (p * 4096)) (map (\<lambda>k. k + b) [0..<l])"
    by (simp add: b algebra_simps)
  also have "map (\<lambda>k. k + b) [0..<l] = [b..<l + b]" by (simp add: map_add_upt)
  also have "[b..<l + b] = region_pages r"
  proof -
    have "me_base r + me_length r = 4096 * (l + b)" by (simp add: b l)
    then show ?thesis by (simp add: region_pages_def b add.commute [of b l])
  qed
  finally show ?thesis .
qed

lemma region_pages_bound:
  assumes "limine_map mm" "p \<in> set (usable_pages mm)"
  shows "p * 4096 < 2 ^ 52"
proof -
  obtain r where r: "r \<in> set (usable_entries mm)" "p < (me_base r + me_length r) div 4096"
    using assms(2) by (auto simp: usable_pages_def region_pages_def)
  have "p * 4096 < (me_base r + me_length r) div 4096 * 4096" using r(2) by simp
  also have "\<dots> \<le> me_base r + me_length r" by simp
  also have "\<dots> \<le> 2 ^ 52" using assms(1) r(1) by (simp add: limine_map_def)
  finally show ?thesis .
qed

lemma boot_usable_frames_eq:
  assumes "limine_map (memory_map b)"
  shows "boot_usable_frames api b = map (\<lambda>p. frame_containing api (p * 4096)) (usable_pages (memory_map b))"
proof -
  let ?es = "usable_entries (memory_map b)"
  have "map region_addrs ?es = map (\<lambda>r. map (\<lambda>p. Some (p * 4096)) (region_pages r)) ?es"
    using assms by (intro map_cong refl region_addrs_aligned) (auto simp: limine_map_def)
  then have addrs: "concat (map region_addrs ?es) = map (\<lambda>p. Some (p * 4096)) (usable_pages (memory_map b))"
    unfolding usable_pages_def map_concat map_map o_def by (rule arg_cong)
  have "filter (\<lambda>a. case a of None \<Rightarrow> True | Some addr \<Rightarrow> boot_addr_ok b addr)
      (map (\<lambda>p. Some (p * 4096)) (usable_pages (memory_map b)))
      = map (\<lambda>p. Some (p * 4096)) (usable_pages (memory_map b))"
    using region_pages_bound [OF assms] by (intro filter_True) (auto intro: boot_addr_ok_physical)
  then show ?thesis by (simp add: boot_usable_frames_def addrs)
qed

lemma usable_pages_sorted:
  assumes "limine_map mm"
  shows "sorted_wrt (<) (usable_pages mm)"
proof -
  have "sorted_wrt (<) (concat (map region_pages es))"
    if "sorted_wrt (\<lambda>r s. me_base r + me_length r \<le> me_base s) es" for es
    using that
  proof (induction es)
    case (Cons r es)
    have "p < q" if p: "p \<in> set (region_pages r)" and q: "q \<in> set (concat (map region_pages es))" for p q
    proof -
      obtain s where s: "s \<in> set es" "me_base s div 4096 \<le> q"
        using q by (auto simp: region_pages_def)
      have "p < (me_base r + me_length r) div 4096" using p by (simp add: region_pages_def)
      also have "\<dots> \<le> me_base s div 4096" using Cons.prems s(1) by (simp add: div_le_mono)
      finally show "p < q" using s(2) by simp
    qed
    moreover have "sorted_wrt (<) (region_pages r)" by (simp add: region_pages_def)
    ultimately show ?case using Cons by (auto simp: sorted_wrt_append)
  qed simp
  then show ?thesis using assms by (simp add: limine_map_def usable_pages_def)
qed

lemma usable_pages_distinct: "limine_map mm \<Longrightarrow> distinct (usable_pages mm)"
  using usable_pages_sorted strict_sorted_iff by blast

context phys_frames
begin

lemma page_frames:
  assumes "limine_map mm" "p \<in> set (usable_pages mm)"
  obtains f where "frame_containing api (p * 4096) = Some f" "frame_start api f = p * 4096"
  using containing_page [OF region_pages_bound [OF assms]] by blast

lemma boot_frames_distinct:
  assumes "limine_map (memory_map b)"
  shows "distinct (boot_usable_frames api b)" "None \<notin> set (boot_usable_frames api b)"
proof -
  let ?ps = "usable_pages (memory_map b)"
  have "inj_on (\<lambda>p. frame_containing api (p * 4096)) (set ?ps)"
  proof (rule inj_onI)
    fix p q
    assume p: "p \<in> set ?ps" and q: "q \<in> set ?ps"
      and eq: "frame_containing api (p * 4096) = frame_containing api (q * 4096)"
    obtain f where f: "frame_containing api (p * 4096) = Some f" "frame_start api f = p * 4096"
      using assms p by (rule page_frames)
    obtain g where "frame_containing api (q * 4096) = Some g" "frame_start api g = q * 4096"
      using assms q by (rule page_frames)
    with f eq show "p = q" by simp
  qed
  then show "distinct (boot_usable_frames api b)"
    using usable_pages_distinct [OF assms] by (simp add: boot_usable_frames_eq [OF assms] distinct_map)
  show "None \<notin> set (boot_usable_frames api b)"
  proof
    assume "None \<in> set (boot_usable_frames api b)"
    then obtain p where p: "p \<in> set ?ps" "frame_containing api (p * 4096) = None"
      by (auto simp: boot_usable_frames_eq [OF assms])
    with page_frames [OF assms p(1)] show False by simp
  qed
qed

text \<open>A fresh boot allocator satisfies the invariant.\<close>

lemma boot_inv_init:
  assumes "limine_map mm" "boot_init (Some mm) k e = Ok b"
  shows "boot_inv api b" "memory_map b = mm" "next_idx b = 0"
proof -
  show mm: "memory_map b = mm" and n: "next_idx b = 0"
    using assms(2) by (auto simp: boot_init_def split: option.splits res.splits)
  have "allocated_count b = 0" "first_frame b = None" "last_frame b = None"
    using assms(2) by (auto simp: boot_init_def split: option.splits res.splits)
  then show "boot_inv api b"
    using boot_frames_distinct [of b] assms(1) mm n by (simp add: boot_inv_def)
qed

text \<open>Under the invariant an allocation hands out the next usable page, until the map or the
  allocation limit is exhausted.\<close>

lemma boot_allocate_next:
  assumes "limine_map (memory_map b)" "boot_inv api b" "next_idx b < length (usable_pages (memory_map b))"
    and "next_idx b < MAX_ALLOCATED_FRAMES"
  obtains f b' where "boot_allocate_frame api b = (Ok (Some f), b')"
    "frame_start api f = usable_pages (memory_map b) ! next_idx b * 4096"
    "boot_inv api b'" "next_idx b' = next_idx b + 1" "memory_map b' = memory_map b"
proof -
  let ?ps = "usable_pages (memory_map b)" and ?n = "next_idx b"
  have u: "boot_usable_frames api b = map (\<lambda>p. frame_containing api (p * 4096)) ?ps"
    by (rule boot_usable_frames_eq [OF assms(1)])
  have "?ps ! ?n \<in> set ?ps" using assms(3) by simp
  then obtain f where f: "frame_containing api (?ps ! ?n * 4096) = Some f" "frame_start api f = ?ps ! ?n * 4096"
    by (rule page_frames [OF assms(1)])
  have "None \<notin> set (take (Suc ?n) (boot_usable_frames api b))"
    using boot_frames_distinct(2) [OF assms(1)] by (auto dest: in_set_takeD)
  then have nth: "iter_nth (boot_usable_frames api b) ?n = Ok (Some f)"
    using assms(3) f(1) by (simp add: iter_nth_def u)
  have c: "allocated_count b < MAX_ALLOCATED_FRAMES" using assms(2,4) by (simp add: boot_inv_def)
  let ?b = "b\<lparr>next_idx := ?n + 1, first_frame := (if first_frame b = None then Some f else first_frame b),
      last_frame := Some f, allocated_count := allocated_count b + 1\<rparr>"
  have al: "boot_allocate_frame api b = (Ok (Some f), ?b)"
    using nth c by (simp add: boot_allocate_frame_def Let_def)
  show ?thesis
    by (rule that [OF al f(2) boot_inv_allocate(1) [OF assms(2) al]]) simp_all
qed

end

section \<open>Properties\<close>

definition boot_sample :: "nat boot_alloc" where
  "boot_sample = \<lparr>memory_map = mm_sample, next_idx = 0, first_frame = None, last_frame = None,
    allocated_count = 0, kernel_start = 0, kernel_end = 4096\<rparr>"

lemma mm_sample_map: "limine_map mm_sample" "usable_pages mm_sample = [0, 1, 2]"
  by (simp_all add: limine_map_def mm_sample_def usable_entries_def usable_pages_def region_pages_def upt_rec)

lemma boot_sample_init: "boot_init (Some mm_sample) (Some (0, 0)) 4096 = Ok boot_sample"
  by (simp add: boot_init_def boot_sample_def u64_sub_def u64_add_def)

lemma boot_sample_inv: "boot_inv numbered_frames boot_sample"
  by (rule numbered.boot_inv_init(1) [OF mm_sample_map(1) boot_sample_init])

definition mm_hole :: "mem_entry list" where
  "mm_hole = [\<lparr>me_base = 0, me_length = 4096, me_type = USABLE\<rparr>,
              \<lparr>me_base = 8192, me_length = 4096, me_type = USABLE\<rparr>]"

text \<open>C22: From \<open>init\<close> on, the boot allocator hands out the usable pages of the memory map one by one
  in the order of the map: with \<open>n\<close> frames handed out, the next call returns page \<open>n\<close>, until the map
  or the limit of \<open>MAX_ALLOCATED_FRAMES\<close> is exhausted, and the invariant is kept.\<close>

theorem boot_allocates_in_order:
  assumes "phys_frames api" "limine_map (memory_map b)" "boot_inv api b"
    and "next_idx b < length (usable_pages (memory_map b))" "next_idx b < MAX_ALLOCATED_FRAMES"
  shows "\<exists>f b'. boot_allocate_frame api b = (Ok (Some f), b')
    \<and> frame_start api f = usable_pages (memory_map b) ! next_idx b * 4096
    \<and> f \<notin> boot_used api b \<and> boot_used api b' = insert f (boot_used api b)
    \<and> boot_inv api b' \<and> next_idx b' = next_idx b + 1 \<and> memory_map b' = memory_map b"
proof -
  obtain f b' where r: "boot_allocate_frame api b = (Ok (Some f), b')"
    "frame_start api f = usable_pages (memory_map b) ! next_idx b * 4096"
    "boot_inv api b'" "next_idx b' = next_idx b + 1" "memory_map b' = memory_map b"
    using assms(2-5) by (rule phys_frames.boot_allocate_next [OF assms(1)])
  then show ?thesis using boot_inv_allocate(2,3) [OF assms(3) r(1)] by blast
qed

theorem boot_allocates_in_order_witness:
  "boot_init (Some mm_sample) (Some (0, 0)) 4096 = Ok boot_sample
   \<and> (\<exists>f b'. boot_allocate_frame numbered_frames boot_sample = (Ok (Some f), b')
        \<and> boot_inv numbered_frames b' \<and> next_idx b' = 1)"
proof -
  have h: "limine_map (memory_map boot_sample)" "next_idx boot_sample < length (usable_pages (memory_map boot_sample))"
    "next_idx boot_sample < MAX_ALLOCATED_FRAMES"
    using mm_sample_map by (simp_all add: boot_sample_def MAX_ALLOCATED_FRAMES_def)
  have "next_idx boot_sample = 0" by (simp add: boot_sample_def)
  then show ?thesis
    using boot_sample_init
      boot_allocates_in_order [OF numbered.phys_frames_axioms h(1) boot_sample_inv h(2,3)] by auto
qed

text \<open>The address filter of \<open>usable_frames\<close> excludes no physical address at all, so the pages of
  the kernel image inside a usable region are handed out like any other.\<close>

theorem boot_filter_excludes_nothing:
  assumes "addr < 2 ^ 52"
  shows "boot_addr_ok b addr"
  using assms by (rule boot_addr_ok_physical)

theorem boot_filter_excludes_nothing_witness:
  "kernel_start boot_sample \<le> 0 \<and> 0 < kernel_end boot_sample \<and> boot_addr_ok boot_sample 0"
  using boot_filter_excludes_nothing [of 0 boot_sample] by (simp add: boot_sample_def)

text \<open>\<open>allocated_frames\<close> reconstructs the handed-out frames from the first one and their number,
  so with a hole in the memory map it reports a frame that was never handed out and misses one that was:
  after two allocations over pages 0 and 2 it lists pages 0 and 1.\<close>

theorem boot_allocated_frames_hole:
  "\<exists>b0 b1 b2. boot_init (Some mm_hole) (Some (0, 0)) 0 = Ok b0 \<and> limine_map mm_hole
     \<and> boot_allocate_frame numbered_frames b0 = (Ok (Some 0), b1)
     \<and> boot_allocate_frame numbered_frames b1 = (Ok (Some 2), b2)
     \<and> boot_allocated_frames numbered_frames b2 = Ok [0, 1]"
proof -
  let ?b = "\<lambda>n ff lf. \<lparr>memory_map = mm_hole, next_idx = n, first_frame = ff, last_frame = lf,
    allocated_count = n, kernel_start = 0, kernel_end = 0\<rparr>"
  have mm: "limine_map mm_hole" "usable_pages mm_hole = [0, 2]"
    by (simp_all add: limine_map_def mm_hole_def usable_entries_def usable_pages_def region_pages_def upt_rec)
  have u: "boot_usable_frames numbered_frames (?b n ff lf) = [Some 0, Some 2]" for n ff lf
    using boot_usable_frames_eq [of "?b n ff lf"] mm by (simp add: numbered_frames_def)
  have "boot_init (Some mm_hole) (Some (0, 0)) 0 = Ok (?b 0 None None)"
    by (simp add: boot_init_def u64_sub_def u64_add_def)
  moreover have "boot_allocate_frame numbered_frames (?b 0 None None) = (Ok (Some 0), ?b 1 (Some 0) (Some 0))"
    by (simp add: boot_allocate_frame_def iter_nth_def u MAX_ALLOCATED_FRAMES_def)
  moreover have "boot_allocate_frame numbered_frames (?b 1 (Some 0) (Some 0))
      = (Ok (Some 2), ?b 2 (Some 0) (Some 2))"
    by (simp add: boot_allocate_frame_def iter_nth_def u MAX_ALLOCATED_FRAMES_def)
  moreover have "boot_allocated_frames numbered_frames (?b 2 (Some 0) (Some 2)) = Ok [0, 1]"
    by (simp add: boot_allocated_frames_def numbered_frames_def FRAME_SIZE_def upt_rec)
  ultimately show ?thesis using mm(1) by blast
qed

end
