(* ===== verification/Frame_Global.thy ===== *)
theory Frame_Global
  imports Frame_Boot
begin

text \<open>
  The global frame allocator (\<open>memory/frame_allocator.rs\<close>) and the switch from the boot allocator
  to the bitmap allocator (\<open>memory/heap.rs\<close>).  The state is the content of the mutex
  \<open>FRAME_ALLOCATOR\<close>; every access takes and releases the lock within one call, so a call is one
  atomic step.
\<close>

section \<open>The enum and its operations\<close>

datatype 'f global_alloc = Boot "'f boot_alloc" | Bitmap bitmap_alloc

definition global_allocate_frame ::
  "'f frame_api \<Rightarrow> 'f global_alloc \<Rightarrow> ((unit, 'f option) res \<times> 'f global_alloc) option" where
  "global_allocate_frame api g =
    (case g of
       Boot boot_alloc \<Rightarrow> (case boot_allocate_frame api boot_alloc of (r, b) \<Rightarrow> Some (r, Boot b))
     | Bitmap bitmap_alloc \<Rightarrow>
         map_option (\<lambda>(r, a). (r, Bitmap a)) (bm_allocate_frame api bitmap_alloc))"

definition global_deallocate_frame ::
  "'f frame_api \<Rightarrow> 'f \<Rightarrow> 'f global_alloc \<Rightarrow> (unit, unit) res \<times> 'f global_alloc" where
  "global_deallocate_frame api frame g =
    (case g of
       Boot boot_alloc \<Rightarrow> (case boot_deallocate_frame frame boot_alloc of (r, b) \<Rightarrow> (r, Boot b))
     | Bitmap bitmap_alloc \<Rightarrow>
         (case bm_deallocate_frame api frame bitmap_alloc of (r, a) \<Rightarrow> (r, Bitmap a)))"

text \<open>The three accessors run a closure under the lock.  A closure over the generic allocator may
  allocate, so it may fail to return.\<close>

definition with_bitmap_frame_allocator ::
  "(bitmap_alloc, unit, 'r) prog \<Rightarrow> ('f global_alloc option, unit, 'r) prog" where
  "with_bitmap_frame_allocator f guard =
    (case guard of
       Some (Bitmap a) \<Rightarrow> (case f a of (r, a') \<Rightarrow> (r, Some (Bitmap a')))
     | _ \<Rightarrow> (Panic, guard))"

definition with_boot_into_frame_allocator ::
  "('f boot_alloc, unit, 'r) prog \<Rightarrow> ('f global_alloc option, unit, 'r) prog" where
  "with_boot_into_frame_allocator f guard =
    (case guard of
       Some (Boot b) \<Rightarrow> (case f b of (r, b') \<Rightarrow> (r, Some (Boot b')))
     | _ \<Rightarrow> (Panic, guard))"

definition with_generic_allocator ::
  "('f global_alloc \<Rightarrow> ((unit, 'r) res \<times> 'f global_alloc) option)
    \<Rightarrow> 'f global_alloc option \<Rightarrow> ((unit, 'r) res \<times> 'f global_alloc option) option" where
  "with_generic_allocator f guard =
    (case guard of
       Some g \<Rightarrow> map_option (\<lambda>(r, g'). (r, Some g')) (f g)
     | None \<Rightarrow> Some (Panic, guard))"

definition alloc_frame ::
  "'f frame_api \<Rightarrow> 'f global_alloc option \<Rightarrow> ((unit, 'f option) res \<times> 'f global_alloc option) option" where
  "alloc_frame api = with_generic_allocator (global_allocate_frame api)"

definition dealloc_frame ::
  "'f frame_api \<Rightarrow> 'f \<Rightarrow> 'f global_alloc option \<Rightarrow> ((unit, unit) res \<times> 'f global_alloc option) option" where
  "dealloc_frame api frame = with_generic_allocator (\<lambda>g. Some (global_deallocate_frame api frame g))"

text \<open>\<open>heap::switch_allocator\<close>.\<close>

definition switch_allocator :: "'f frame_api \<Rightarrow> ('f global_alloc option, unit, unit) prog" where
  "switch_allocator api alloc =
    (case alloc of
       Some (Boot boot_alloc) \<Rightarrow>
         (case boot_allocated_frames api boot_alloc of
            Ok initial \<Rightarrow>
              (case bm_init api (memory_map boot_alloc) initial of
                 Ok a \<Rightarrow> (Ok (), Some (Bitmap a))
               | Err e \<Rightarrow> (Err e, alloc)
               | Panic \<Rightarrow> (Panic, alloc))
          | Err e \<Rightarrow> (Err e, alloc)
          | Panic \<Rightarrow> (Panic, alloc))
     | _ \<Rightarrow> (Panic, alloc))"

section \<open>The contract of the global allocator\<close>

definition global_used :: "'f frame_api \<Rightarrow> 'f global_alloc \<Rightarrow> 'f set" where
  "global_used api g = (case g of Boot b \<Rightarrow> boot_used api b | Bitmap a \<Rightarrow> bm_used api a)"

definition global_inv :: "'f frame_api \<Rightarrow> 'f global_alloc \<Rightarrow> bool" where
  "global_inv api g = (case g of Boot b \<Rightarrow> boot_inv api b | Bitmap a \<Rightarrow> bm_inv a)"

lemma global_allocate_Boot:
  "global_allocate_frame api (Boot b) = Some (r, g') \<longleftrightarrow>
     (\<exists>b'. boot_allocate_frame api b = (r, b') \<and> g' = Boot b')"
  by (cases "boot_allocate_frame api b") (auto simp: global_allocate_frame_def)

lemma global_allocate_Bitmap:
  "global_allocate_frame api (Bitmap a) = Some (r, g') \<longleftrightarrow>
     (\<exists>a'. bm_allocate_frame api a = Some (r, a') \<and> g' = Bitmap a')"
  by (auto simp: global_allocate_frame_def)

lemma global_deallocate_Boot: "global_deallocate_frame api f (Boot b) \<noteq> (Ok (), g')"
  by (simp add: global_deallocate_frame_def boot_deallocate_frame_def)

lemma global_deallocate_Bitmap:
  "global_deallocate_frame api f (Bitmap a) = (r, g') \<longleftrightarrow>
     (\<exists>a'. bm_deallocate_frame api f a = (r, a') \<and> g' = Bitmap a')"
  by (cases "bm_deallocate_frame api f a") (auto simp: global_deallocate_frame_def)

lemmas global_cases = global_allocate_Boot global_allocate_Bitmap global_deallocate_Boot
  global_deallocate_Bitmap global_used_def global_inv_def

sublocale phys_frames \<subseteq> glob: frame_source "global_allocate_frame api" "global_deallocate_frame api"
  "global_used api" "global_inv api"
proof unfold_locales
  fix g g' :: "'f global_alloc" and f r
  assume inv: "global_inv api g"
  show "f \<notin> global_used api g \<and> global_used api g' = insert f (global_used api g)"
    if al: "global_allocate_frame api g = Some (Ok (Some f), g')"
  proof (cases g)
    case (Boot b)
    then obtain b' where "boot_allocate_frame api b = (Ok (Some f), b')" "g' = Boot b'"
      using al unfolding Boot global_allocate_Boot by blast
    then show ?thesis using inv Boot boot.alloc_fresh [of api b f b'] by (simp add: global_cases)
  next
    case (Bitmap a)
    then obtain a' where "bm_allocate_frame api a = Some (Ok (Some f), a')" "g' = Bitmap a'"
      using al unfolding Bitmap global_allocate_Bitmap by blast
    then show ?thesis using inv Bitmap bm.alloc_fresh [of a f a'] by (simp add: global_cases)
  qed
  show "global_inv api g'" if al: "global_allocate_frame api g = Some (Ok r, g')"
  proof (cases g)
    case (Boot b)
    then obtain b' where "boot_allocate_frame api b = (Ok r, b')" "g' = Boot b'"
      using al unfolding Boot global_allocate_Boot by blast
    then show ?thesis using inv Boot boot.alloc_inv [of api b r b'] by (simp add: global_cases)
  next
    case (Bitmap a)
    then obtain a' where "bm_allocate_frame api a = Some (Ok r, a')" "g' = Bitmap a'"
      using al unfolding Bitmap global_allocate_Bitmap by blast
    then show ?thesis using inv Bitmap bm.alloc_inv [of a r a'] by (simp add: global_cases)
  qed
  show "global_used api g' = global_used api g" if al: "global_allocate_frame api g = Some (Ok None, g')"
  proof (cases g)
    case (Boot b)
    then obtain b' where "boot_allocate_frame api b = (Ok None, b')" "g' = Boot b'"
      using al unfolding Boot global_allocate_Boot by blast
    then show ?thesis using inv Boot boot.alloc_none [of api b b'] by (simp add: global_cases)
  next
    case (Bitmap a)
    then obtain a' where "bm_allocate_frame api a = Some (Ok None, a')" "g' = Bitmap a'"
      using al unfolding Bitmap global_allocate_Bitmap by blast
    then show ?thesis using inv Bitmap bm.alloc_none [of a a'] by (simp add: global_cases)
  qed
  show "global_used api g' = global_used api g - {f} \<and> global_inv api g'"
    if f: "f \<in> global_used api g" and de: "global_deallocate_frame api f g = (Ok (), g')"
  proof (cases g)
    case (Boot b)
    then show ?thesis using de by (simp add: global_deallocate_Boot)
  next
    case (Bitmap a)
    then obtain a' where "bm_deallocate_frame api f a = (Ok (), a')" "g' = Bitmap a'"
      using de unfolding Bitmap global_deallocate_Bitmap by blast
    then show ?thesis using inv f Bitmap bm.dealloc_used [of a f a'] by (simp add: global_cases)
  qed
qed

section \<open>The switch\<close>

lemma collect_frames_Some: "collect_frames (map Some xs) = Ok xs"
  by (induction xs) simp_all

lemma page_add_aligned: "a mod 4096 = 0 \<Longrightarrow> b mod 4096 = 0 \<Longrightarrow> (a + b) mod (4096 :: nat) = 0"
  using mod_add_eq [of a 4096 b] by simp

lemma fold_max_property:
  fixes f :: "'b \<Rightarrow> nat"
  assumes "P t" "\<forall>r \<in> set es. P (f r)"
  shows "P (fold (\<lambda>r t. max (f r) t) es t)"
  using assms
proof (induction es arbitrary: t)
  case (Cons e es)
  have "P (max (f e) t)" using Cons.prems by (simp add: max_def)
  then show ?case using Cons.IH [of "max (f e) t"] Cons.prems(2) by simp
qed simp

lemma usable_top_aligned:
  assumes "limine_map mm"
  shows "usable_top mm mod 4096 = 0" "usable_top mm \<le> 2 ^ 52"
proof -
  have r: "\<forall>r \<in> set (usable_entries mm). (me_base r + me_length r) mod 4096 = 0"
    "\<forall>r \<in> set (usable_entries mm). me_base r + me_length r \<le> 2 ^ 52"
    using assms by (simp_all add: limine_map_def page_add_aligned)
  show "usable_top mm mod 4096 = 0" unfolding usable_top_def
    by (rule fold_max_property [where P = "\<lambda>t. t mod 4096 = 0", OF _ r(1)]) simp
  show "usable_top mm \<le> 2 ^ 52" unfolding usable_top_def
    by (rule fold_max_property [where P = "\<lambda>t. t \<le> 2 ^ 52", OF _ r(2)]) simp
qed

lemma limine_map_total:
  assumes "limine_map mm"
  shows "div_ceil (usable_top mm) FRAME_SIZE * 4096 \<le> 2 ^ 52"
  using usable_top_aligned [OF assms] by (simp add: div_ceil_def FRAME_SIZE_def)

lemma usable_frame_set_pages: "usable_frame_set mm = set (usable_pages mm)"
  by (auto simp: usable_frame_set_def usable_pages_def region_frames_def region_pages_def FRAME_SIZE_def)

lemma usable_page_below_total:
  assumes "p \<in> set (usable_pages mm)"
  shows "p < div_ceil (usable_top mm) FRAME_SIZE"
proof -
  obtain r where "r \<in> set (usable_entries mm)" "p < (me_base r + me_length r) div FRAME_SIZE"
    using assms by (auto simp: usable_pages_def region_pages_def FRAME_SIZE_def)
  then show ?thesis using region_below_top by fastforce
qed

text \<open>For page-aligned regions \<open>init\<close> credits every page twice: once per cleared bit, once per
  region.\<close>

lemma region_credit_aligned:
  assumes "me_base r mod 4096 = 0" "me_length r mod 4096 = 0"
  shows "region_credit r = 2 * length (region_pages r)"
proof -
  obtain b where b: "me_base r = 4096 * b" using mod_0_imp_dvd [OF assms(1)] by (rule dvdE)
  obtain l where l: "me_length r = 4096 * l" using mod_0_imp_dvd [OF assms(2)] by (rule dvdE)
  have "me_base r + me_length r = 4096 * (b + l)" by (simp add: b l)
  then show ?thesis by (simp add: region_credit_def region_pages_def FRAME_SIZE_def div_ceil_def b l)
qed

lemma limine_credit:
  assumes "limine_map mm"
  shows "sum_list (map region_credit (usable_entries mm)) = 2 * length (usable_pages mm)"
proof -
  have "sum_list (map region_credit es) = 2 * length (concat (map region_pages es))"
    if "\<forall>r \<in> set es. me_base r mod 4096 = 0 \<and> me_length r mod 4096 = 0" for es
    using that by (induction es) (simp_all add: region_credit_aligned)
  then show ?thesis using assms by (simp add: limine_map_def usable_pages_def)
qed

lemma limine_mm_ok: "limine_map mm \<Longrightarrow> mm_ok mm"
  by (force simp: limine_map_def mm_ok_def)

lemma sorted_index_bound:
  assumes "sorted_wrt (<) (ps :: nat list)" "i < length ps"
  shows "i \<le> ps ! i"
  using assms(2)
proof (induction i)
  case (Suc i)
  then have "ps ! i < ps ! Suc i" using assms(1) by (simp add: sorted_wrt_nth_less)
  then show ?case using Suc by simp
qed simp

context phys_frames
begin

text \<open>\<open>allocated_frames\<close> lists the frames that were handed out when these are consecutive.\<close>

lemma boot_allocated_contiguous:
  assumes mm: "limine_map (memory_map b)" and inv: "boot_inv api b" and n: "0 < next_idx b"
    and run: "\<forall>i < next_idx b. usable_pages (memory_map b) ! i = usable_pages (memory_map b) ! 0 + i"
  obtains fs where "boot_allocated_frames api b = Ok fs" "length fs = next_idx b"
    "map Some fs = take (next_idx b) (boot_usable_frames api b)"
    "map (frame_no api) fs = take (next_idx b) (usable_pages (memory_map b))"
proof -
  let ?ps = "usable_pages (memory_map b)" and ?n = "next_idx b"
  have u: "boot_usable_frames api b = map (\<lambda>p. frame_containing api (p * 4096)) ?ps"
    by (rule boot_usable_frames_eq [OF mm])
  have len: "?n \<le> length ?ps" and cnt: "allocated_count b = ?n"
    and ff: "first_frame b = boot_usable_frames api b ! 0"
    using inv n u by (simp_all add: boot_inv_def)
  have fr: "\<exists>f. frame_containing api (p * 4096) = Some f \<and> frame_start api f = p * 4096"
    if "p \<in> set ?ps" for p
    using page_frames [OF mm that] by blast
  define fr_of where "fr_of p = the (frame_containing api (p * 4096))" for p
  have fr_of: "frame_containing api (p * 4096) = Some (fr_of p)" "frame_no api (fr_of p) = p"
    if "p \<in> set (take ?n ?ps)" for p
    using fr [OF in_set_takeD [OF that]] by (auto simp: fr_of_def frame_no_def FRAME_SIZE_def)
  define fs where "fs = map fr_of (take ?n ?ps)"
  have some: "map Some fs = take ?n (boot_usable_frames api b)"
    unfolding fs_def u take_map map_map o_def by (rule map_cong [OF refl], rule fr_of(1) [symmetric])
  have no: "map (frame_no api) fs = take ?n ?ps"
    unfolding fs_def map_map o_def by (rule map_idI, rule fr_of(2))
  obtain f0 where f0: "frame_containing api (?ps ! 0 * 4096) = Some f0" "frame_start api f0 = ?ps ! 0 * 4096"
    using fr [OF nth_mem [OF less_le_trans [OF n len]]] by blast
  have first: "first_frame b = Some f0" using ff f0(1) less_le_trans [OF n len] by (simp add: u)
  have "map (\<lambda>i. frame_containing api (?ps ! 0 * 4096 + i * 4096)) [0..<?n] = map Some fs"
  proof (rule nth_equalityI)
    show "length (map (\<lambda>i. frame_containing api (?ps ! 0 * 4096 + i * 4096)) [0..<?n]) = length (map Some fs)"
      using len by (simp add: fs_def)
    fix i assume "i < length (map (\<lambda>i. frame_containing api (?ps ! 0 * 4096 + i * 4096)) [0..<?n])"
    then have i: "i < ?n" by simp
    have "?ps ! 0 * 4096 + i * 4096 = ?ps ! i * 4096"
      unfolding run [rule_format, OF i] by (simp only: add_mult_distrib)
    then show "map (\<lambda>i. frame_containing api (?ps ! 0 * 4096 + i * 4096)) [0..<?n] ! i = map Some fs ! i"
      unfolding some using i len by (simp add: u)
  qed
  then have "boot_allocated_frames api b = Ok fs"
    by (simp add: boot_allocated_frames_def first cnt f0(2) FRAME_SIZE_def collect_frames_Some)
  moreover have "length fs = ?n" using len by (simp add: fs_def)
  ultimately show ?thesis using some no by (rule that)
qed

text \<open>The switch succeeds and its result keeps every frame of the boot allocator.\<close>

lemma switch_result:
  assumes mm: "limine_map (memory_map b)" and inv: "boot_inv api b" and n: "0 < next_idx b"
    and room: "next_idx b < length (usable_pages (memory_map b))"
    and run: "\<forall>i < next_idx b. usable_pages (memory_map b) ! i = usable_pages (memory_map b) ! 0 + i"
  obtains a where "switch_allocator api (Some (Boot b)) = (Ok (), Some (Bitmap a))" "bm_inv a"
    "bm_clear_set a = set (drop (next_idx b) (usable_pages (memory_map b)))"
    "free_frames a = 2 * length (usable_pages (memory_map b)) - next_idx b"
    "boot_used api b \<subseteq> bm_used api a"
proof -
  let ?ps = "usable_pages (memory_map b)" and ?n = "next_idx b" and ?mm = "memory_map b"
  obtain fs where fs: "boot_allocated_frames api b = Ok fs" "length fs = ?n"
    "map Some fs = take ?n (boot_usable_frames api b)" "map (frame_no api) fs = take ?n ?ps"
    using mm inv n run by (rule boot_allocated_contiguous)
  have img: "frame_no api ` set fs = set (take ?n ?ps)"
    using fs(4) by (metis list.set_map)
  have "\<forall>f \<in> set fs. frame_no api f < div_ceil (usable_top ?mm) FRAME_SIZE"
    using img usable_page_below_total by (force dest: in_set_takeD)
  moreover have "length fs \<le> sum_list (map region_credit (usable_entries ?mm))"
    using limine_credit [OF mm] fs(2) room by simp
  ultimately obtain a where a: "bm_init api ?mm fs = Ok a"
    "total_frames a = div_ceil (usable_top ?mm) FRAME_SIZE"
    "bm_clear_set a = usable_frame_set ?mm - frame_no api ` set fs"
    "free_frames a = sum_list (map region_credit (usable_entries ?mm)) - length fs"
    "to_allocate a = length fs" "bm_shape a"
    by (rule bm_init_result [OF limine_mm_ok [OF mm]])
  have d: "distinct ?ps" by (rule usable_pages_distinct [OF mm])
  have cl: "bm_clear_set a = set (drop ?n ?ps)"
    using set_take_disj_set_drop_if_distinct [OF d, of ?n ?n] set_append [of "take ?n ?ps" "drop ?n ?ps"]
    unfolding a(3) img usable_frame_set_pages by auto
  have ff: "free_frames a = 2 * length ?ps - ?n"
    using a(4) fs(2) limine_credit [OF mm] by simp
  have "card (bm_clear_set a) \<le> length ?ps" unfolding cl by (metis card_length diff_le_self le_trans length_drop)
  then have card: "card (bm_clear_set a) \<le> free_frames a" using ff room by simp
  have "?n < total_frames a"
    using sorted_index_bound [OF usable_pages_sorted [OF mm] room]
      usable_page_below_total [OF nth_mem [OF room]] a(2) by linarith
  then have bi: "bm_inv a"
    using a card fs(2) limine_map_total [OF mm] by (simp add: bm_inv_def FRAME_SIZE_def)
  have us: "boot_used api b \<subseteq> bm_used api a"
  proof
    fix f assume "f \<in> boot_used api b"
    then have "f \<in> set fs" unfolding boot_used_def fs(3) [symmetric] by auto
    then have "frame_no api f \<notin> bm_clear_set a" unfolding a(3) by blast
    then show "f \<in> bm_used api a" by (simp add: bm_used_def frame_no_def)
  qed
  have "switch_allocator api (Some (Boot b)) = (Ok (), Some (Bitmap a))"
    using fs(1) a(1) by (simp add: switch_allocator_def)
  then show ?thesis using bi cl ff us by (rule that)
qed

lemmas glob_fresh = glob.no_double_allocation

lemma switch_no_reuse:
  assumes "bm_inv a" "boot_used api b \<subseteq> bm_used api a"
    and "glob.client_step\<^sup>*\<^sup>* (Bitmap a, {}) (c, live)" "global_allocate_frame api c = Some (Ok (Some f), d)"
  shows "f \<notin> boot_used api b"
proof
  assume "f \<in> boot_used api b"
  then have "f \<in> global_used api (Bitmap a)" using assms(2) by (auto simp: global_used_def)
  moreover have ci: "glob.client_inv (Bitmap a, {})"
    using assms(1) by (simp add: glob.client_inv_def global_inv_def)
  ultimately have "f \<in> global_used api c"
    using glob.client_run_keeps_foreign [OF assms(3), of f] by simp
  moreover have "global_inv api c"
    using glob.client_run_inv [OF assms(3) ci] by (simp add: glob.client_inv_def)
  ultimately show False using glob.alloc_fresh [OF _ assms(4)] by simp
qed

end

section \<open>Properties\<close>

text \<open>C1: No frame is handed out twice: over any interleaving of allocations and of deallocations of
  frames a client holds, from any allocator state that satisfies its invariant, a frame returned by
  \<open>allocate_frame\<close> is not one the client still holds.\<close>

theorem global_no_double_allocation:
  assumes "phys_frames api" "global_inv api g"
    and "(frame_source.client_step (global_allocate_frame api) (global_deallocate_frame api))\<^sup>*\<^sup>* (g, {}) (g', live)"
    and "global_allocate_frame api g' = Some (Ok (Some f), g'')"
  shows "f \<notin> live"
  by (rule phys_frames.glob_fresh [OF assms])

definition bm_sample_next :: bitmap_alloc where
  "bm_sample_next = \<lparr>total_frames = 2, free_frames = 0, to_allocate = 0, bitmap = [3],
    allocate_count = 2, free_count = 0\<rparr>"

lemma bm_sample_allocate:
  "global_allocate_frame numbered_frames (Bitmap bm_sample) = Some (Ok (Some 1), Bitmap bm_sample_next)"
proof -
  have "bm_search numbered_frames (bm_sample\<lparr>to_allocate := 1\<rparr>) = Some (Ok (Some 1), bm_sample_next)"
    by (subst bm_search.simps)
      (simp add: bm_is_bit_set_def bm_take_def bm_set_bit_def bm_sample_def bm_sample_next_def Let_def
        u64_sub_def numbered_frames_def FRAME_SIZE_def push_bit_of_1)
  then have "bm_search numbered_frames bm_sample = Some (Ok (Some 1), bm_sample_next)"
    by (subst bm_search.simps) (simp add: bm_is_bit_set_def bm_sample_def Let_def)
  then show ?thesis by (simp add: global_allocate_frame_def bm_allocate_frame_def)
qed

theorem global_no_double_allocation_witness:
  "phys_frames numbered_frames \<and> global_inv numbered_frames (Bitmap bm_sample)
   \<and> global_allocate_frame numbered_frames (Bitmap bm_sample) = Some (Ok (Some 1), Bitmap bm_sample_next)
   \<and> (1 :: nat) \<notin> {}"
proof -
  have h: "global_inv numbered_frames (Bitmap bm_sample)" by (simp add: global_inv_def bm_sample_inv)
  show ?thesis
    using global_no_double_allocation [OF numbered.phys_frames_axioms h rtranclp.rtrancl_refl bm_sample_allocate]
      h bm_sample_allocate numbered.phys_frames_axioms by blast
qed

text \<open>C2: When the frames handed out at boot are consecutive and usable memory is left,
  \<open>switch_allocator\<close> succeeds: exactly the remaining usable frames are free in the new bitmap
  allocator, and no client of the kernel ever receives a frame that was handed out at boot.\<close>

theorem switch_allocator_keeps_boot_frames:
  assumes "phys_frames api" "limine_map (memory_map b)" "boot_inv api b"
    and "0 < next_idx b" "next_idx b < length (usable_pages (memory_map b))"
    and "\<forall>i < next_idx b. usable_pages (memory_map b) ! i = usable_pages (memory_map b) ! 0 + i"
  shows "\<exists>a. switch_allocator api (Some (Boot b)) = (Ok (), Some (Bitmap a)) \<and> bm_inv a
    \<and> bm_clear_set a = set (drop (next_idx b) (usable_pages (memory_map b)))
    \<and> (\<forall>g live f g'.
         (frame_source.client_step (global_allocate_frame api) (global_deallocate_frame api))\<^sup>*\<^sup>*
           (Bitmap a, {}) (g, live)
         \<longrightarrow> global_allocate_frame api g = Some (Ok (Some f), g') \<longrightarrow> f \<notin> boot_used api b)"
proof -
  obtain a where a: "switch_allocator api (Some (Boot b)) = (Ok (), Some (Bitmap a))" "bm_inv a"
    "bm_clear_set a = set (drop (next_idx b) (usable_pages (memory_map b)))"
    "free_frames a = 2 * length (usable_pages (memory_map b)) - next_idx b"
    "boot_used api b \<subseteq> bm_used api a"
    using assms(2-6) by (rule phys_frames.switch_result [OF assms(1)])
  then show ?thesis
    using phys_frames.switch_no_reuse [OF assms(1) a(2,5)] by (intro exI [of _ a]) blast
qed

theorem switch_allocator_keeps_boot_frames_witness:
  "\<exists>b a. boot_allocate_frame numbered_frames boot_sample = (Ok (Some 0), b)
     \<and> switch_allocator numbered_frames (Some (Boot b)) = (Ok (), Some (Bitmap a))
     \<and> bm_clear_set a = {1, 2}"
proof -
  let ?b = "boot_sample\<lparr>next_idx := 1, first_frame := Some 0, last_frame := Some 0, allocated_count := 1\<rparr>"
  have "boot_usable_frames numbered_frames boot_sample = [Some 0, Some 1, Some 2]"
    using boot_usable_frames_eq [of boot_sample] mm_sample_map
    by (simp add: boot_sample_def numbered_frames_def)
  then have al: "boot_allocate_frame numbered_frames boot_sample = (Ok (Some 0), ?b)"
    by (simp add: boot_allocate_frame_def iter_nth_def)
      (simp add: boot_sample_def MAX_ALLOCATED_FRAMES_def Let_def)
  have h: "limine_map (memory_map ?b)" "boot_inv numbered_frames ?b" "0 < next_idx ?b"
    "next_idx ?b < length (usable_pages (memory_map ?b))"
    "\<forall>i < next_idx ?b. usable_pages (memory_map ?b) ! i = usable_pages (memory_map ?b) ! 0 + i"
    "set (drop (next_idx ?b) (usable_pages (memory_map ?b))) = {1, 2}"
    using boot_inv_allocate(1) [OF boot_sample_inv al] mm_sample_map by (simp_all add: boot_sample_def)
  with al switch_allocator_keeps_boot_frames [OF numbered.phys_frames_axioms h(1-5)] show ?thesis by metis
qed

end
