(* ===== verification/Kernel_Loops.thy ===== *)
theory Kernel_Loops
  imports Kernel_Prelude
begin

text \<open>
  Stateful calls that may fail to return.

  The frame allocator searches with a loop that may not end, and every call that allocates inherits this.
  \<open>dprog\<close> is \<open>prog\<close> with one more outcome, \<open>None\<close>: the call does not return.  \<open>total\<close> embeds the calls that
  always return, and \<open>dbnd\<close> and \<open>dfor_each\<close> sequence as \<open>bnd\<close> and \<open>for_each\<close> do.
\<close>

type_synonym ('s, 'e, 'a) dprog = "'s \<Rightarrow> (('e, 'a) res \<times> 's) option"

definition total :: "('s, 'e, 'a) prog \<Rightarrow> ('s, 'e, 'a) dprog" where
  "total p s = Some (p s)"

definition dbnd :: "('s, 'e, 'a) dprog \<Rightarrow> ('a \<Rightarrow> ('s, 'e, 'b) dprog) \<Rightarrow> ('s, 'e, 'b) dprog" where
  "dbnd m f s = (case m s of
      None \<Rightarrow> None
    | Some (Ok x, s') \<Rightarrow> f x s'
    | Some (Err e, s') \<Rightarrow> Some (Err e, s')
    | Some (Panic, s') \<Rightarrow> Some (Panic, s'))"

fun dfor_each :: "'x list \<Rightarrow> ('x \<Rightarrow> ('s, 'e, unit) dprog) \<Rightarrow> ('s, 'e, unit) dprog" where
  "dfor_each [] body = total (ret ())"
| "dfor_each (x # xs) body = dbnd (body x) (\<lambda>_. dfor_each xs body)"

text \<open>\<open>expect\<close> and \<open>unwrap\<close> on an \<open>Option\<close> and on a \<open>Result\<close>.\<close>

definition expect_some :: "'a option \<Rightarrow> ('s, 'e, 'a) prog" where
  "expect_some v = (case v of Some x \<Rightarrow> ret x | None \<Rightarrow> panic)"

definition expect_ok :: "('x, 'a) res \<Rightarrow> ('s, 'e, 'a) prog" where
  "expect_ok r = (case r of Ok x \<Rightarrow> ret x | _ \<Rightarrow> panic)"

definition expect_p :: "('s, 'x, 'a) prog \<Rightarrow> ('s, 'e, 'a) prog" where
  "expect_p m s = (case m s of (Ok x, s') \<Rightarrow> (Ok x, s') | (_, s') \<Rightarrow> (Panic, s'))"

definition dzoom :: "('s \<Rightarrow> 'x) \<Rightarrow> ('x \<Rightarrow> 's \<Rightarrow> 's) \<Rightarrow> ('x, 'e, 'a) dprog \<Rightarrow> ('s, 'e, 'a) dprog" where
  "dzoom sel upd m s = map_option (\<lambda>(r, x). (r, upd x s)) (m (sel s))"

lemma total_apply [prog_simps]: "total p s = Some (p s)"
  by (simp add: total_def)

lemma dbnd_simps [prog_simps]:
  "m s = Some (Ok x, s') \<Longrightarrow> dbnd m f s = f x s'"
  "m s = Some (Err e, s') \<Longrightarrow> dbnd m f s = Some (Err e, s')"
  "m s = Some (Panic, s') \<Longrightarrow> dbnd m f s = Some (Panic, s')"
  "m s = None \<Longrightarrow> dbnd m f s = None"
  by (simp_all add: dbnd_def)

lemma dbnd_Ok_iff: "dbnd m f s = Some (Ok y, t) \<longleftrightarrow> (\<exists>x s'. m s = Some (Ok x, s') \<and> f x s' = Some (Ok y, t))"
  by (auto simp: dbnd_def split: option.splits prod.splits res.splits)

lemma dbnd_total_ret [simp]: "dbnd (total (ret x)) f = f x"
  by (rule ext) (simp add: dbnd_def total_def ret_def)

lemma total_Ok_iff: "total p s = Some (Ok x, t) \<longleftrightarrow> p s = (Ok x, t)"
  by (simp add: total_def)

lemma basic_Ok_iff:
  "ret x s = (Ok y, t) \<longleftrightarrow> y = x \<and> t = s" "lift_res r s = (Ok y, t) \<longleftrightarrow> r = Ok y \<and> t = s"
  "modify_st f s = (Ok u, t) \<longleftrightarrow> t = f s" "gets g s = (Ok z, t) \<longleftrightarrow> z = g s \<and> t = s"
  by (auto simp: prog_simps)

lemma expect_apply [prog_simps]:
  "expect_some (Some x) s = (Ok x, s)" "expect_some None s = (Panic, s)"
  "expect_ok (Ok y) s = (Ok y, s)" "expect_ok (Err e) s = (Panic, s)" "expect_ok Panic s = (Panic, s)"
  by (simp_all add: expect_some_def expect_ok_def prog_simps)

lemma expect_Ok_iff:
  "expect_some v s = (Ok x, t) \<longleftrightarrow> v = Some x \<and> t = s"
  "expect_ok r s = (Ok y, t) \<longleftrightarrow> r = Ok y \<and> t = s"
  by (cases v; auto simp: prog_simps) (cases r; auto simp: prog_simps)

lemma expect_p_apply [prog_simps]: "m s = (Ok x, s') \<Longrightarrow> expect_p m s = (Ok x, s')"
  by (simp add: expect_p_def)

lemma dzoom_Ok_iff: "dzoom sel upd m s = Some (Ok x, t) \<longleftrightarrow> (\<exists>y. m (sel s) = Some (Ok x, y) \<and> t = upd y s)"
  by (auto simp: dzoom_def)

lemma dfor_each_append: "dfor_each (xs @ ys) body s = dbnd (dfor_each xs body) (\<lambda>_. dfor_each ys body) s"
proof (induction xs arbitrary: s)
  case (Cons x xs)
  then show ?case by (simp add: dbnd_def split: option.splits prod.splits res.splits)
qed (simp add: dbnd_def total_def ret_def)

end
