(* ===== verification/Paging.thy ===== *)
theory Paging
  imports Frame_Global Kernel_Loops
begin

text \<open>
  Virtual memory: mappings (\<open>memory/paging.rs\<close>), TLB shootdowns (\<open>memory/tlb.rs\<close>, the handler in
  \<open>interrupts/idt.rs\<close>, the inter-processor interrupts of \<open>interrupts/x2apic.rs\<close>), and the set-up of the kernel
  heap (\<open>memory/heap.rs\<close>, \<open>memory/mod.rs\<close>).

  Page tables are manipulated through the \<open>Mapper\<close> of the \<open>x86_64\<close> crate, so the mapper is a parameter: a
  record of the calls the kernel makes, over an opaque state of all page tables, with the address space (the
  frame of its level 4 table) as an argument.  Its documented behaviour is the predicate \<open>lawful_mapper\<close>,
  stated through the translation that a state of the tables defines.

  The state is the page tables, the global frame allocator, \<open>NEXT_EPH_OFFSET\<close>, \<open>TLB_SHOOTDOWN_ADDR\<close>, and what
  the hardware holds for each core: requested and in-service interrupt vectors, the address space register and
  the cached translations.
\<close>

section \<open>The mapper of the x86_64 crate\<close>

datatype 'f mapper_error = FrameAllocationFailed | ParentEntryHugePage | PageAlreadyMapped 'f
  | PageNotMapped | InvalidFrameAddress

text \<open>\<open>page_containing a\<close> is \<open>Page::containing_address(VirtAddr::new(a))\<close>, \<open>None\<close> where \<open>VirtAddr::new\<close> panics;
  \<open>page_start p\<close> is \<open>p.start_address().as_u64()\<close>; \<open>page_range\<close> lists \<open>Page::range_inclusive\<close>.  \<open>map_to\<close> takes
  the frames of missing tables from the allocator it is given.\<close>

record ('m, 'p, 'f) mapper_api =
  page_containing :: "nat \<Rightarrow> 'p option"
  page_start :: "'p \<Rightarrow> nat"
  page_range :: "'p \<Rightarrow> 'p \<Rightarrow> 'p list"
  map_to :: "'f \<Rightarrow> 'p \<Rightarrow> 'f \<Rightarrow> u64 \<Rightarrow> ('m \<times> 'f global_alloc, 'f mapper_error, unit) dprog"
  unmap :: "'f \<Rightarrow> 'p \<Rightarrow> ('m, 'f mapper_error, 'f) prog"
  update_flags :: "'f \<Rightarrow> 'p \<Rightarrow> u64 \<Rightarrow> ('m, 'f mapper_error, unit) prog"

definition PRESENT :: u64 where "PRESENT = 1"
definition WRITABLE :: u64 where "WRITABLE = 2"
definition USER_ACCESSIBLE :: u64 where "USER_ACCESSIBLE = 4"
definition NO_EXECUTE :: u64 where "NO_EXECUTE = push_bit 63 1"

text \<open>The translation of a page in an address space, with the flags of its entry.\<close>

type_synonym ('m, 'p, 'f) translation = "'m \<Rightarrow> 'f \<Rightarrow> 'p \<Rightarrow> ('f \<times> u64) option"

text \<open>\<open>map_to\<close> maps a page that was not mapped and refuses one that was; it changes the translation of no other
  page in any address space, and uses the allocator only to allocate.\<close>

definition takes_frames :: "'f frame_api \<Rightarrow> 'f global_alloc \<Rightarrow> 'f global_alloc \<Rightarrow> bool" where
  "takes_frames api = (\<lambda>g g'. \<exists>r. global_allocate_frame api g = Some (Ok r, g'))\<^sup>*\<^sup>*"

definition map_to_law :: "'f frame_api \<Rightarrow> ('m, 'p, 'f) mapper_api \<Rightarrow> ('m, 'p, 'f) translation \<Rightarrow> bool" where
  "map_to_law api mp tr \<longleftrightarrow> (\<forall>h p f fl m g r m' g'. map_to mp h p f fl (m, g) = Some (r, m', g') \<longrightarrow>
     (r = Ok () \<longrightarrow> tr m h p = None \<and> tr m' h p = Some (f, fl))
     \<and> (\<forall>e. r = Err e \<longrightarrow> tr m' = tr m)
     \<and> (\<forall>h' q. q \<noteq> p \<longrightarrow> tr m' h' q = tr m h' q)
     \<and> (r \<noteq> Panic \<longrightarrow> takes_frames api g g'))"

text \<open>\<open>unmap\<close> and \<open>update_flags\<close> succeed exactly on mapped pages.\<close>

definition unmap_law :: "('m, 'p, 'f) mapper_api \<Rightarrow> ('m, 'p, 'f) translation \<Rightarrow> bool" where
  "unmap_law mp tr \<longleftrightarrow> (\<forall>h p m. case tr m h p of
       Some (f, fl) \<Rightarrow> \<exists>m'. unmap mp h p m = (Ok f, m') \<and> tr m' h p = None
         \<and> (\<forall>h' q. q \<noteq> p \<longrightarrow> tr m' h' q = tr m h' q)
     | None \<Rightarrow> \<exists>e. unmap mp h p m = (Err e, m))"

definition update_flags_law :: "('m, 'p, 'f) mapper_api \<Rightarrow> ('m, 'p, 'f) translation \<Rightarrow> bool" where
  "update_flags_law mp tr \<longleftrightarrow> (\<forall>h p fl' m. case tr m h p of
       Some (f, fl) \<Rightarrow> \<exists>m'. update_flags mp h p fl' m = (Ok (), m') \<and> tr m' h p = Some (f, fl')
         \<and> (\<forall>h' q. q \<noteq> p \<longrightarrow> tr m' h' q = tr m h' q)
     | None \<Rightarrow> \<exists>e. update_flags mp h p fl' m = (Err e, m))"

text \<open>A page is determined by its start address, which lies in it.\<close>

definition page_law :: "('m, 'p, 'f) mapper_api \<Rightarrow> bool" where
  "page_law mp \<longleftrightarrow> (\<forall>p. page_containing mp (page_start mp p) = Some p)"

definition lawful_mapper :: "'f frame_api \<Rightarrow> ('m, 'p, 'f) mapper_api \<Rightarrow> ('m, 'p, 'f) translation \<Rightarrow> bool" where
  "lawful_mapper api mp tr \<longleftrightarrow> map_to_law api mp tr \<and> unmap_law mp tr \<and> update_flags_law mp tr \<and> page_law mp"

section \<open>State\<close>

definition MAX_CORES :: nat where "MAX_CORES = 2"
definition TLB_SHOOTDOWN_VECTOR :: u8 where "TLB_SHOOTDOWN_VECTOR = 33"
definition EPHEMERAL_KERNEL_MAPPINGS_START :: nat where "EPHEMERAL_KERNEL_MAPPINGS_START = 0xFFFFFF8000000000"

record ('m, 'p, 'f) vm =
  tables :: 'm
  frame_allocator :: "'f global_alloc option"
  next_eph_offset :: nat
  tlb_shootdown_addr :: "nat list"
  requested :: "nat \<Rightarrow> u8 set"
  in_service :: "nat \<Rightarrow> u8 list"
  cr3 :: "nat \<Rightarrow> 'f"
  tlb :: "nat \<Rightarrow> 'p \<Rightarrow> ('f \<times> u64) option"

section \<open>Interrupts between cores\<close>

datatype x2apic_error = NotSupportedApic | NotEnabled | EnableFailed | InvalidVector | ConfigurationFailed
  | TimerError | CoreOutOfRange

text \<open>A write to the interrupt command register requests the vector in its low byte at the core in its upper
  half; a write to the end-of-interrupt register ends the innermost interrupt in service.\<close>

definition write_icr :: "u64 \<Rightarrow> ('m, 'p, 'f) vm \<Rightarrow> ('m, 'p, 'f) vm" where
  "write_icr v s = (let c = unat (drop_bit 32 v) in s\<lparr>requested := (requested s)(c := insert (ucast v) (requested s c))\<rparr>)"

definition write_eoi :: "nat \<Rightarrow> ('m, 'p, 'f) vm \<Rightarrow> ('m, 'p, 'f) vm" where
  "write_eoi core s = s\<lparr>in_service := (in_service s)(core := tl (in_service s core))\<rparr>"

definition manager_send_ipi :: "u32 \<Rightarrow> u8 \<Rightarrow> (('m, 'p, 'f) vm, x2apic_error, unit) prog" where
  "manager_send_ipi target_id vector =
    (if vector < 16 then raise InvalidVector
     else let v = push_bit 32 (ucast target_id) OR ucast vector
          in bnd (modify_st (write_icr v)) (\<lambda>_. ret ()))"

definition manager_send_eoi :: "nat \<Rightarrow> (('m, 'p, 'f) vm, x2apic_error, unit) prog" where
  "manager_send_eoi core = bnd (modify_st (write_eoi core)) (\<lambda>_. ret ())"

definition send_ipi :: "u32 \<Rightarrow> u8 \<Rightarrow> (('m, 'p, 'f) vm, unit, unit) prog" where
  "send_ipi target_id vector = expect_p (manager_send_ipi target_id vector)"

definition send_eoi :: "nat \<Rightarrow> (('m, 'p, 'f) vm, unit, unit) prog" where
  "send_eoi core = expect_p (manager_send_eoi core)"

section \<open>TLB shootdowns\<close>

text \<open>\<open>invlpg\<close> drops the translation that the core caches for the page of an address.\<close>

definition invlpg :: "('m, 'p, 'f) mapper_api \<Rightarrow> nat \<Rightarrow> nat \<Rightarrow> ('m, 'p, 'f) vm \<Rightarrow> ('m, 'p, 'f) vm" where
  "invlpg mp core vaddr s = (case page_containing mp vaddr of
      None \<Rightarrow> s
    | Some p \<Rightarrow> s\<lparr>tlb := (tlb s)(core := (tlb s core)(p := None))\<rparr>)"

definition set_shootdown_addr :: "nat \<Rightarrow> nat \<Rightarrow> (('m, 'p, 'f) vm, unit, unit) prog" where
  "set_shootdown_addr core vaddr =
    bnd (gets tlb_shootdown_addr) (\<lambda>a.
    bnd (lift_res (store_at a core vaddr)) (\<lambda>a'.
    modify_st (\<lambda>s. s\<lparr>tlb_shootdown_addr := a'\<rparr>)))"

definition tlb_shootdown :: "('m, 'p, 'f) mapper_api \<Rightarrow> nat \<Rightarrow> nat \<Rightarrow> (('m, 'p, 'f) vm, unit, unit) prog" where
  "tlb_shootdown mp current_core vaddr =
    bnd (for_each [0..<MAX_CORES] (\<lambda>core.
      if core \<noteq> current_core
      then bnd (set_shootdown_addr core vaddr) (\<lambda>_. send_ipi (of_nat core) TLB_SHOOTDOWN_VECTOR)
      else ret ())) (\<lambda>_.
    modify_st (invlpg mp current_core vaddr))"

definition tlb_shootdown_handler :: "('m, 'p, 'f) mapper_api \<Rightarrow> nat \<Rightarrow> (('m, 'p, 'f) vm, unit, unit) prog" where
  "tlb_shootdown_handler mp core =
    bnd (gets tlb_shootdown_addr) (\<lambda>addresses.
    bnd (lift_res (index_at addresses core)) (\<lambda>vaddr_to_invalidate.
    bnd (if vaddr_to_invalidate \<noteq> 0
         then bnd (modify_st (invlpg mp core vaddr_to_invalidate)) (\<lambda>_. set_shootdown_addr core 0)
         else ret ()) (\<lambda>_.
    send_eoi core)))"

section \<open>Mappings\<close>

definition alloc_frame_vm :: "'f frame_api \<Rightarrow> (('m, 'p, 'f) vm, unit, 'f option) dprog" where
  "alloc_frame_vm api = dzoom frame_allocator (\<lambda>g s. s\<lparr>frame_allocator := g\<rparr>) (alloc_frame api)"

definition dealloc_frame_vm :: "'f frame_api \<Rightarrow> 'f \<Rightarrow> (('m, 'p, 'f) vm, unit, unit) dprog" where
  "dealloc_frame_vm api frame = dzoom frame_allocator (\<lambda>g s. s\<lparr>frame_allocator := g\<rparr>) (dealloc_frame api frame)"

text \<open>\<open>mapper.map_to(page, frame, flags, FRAME_ALLOCATOR.lock().as_mut().expect(..))\<close>: its \<open>Result\<close> is a value
  here.\<close>

definition map_to_vm :: "('m, 'p, 'f) mapper_api \<Rightarrow> 'f \<Rightarrow> 'p \<Rightarrow> 'f \<Rightarrow> u64
    \<Rightarrow> (('m, 'p, 'f) vm, unit, ('f mapper_error, unit) res) dprog" where
  "map_to_vm mp h page frame flags s = (case frame_allocator s of
      None \<Rightarrow> Some (Panic, s)
    | Some g \<Rightarrow> (case map_to mp h page frame flags (tables s, g) of
        None \<Rightarrow> None
      | Some (r, m, g') \<Rightarrow> Some (if r = Panic then Panic else Ok r, s\<lparr>tables := m, frame_allocator := Some g'\<rparr>)))"

definition unmap_vm :: "('m, 'p, 'f) mapper_api \<Rightarrow> 'f \<Rightarrow> 'p \<Rightarrow> (('m, 'p, 'f) vm, unit, 'f) prog" where
  "unmap_vm mp h page = expect_p (zoom tables (\<lambda>m s. s\<lparr>tables := m\<rparr>) (unmap mp h page))"

definition create_mapping :: "'f frame_api \<Rightarrow> ('m, 'p, 'f) mapper_api \<Rightarrow> 'f \<Rightarrow> 'p \<Rightarrow> u64 option
    \<Rightarrow> (('m, 'p, 'f) vm, unit, 'f) dprog" where
  "create_mapping api mp h page flags =
    dbnd (alloc_frame_vm api) (\<lambda>r.
    dbnd (total (expect_some r)) (\<lambda>frame.
    dbnd (map_to_vm mp h page frame (case flags of Some fl \<Rightarrow> fl | None \<Rightarrow> PRESENT OR WRITABLE OR USER_ACCESSIBLE)) (\<lambda>res.
    dbnd (total (expect_ok res)) (\<lambda>_.
    total (ret frame)))))"

definition update_mapping :: "('m, 'p, 'f) mapper_api \<Rightarrow> nat \<Rightarrow> 'f \<Rightarrow> 'p \<Rightarrow> 'f
    \<Rightarrow> (('m, 'p, 'f) vm, unit, unit) dprog" where
  "update_mapping mp core h page frame =
    (let flags = PRESENT OR WRITABLE
     in dbnd (total (unmap_vm mp h page)) (\<lambda>old_frame.
     if old_frame \<noteq> frame
     then dbnd (map_to_vm mp h page frame flags) (\<lambda>_.
          total (tlb_shootdown mp core (page_start mp page)))
     else total (ret ())))"

definition remove_mapping :: "('m, 'p, 'f) mapper_api \<Rightarrow> nat \<Rightarrow> 'f \<Rightarrow> 'p \<Rightarrow> (('m, 'p, 'f) vm, unit, 'f) prog" where
  "remove_mapping mp core h page =
    bnd (unmap_vm mp h page) (\<lambda>frame.
    bnd (tlb_shootdown mp core (page_start mp page)) (\<lambda>_.
    ret frame))"

definition remove_mapped_frame :: "'f frame_api \<Rightarrow> ('m, 'p, 'f) mapper_api \<Rightarrow> nat \<Rightarrow> 'f \<Rightarrow> 'p
    \<Rightarrow> (('m, 'p, 'f) vm, unit, unit) dprog" where
  "remove_mapped_frame api mp core h page =
    dbnd (total (unmap_vm mp h page)) (\<lambda>frame.
    dbnd (dealloc_frame_vm api frame) (\<lambda>_.
    total (tlb_shootdown mp core (page_start mp page))))"

definition map_kernel_frame :: "('m, 'p, 'f) mapper_api \<Rightarrow> nat \<Rightarrow> 'f \<Rightarrow> 'f \<Rightarrow> u64
    \<Rightarrow> (('m, 'p, 'f) vm, unit, nat) dprog" where
  "map_kernel_frame mp core h frame flags =
    dbnd (total (gets next_eph_offset)) (\<lambda>offset.
    dbnd (total (lift_res (u64_add offset 0x1000))) (\<lambda>next.
    dbnd (total (modify_st (\<lambda>s. s\<lparr>next_eph_offset := next\<rparr>))) (\<lambda>_.
    dbnd (total (lift_res (u64_add EPHEMERAL_KERNEL_MAPPINGS_START offset))) (\<lambda>temp_virt.
    dbnd (total (expect_some (page_containing mp temp_virt))) (\<lambda>temp_page.
    dbnd (map_to_vm mp h temp_page frame flags) (\<lambda>result.
    dbnd (total (expect_ok result)) (\<lambda>_.
    dbnd (total (modify_st (invlpg mp core (page_start mp temp_page)))) (\<lambda>_.
    total (ret temp_virt)))))))))"

definition update_permissions :: "('m, 'p, 'f) mapper_api \<Rightarrow> nat \<Rightarrow> 'f \<Rightarrow> 'p \<Rightarrow> u64
    \<Rightarrow> (('m, 'p, 'f) vm, unit, unit) prog" where
  "update_permissions mp core h page flags =
    bnd (expect_p (zoom tables (\<lambda>m s. s\<lparr>tables := m\<rparr>) (update_flags mp h page flags))) (\<lambda>_.
    tlb_shootdown mp core (page_start mp page))"

section \<open>The kernel heap\<close>

text \<open>\<open>kernel_pml4\<close> is the level 4 frame of \<open>MAPPER\<close>.  The span of the heap is handed to the \<open>talc\<close> allocator by a
  static initialiser.\<close>

definition init_heap :: "'f frame_api \<Rightarrow> ('m, 'p, 'f) mapper_api \<Rightarrow> 'f
    \<Rightarrow> (('m, 'p, 'f) vm, unit, unit) dprog" where
  "init_heap api mp kernel_pml4 =
    dbnd (total (lift_res (u64_add HEAP_START HEAP_SIZE))) (\<lambda>e.
    dbnd (total (lift_res (u64_sub e 1))) (\<lambda>heap_end.
    dbnd (total (expect_some (page_containing mp HEAP_START))) (\<lambda>heap_start_page.
    dbnd (total (expect_some (page_containing mp heap_end))) (\<lambda>heap_end_page.
    dbnd (dfor_each (page_range mp heap_start_page heap_end_page) (\<lambda>page.
      dbnd (create_mapping api mp kernel_pml4 page None) (\<lambda>_. total (ret ())))) (\<lambda>_.
    total (zoom frame_allocator (\<lambda>g s. s\<lparr>frame_allocator := g\<rparr>) (switch_allocator api)))))))"

text \<open>\<open>memory::init\<close>, with the responses of the bootloader that the boot allocator reads.  Enabling no-execute
  pages touches a model-specific register only.\<close>

definition memory_init :: "'f frame_api \<Rightarrow> ('m, 'p, 'f) mapper_api \<Rightarrow> 'f \<Rightarrow> mem_entry list option \<Rightarrow> (nat \<times> nat) option \<Rightarrow> nat
    \<Rightarrow> u32 \<Rightarrow> (('m, 'p, 'f) vm, unit, unit) dprog" where
  "memory_init api mp kernel_pml4 map_response kernel_address_response kernel_end_symbol cpu_id =
    (if cpu_id = 0
     then dbnd (total (lift_res (boot_init map_response kernel_address_response kernel_end_symbol))) (\<lambda>b.
          dbnd (total (modify_st (\<lambda>s. s\<lparr>frame_allocator := Some (Boot b)\<rparr>))) (\<lambda>_.
          init_heap api mp kernel_pml4))
     else total (ret ()))"

end
