(* ===== verification/Paging_Props.thy ===== *)
theory Paging_Props
  imports Paging
begin

text \<open>
  Mappings through a lawful mapper, the coherence of the translation caches, and the kernel heap.
\<close>

section \<open>Evaluation\<close>

lemma lawful_mapperD:
  assumes "lawful_mapper api mp tr"
  shows "map_to_law api mp tr" "unmap_law mp tr" "update_flags_law mp tr" "page_law mp"
  using assms by (auto simp: lawful_mapper_def)

lemma page_containing_start [simp]: "page_law mp \<Longrightarrow> page_containing mp (page_start mp p) = Some p"
  by (simp add: page_law_def)

lemma invlpg_page: "page_law mp \<Longrightarrow> invlpg mp c (page_start mp p) s = s\<lparr>tlb := (tlb s)(c := (tlb s c)(p := None))\<rparr>"
  by (simp add: invlpg_def)

lemma core_0: "0 < MAX_CORES"
  by (simp add: MAX_CORES_def)

text \<open>With two cores, a shootdown leaves the address and the request with the other one.\<close>

definition shot :: "('m, 'p, 'f) mapper_api \<Rightarrow> nat \<Rightarrow> nat \<Rightarrow> ('m, 'p, 'f) vm \<Rightarrow> ('m, 'p, 'f) vm" where
  "shot mp core v s = invlpg mp core v (s\<lparr>
     tlb_shootdown_addr := (tlb_shootdown_addr s)[1 - core := v],
     requested := (requested s)(1 - core := insert TLB_SHOOTDOWN_VECTOR (requested s (1 - core)))\<rparr>)"

lemma upt_cores: "[0..<MAX_CORES] = [0, 1]"
  by (simp add: MAX_CORES_def numeral_2_eq_2)

lemma vector_of_icr: "(4294967329 :: u8) = 33"
  by (simp add: word_eq_iff_unsigned)

lemma send_ipi_core:
  "send_ipi 0 TLB_SHOOTDOWN_VECTOR s = (Ok (), s\<lparr>requested := (requested s)(0 := insert TLB_SHOOTDOWN_VECTOR (requested s 0))\<rparr>)"
  "send_ipi 1 TLB_SHOOTDOWN_VECTOR s = (Ok (), s\<lparr>requested := (requested s)(Suc 0 := insert TLB_SHOOTDOWN_VECTOR (requested s (Suc 0)))\<rparr>)"
  by (simp_all add: send_ipi_def manager_send_ipi_def expect_p_def write_icr_def Let_def bnd_def prog_simps
      TLB_SHOOTDOWN_VECTOR_def vector_of_icr)

lemma set_shootdown_addr_eq:
  "c < length (tlb_shootdown_addr s) \<Longrightarrow>
     set_shootdown_addr c v s = (Ok (), s\<lparr>tlb_shootdown_addr := (tlb_shootdown_addr s)[c := v]\<rparr>)"
  by (simp add: set_shootdown_addr_def bnd_def prog_simps)

lemma tlb_shootdown_eq:
  assumes "core < MAX_CORES" "length (tlb_shootdown_addr s) = MAX_CORES"
  shows "tlb_shootdown mp core v s = (Ok (), shot mp core v s)"
proof -
  consider "core = 0" | "core = 1" using assms(1) by (auto simp: MAX_CORES_def less_2_cases_iff)
  moreover have "0 < length (tlb_shootdown_addr s)" "Suc 0 < length (tlb_shootdown_addr s)"
    using assms(2) by (simp_all add: MAX_CORES_def)
  ultimately show ?thesis unfolding tlb_shootdown_def upt_cores
    by cases (simp_all add: bnd_def prog_simps set_shootdown_addr_eq shot_def send_ipi_core)
qed

lemma shot_simps [simp]:
  "tables (shot mp k v s) = tables s" "cr3 (shot mp k v s) = cr3 s" "frame_allocator (shot mp k v s) = frame_allocator s"
  "tlb_shootdown_addr (shot mp k v s) = (tlb_shootdown_addr s)[1 - k := v]"
  "requested (shot mp k v s) = (requested s)(1 - k := insert TLB_SHOOTDOWN_VECTOR (requested s (1 - k)))"
  "in_service (shot mp k v s) = in_service s" "next_eph_offset (shot mp k v s) = next_eph_offset s"
  by (simp_all add: shot_def invlpg_def split: option.splits)

lemma shot_tlb: "page_law mp \<Longrightarrow> tlb (shot mp k (page_start mp p) s) = (tlb s)(k := (tlb s k)(p := None))"
  by (simp add: shot_def invlpg_page)

lemma unmap_vm_mapped:
  assumes "unmap_law mp tr" "tr (tables s) h p = Some (f, fl)"
  obtains m where "unmap_vm mp h p s = (Ok f, s\<lparr>tables := m\<rparr>)" "tr m h p = None"
    "\<And>h' q. q \<noteq> p \<Longrightarrow> tr m h' q = tr (tables s) h' q"
proof -
  have "case tr (tables s) h p of Some (f, fl) \<Rightarrow> \<exists>m'. unmap mp h p (tables s) = (Ok f, m') \<and> tr m' h p = None
      \<and> (\<forall>h' q. q \<noteq> p \<longrightarrow> tr m' h' q = tr (tables s) h' q) | None \<Rightarrow> \<exists>e. unmap mp h p (tables s) = (Err e, tables s)"
    using assms(1) unfolding unmap_law_def by blast
  then obtain m where m: "unmap mp h p (tables s) = (Ok f, m)" "tr m h p = None" "\<forall>h' q. q \<noteq> p \<longrightarrow> tr m h' q = tr (tables s) h' q"
    using assms(2) by auto
  show thesis by (rule that [of m]) (use m in \<open>simp_all add: unmap_vm_def expect_p_def zoom_def\<close>)
qed

lemma unmap_vm_Ok:
  assumes "unmap_law mp tr" "unmap_vm mp h p s = (Ok f, s')"
  obtains fl m where "tr (tables s) h p = Some (f, fl)" "s' = s\<lparr>tables := m\<rparr>" "tr m h p = None"
    "\<And>h' q. q \<noteq> p \<Longrightarrow> tr m h' q = tr (tables s) h' q"
proof (cases "tr (tables s) h p")
  case None
  then have "\<exists>e. unmap mp h p (tables s) = (Err e, tables s)"
    using assms(1) [unfolded unmap_law_def, rule_format, of h p "tables s"] by simp
  then show ?thesis using assms(2) by (auto simp: unmap_vm_def expect_p_def zoom_def)
next
  case (Some v)
  obtain g fl where v: "v = (g, fl)" by (cases v)
  obtain m where m: "unmap_vm mp h p s = (Ok g, s\<lparr>tables := m\<rparr>)" "tr m h p = None"
    "\<And>h' q. q \<noteq> p \<Longrightarrow> tr m h' q = tr (tables s) h' q"
    using unmap_vm_mapped [where tr = tr, OF assms(1) Some [unfolded v]] by blast
  then have "f = g" "s' = s\<lparr>tables := m\<rparr>" using assms(2) by auto
  then show ?thesis using that m(2,3) Some v by auto
qed

lemma update_flags_Ok:
  assumes "update_flags_law mp tr" "update_flags mp h p fl m = (Ok (), m')"
  obtains f fl0 where "tr m h p = Some (f, fl0)" "tr m' h p = Some (f, fl)" "\<And>h' q. q \<noteq> p \<Longrightarrow> tr m' h' q = tr m h' q"
proof (cases "tr m h p")
  case None
  then have "\<exists>e. update_flags mp h p fl m = (Err e, m)"
    using assms(1) [unfolded update_flags_law_def, rule_format, of h p fl m] by simp
  then show ?thesis using assms(2) by auto
next
  case (Some v)
  obtain f fl0 where v: "v = (f, fl0)" by (cases v)
  have "case tr m h p of Some (f, fl0) \<Rightarrow> \<exists>m'. update_flags mp h p fl m = (Ok (), m') \<and> tr m' h p = Some (f, fl)
      \<and> (\<forall>h' q. q \<noteq> p \<longrightarrow> tr m' h' q = tr m h' q) | None \<Rightarrow> \<exists>e. update_flags mp h p fl m = (Err e, m)"
    using assms(1) unfolding update_flags_law_def by blast
  then show ?thesis using that Some v assms(2) by auto
qed

section \<open>Coherence of the translation caches\<close>

text \<open>A core's cached translation is stale when it is not the one in the page tables.\<close>

definition stale :: "('m, 'p, 'f) translation \<Rightarrow> ('m, 'p, 'f) vm \<Rightarrow> nat \<Rightarrow> 'p \<Rightarrow> bool" where
  "stale tr s c p \<longleftrightarrow> (\<exists>e. tlb s c p = Some e \<and> tr (tables s) (cr3 s c) p \<noteq> Some e)"

definition coherent :: "('m, 'p, 'f) translation \<Rightarrow> ('m, 'p, 'f) vm \<Rightarrow> bool" where
  "coherent tr s \<longleftrightarrow> (\<forall>c p. c < MAX_CORES \<longrightarrow> \<not> stale tr s c p)"

text \<open>What happens besides the code above: a core caches a translation it walks, drops one, or takes the
  shootdown interrupt.\<close>

definition accept :: "nat \<Rightarrow> ('m, 'p, 'f) vm \<Rightarrow> ('m, 'p, 'f) vm" where
  "accept c s = s\<lparr>requested := (requested s)(c := requested s c - {TLB_SHOOTDOWN_VECTOR}),
     in_service := (in_service s)(c := TLB_SHOOTDOWN_VECTOR # in_service s c)\<rparr>"

inductive hw_step :: "('m, 'p, 'f) mapper_api \<Rightarrow> ('m, 'p, 'f) translation \<Rightarrow> ('m, 'p, 'f) vm \<Rightarrow> ('m, 'p, 'f) vm \<Rightarrow> bool"
  for mp tr where
  fill: "tr (tables s) (cr3 s c) p = Some e \<Longrightarrow> hw_step mp tr s (s\<lparr>tlb := (tlb s)(c := (tlb s c)(p \<mapsto> e))\<rparr>)"
| evict: "hw_step mp tr s (s\<lparr>tlb := (tlb s)(c := (tlb s c)(p := None))\<rparr>)"
| shootdown: "c < MAX_CORES \<Longrightarrow> TLB_SHOOTDOWN_VECTOR \<in> requested s c \<Longrightarrow>
    tlb_shootdown_handler mp c (accept c s) = (Ok (), s') \<Longrightarrow> hw_step mp tr s s'"

definition handled :: "('m, 'p, 'f) mapper_api \<Rightarrow> nat \<Rightarrow> ('m, 'p, 'f) vm \<Rightarrow> ('m, 'p, 'f) vm" where
  "handled mp c s = (let a = tlb_shootdown_addr s ! c in
     (if a \<noteq> 0 then (invlpg mp c a s)\<lparr>tlb_shootdown_addr := (tlb_shootdown_addr s)[c := 0]\<rparr> else s)
       \<lparr>requested := (requested s)(c := requested s c - {TLB_SHOOTDOWN_VECTOR})\<rparr>)"

lemma handler_eq:
  assumes "c < length (tlb_shootdown_addr s)"
  shows "tlb_shootdown_handler mp c (accept c s) = (Ok (), handled mp c s)"
  using assms
  by (cases "page_containing mp (tlb_shootdown_addr s ! c)")
    (auto simp: tlb_shootdown_handler_def bnd_def prog_simps accept_def handled_def Let_def send_eoi_def manager_send_eoi_def
      expect_p_def write_eoi_def set_shootdown_addr_eq invlpg_def)

text \<open>While a shootdown of page \<open>p\<close> is under way, only \<open>p\<close> can be stale, and only on cores that still have the
  request and its address.\<close>

definition shoot_inv :: "('m, 'p, 'f) mapper_api \<Rightarrow> ('m, 'p, 'f) translation \<Rightarrow> 'p \<Rightarrow> ('m, 'p, 'f) vm \<Rightarrow> bool" where
  "shoot_inv mp tr p s \<longleftrightarrow> length (tlb_shootdown_addr s) = MAX_CORES
     \<and> (\<forall>c q. c < MAX_CORES \<longrightarrow> stale tr s c q \<longrightarrow>
          q = p \<and> TLB_SHOOTDOWN_VECTOR \<in> requested s c \<and> tlb_shootdown_addr s ! c = page_start mp p)"

lemma handled_simps [simp]:
  "tables (handled mp c s) = tables s" "cr3 (handled mp c s) = cr3 s"
  "length (tlb_shootdown_addr (handled mp c s)) = length (tlb_shootdown_addr s)"
  "requested (handled mp c s) = (requested s)(c := requested s c - {TLB_SHOOTDOWN_VECTOR})"
  by (auto simp: handled_def invlpg_def Let_def split: option.splits)

lemma handled_other:
  assumes "d \<noteq> c"
  shows "tlb (handled mp c s) d = tlb s d" "tlb_shootdown_addr (handled mp c s) ! d = tlb_shootdown_addr s ! d"
  using assms by (auto simp: handled_def invlpg_def Let_def split: option.splits)

lemma handled_clears:
  "page_law mp \<Longrightarrow> tlb_shootdown_addr s ! c = page_start mp p \<Longrightarrow> page_start mp p \<noteq> 0 \<Longrightarrow> tlb (handled mp c s) c p = None"
  by (simp add: handled_def invlpg_page Let_def)

lemma handled_shrinks: "tlb (handled mp c s) d q = Some e \<Longrightarrow> tlb s d q = Some e"
  by (auto simp: handled_def invlpg_def Let_def split: option.splits if_splits)

lemma shoot_inv_handled:
  assumes inv: "shoot_inv mp tr p s" and "page_law mp" "page_start mp p \<noteq> 0"
  shows "shoot_inv mp tr p (handled mp c s)"
  unfolding shoot_inv_def
proof (intro conjI allI impI)
  show "length (tlb_shootdown_addr (handled mp c s)) = MAX_CORES" using inv by (simp add: shoot_inv_def)
next
  fix d q assume d: "d < MAX_CORES" and st: "stale tr (handled mp c s) d q"
  then have old: "stale tr s d q" using handled_shrinks [of mp c s d q] by (auto simp: stale_def)
  then have o: "q = p" "TLB_SHOOTDOWN_VECTOR \<in> requested s d" "tlb_shootdown_addr s ! d = page_start mp p"
    using inv d unfolding shoot_inv_def by blast+
  have "d \<noteq> c" using st o handled_clears [OF assms(2), of s c p] assms(3) by (auto simp: stale_def)
  then show "q = p" "TLB_SHOOTDOWN_VECTOR \<in> requested (handled mp c s) d"
    "tlb_shootdown_addr (handled mp c s) ! d = page_start mp p"
    using o by (simp_all add: handled_other)
qed

lemma shoot_inv_step:
  assumes "hw_step mp tr s s'" "shoot_inv mp tr p s" "page_law mp" "page_start mp p \<noteq> 0"
  shows "shoot_inv mp tr p s'"
  using assms(1)
proof cases
  case (fill c q e)
  then show ?thesis using assms(2) unfolding shoot_inv_def stale_def by (auto split: if_splits)
next
  case (evict c q)
  then show ?thesis using assms(2) unfolding shoot_inv_def stale_def by (auto split: if_splits)
next
  case (shootdown c)
  then have "s' = handled mp c s" using handler_eq [of c s mp] assms(2) by (simp add: shoot_inv_def)
  then show ?thesis using shoot_inv_handled [OF assms(2-4)] by simp
qed

lemma shoot_inv_steps:
  assumes "(hw_step mp tr)\<^sup>*\<^sup>* s s'" "shoot_inv mp tr p s" "page_law mp" "page_start mp p \<noteq> 0"
  shows "shoot_inv mp tr p s'"
  using assms(1,2) by (induction rule: rtranclp_induct) (auto intro: shoot_inv_step [OF _ _ assms(3,4)])

lemma shot_establishes:
  assumes coh: "coherent tr s" and len: "length (tlb_shootdown_addr s) = MAX_CORES" and k: "k < MAX_CORES"
    and "page_law mp" and same: "\<And>h q. q \<noteq> p \<Longrightarrow> tr m h q = tr (tables s) h q"
  shows "shoot_inv mp tr p (shot mp k (page_start mp p) (s\<lparr>tables := m\<rparr>))"
  unfolding shoot_inv_def
proof (intro conjI allI impI)
  show "length (tlb_shootdown_addr (shot mp k (page_start mp p) (s\<lparr>tables := m\<rparr>))) = MAX_CORES" using len by simp
next
  fix c q assume c: "c < MAX_CORES" and st: "stale tr (shot mp k (page_start mp p) (s\<lparr>tables := m\<rparr>)) c q"
  have "\<not> stale tr s c q" using coh c by (simp add: coherent_def)
  then have "q \<noteq> p \<Longrightarrow> False" using st by (auto simp: same stale_def shot_tlb [OF assms(4)] split: if_splits)
  then have q: "q = p" by blast
  then have "c \<noteq> k" using st by (auto simp: stale_def shot_tlb [OF assms(4)])
  then have "c = 1 - k" using c k by (auto simp: MAX_CORES_def less_2_cases_iff)
  then show "q = p" "TLB_SHOOTDOWN_VECTOR \<in> requested (shot mp k (page_start mp p) (s\<lparr>tables := m\<rparr>)) c"
    "tlb_shootdown_addr (shot mp k (page_start mp p) (s\<lparr>tables := m\<rparr>)) ! c = page_start mp p"
    using q c len by simp_all
qed

lemma remove_mapping_Ok:
  assumes "unmap_law mp tr" "remove_mapping mp k h p s = (Ok f, s')" "length (tlb_shootdown_addr s) = MAX_CORES" "k < MAX_CORES"
  obtains fl m where "tr (tables s) h p = Some (f, fl)" "s' = shot mp k (page_start mp p) (s\<lparr>tables := m\<rparr>)" "tr m h p = None"
    "\<And>h' q. q \<noteq> p \<Longrightarrow> tr m h' q = tr (tables s) h' q"
proof -
  obtain s1 where s1: "unmap_vm mp h p s = (Ok f, s1)" "tlb_shootdown mp k (page_start mp p) s1 = (Ok (), s')"
    using assms(2) by (auto simp: remove_mapping_def bnd_Ok_iff prog_simps)
  obtain fl m where m: "tr (tables s) h p = Some (f, fl)" "s1 = s\<lparr>tables := m\<rparr>" "tr m h p = None"
    "\<And>h' q. q \<noteq> p \<Longrightarrow> tr m h' q = tr (tables s) h' q"
    using unmap_vm_Ok [where tr = tr, OF assms(1) s1(1)] by blast
  show thesis
    by (rule that [OF m(1) _ m(3,4)]) (use s1(2) m(2) tlb_shootdown_eq [of k s1 mp] assms(3,4) in simp)
qed

lemma update_permissions_Ok:
  assumes "update_flags_law mp tr" "update_permissions mp k h p fl s = (Ok (), s')"
    "length (tlb_shootdown_addr s) = MAX_CORES" "k < MAX_CORES"
  obtains m where "s' = shot mp k (page_start mp p) (s\<lparr>tables := m\<rparr>)" "\<And>h' q. q \<noteq> p \<Longrightarrow> tr m h' q = tr (tables s) h' q"
proof -
  obtain m where m: "update_flags mp h p fl (tables s) = (Ok (), m)" "tlb_shootdown mp k (page_start mp p) (s\<lparr>tables := m\<rparr>) = (Ok (), s')"
    using assms(2) by (auto simp: update_permissions_def bnd_Ok_iff expect_p_def zoom_def split: prod.splits res.splits)
  then have "s' = shot mp k (page_start mp p) (s\<lparr>tables := m\<rparr>)" using tlb_shootdown_eq [of k "s\<lparr>tables := m\<rparr>" mp] assms(3,4) by simp
  then show thesis using that update_flags_Ok [where tr = tr, OF assms(1) m(1)] by blast
qed


text \<open>A mapper over a translation map, with numbered pages, that needs no frames for its tables.\<close>

type_synonym flat_tables = "nat \<Rightarrow> nat \<Rightarrow> (nat \<times> u64) option"

definition flat_mapper :: "(flat_tables, nat, nat) mapper_api" where
  "flat_mapper = \<lparr>page_containing = (\<lambda>a. Some (a div 4096)), page_start = (\<lambda>p. p * 4096), page_range = (\<lambda>p q. [p..<Suc q]),
     map_to = (\<lambda>h p f fl (m, g). Some (case m h p of
        None \<Rightarrow> (Ok (), m(h := (m h)(p \<mapsto> (f, fl))), g)
      | Some (f', _) \<Rightarrow> (Err (PageAlreadyMapped f'), m, g))),
     unmap = (\<lambda>h p m. case m h p of Some (f, _) \<Rightarrow> (Ok f, m(h := (m h)(p := None))) | None \<Rightarrow> (Err PageNotMapped, m)),
     update_flags = (\<lambda>h p fl m. case m h p of Some (f, _) \<Rightarrow> (Ok (), m(h := (m h)(p \<mapsto> (f, fl)))) | None \<Rightarrow> (Err PageNotMapped, m))\<rparr>"

definition flat_tr :: "(flat_tables, nat, nat) translation" where
  "flat_tr m = m"

declare flat_tr_def [simp]

lemma flat_mapper_lawful: "lawful_mapper api flat_mapper flat_tr"
  unfolding lawful_mapper_def
proof (intro conjI)
  show "map_to_law api flat_mapper flat_tr"
    by (auto simp: map_to_law_def flat_mapper_def takes_frames_def split: option.splits if_splits)
  show "unmap_law flat_mapper flat_tr"
    by (auto simp: unmap_law_def flat_mapper_def split: option.splits)
  show "update_flags_law flat_mapper flat_tr"
    by (auto simp: update_flags_law_def flat_mapper_def split: option.splits)
  show "page_law flat_mapper" by (simp add: page_law_def flat_mapper_def)
qed

text \<open>Pages 5 and 6 of address space 0 are mapped and core 1 caches both.\<close>

definition vm_sample :: "(flat_tables, nat, nat) vm" where
  "vm_sample = \<lparr>tables = (\<lambda>h p. if h = 0 \<and> (p = 5 \<or> p = 6) then Some (p + 10, 3) else None),
     frame_allocator = Some (Bitmap bm_sample), next_eph_offset = 0, tlb_shootdown_addr = [0, 0],
     requested = (\<lambda>_. {}), in_service = (\<lambda>_. []), cr3 = (\<lambda>_. 0),
     tlb = (\<lambda>c p. if c = 1 \<and> (p = 5 \<or> p = 6) then Some (p + 10, 3) else None)\<rparr>"

lemma vm_sample_coherent: "coherent flat_tr vm_sample" "length (tlb_shootdown_addr vm_sample) = MAX_CORES"
  by (auto simp: coherent_def stale_def vm_sample_def MAX_CORES_def)

lemma mapped_remove:
  assumes "unmap_law mp tr" "tr (tables s) h p = Some (f, fl)" "length (tlb_shootdown_addr s) = MAX_CORES" "k < MAX_CORES"
  obtains m where "remove_mapping mp k h p s = (Ok f, shot mp k (page_start mp p) (s\<lparr>tables := m\<rparr>))" "tr m h p = None"
    "\<And>h' q. q \<noteq> p \<Longrightarrow> tr m h' q = tr (tables s) h' q"
proof -
  obtain m where m: "unmap_vm mp h p s = (Ok f, s\<lparr>tables := m\<rparr>)" "tr m h p = None"
    "\<And>h' q. q \<noteq> p \<Longrightarrow> tr m h' q = tr (tables s) h' q"
    using unmap_vm_mapped [where tr = tr, OF assms(1,2)] by blast
  show thesis
    by (rule that [OF _ m(2,3)]) (use m(1) tlb_shootdown_eq [OF assms(4), of "s\<lparr>tables := m\<rparr>" mp] assms(3) in \<open>simp add: remove_mapping_def bnd_def prog_simps\<close>)
qed


text \<open>C35: Two shootdowns in a row lose one: \<open>TLB_SHOOTDOWN_ADDR\<close> has one slot per core, so when a core removes two
  mappings before the other core takes the interrupt, the other core handles the second address only.  It goes on
  using the frame that was unmapped first, and no shootdown is pending for it any more.\<close>

theorem second_shootdown_overwrites_first:
  assumes "lawful_mapper api mp tr" "length (tlb_shootdown_addr s) = MAX_CORES" "k < MAX_CORES" "c < MAX_CORES" "c \<noteq> k"
    and "p \<noteq> q" "page_start mp q \<noteq> 0"
    and "tr (tables s) h p = Some (f, fl)" "tr (tables s) h q = Some (g, gl)" "cr3 s c = h" "tlb s c p = Some (f, fl)"
  shows "\<exists>s1 s2 s3. remove_mapping mp k h p s = (Ok f, s1) \<and> remove_mapping mp k h q s1 = (Ok g, s2)
     \<and> TLB_SHOOTDOWN_VECTOR \<in> requested s2 c \<and> tlb_shootdown_handler mp c (accept c s2) = (Ok (), s3)
     \<and> TLB_SHOOTDOWN_VECTOR \<notin> requested s3 c \<and> tlb_shootdown_addr s3 ! c = 0
     \<and> tlb s3 c p = Some (f, fl) \<and> tr (tables s3) h p = None"
proof -
  note laws = lawful_mapperD [OF assms(1)]
  have c: "c = 1 - k" using assms(3-5) by (auto simp: MAX_CORES_def less_2_cases_iff)
  obtain m where m: "remove_mapping mp k h p s = (Ok f, shot mp k (page_start mp p) (s\<lparr>tables := m\<rparr>))" "tr m h p = None"
    "\<And>h' r. r \<noteq> p \<Longrightarrow> tr m h' r = tr (tables s) h' r"
    using mapped_remove [where tr = tr, OF laws(2) assms(8,2,3)] by blast
  let ?s1 = "shot mp k (page_start mp p) (s\<lparr>tables := m\<rparr>)"
  have q: "tr (tables ?s1) h q = Some (g, gl)" using m(3) [of q h] assms(6,9) by simp
  obtain n where n: "remove_mapping mp k h q ?s1 = (Ok g, shot mp k (page_start mp q) (?s1\<lparr>tables := n\<rparr>))" "tr n h q = None"
    "\<And>h' r. r \<noteq> q \<Longrightarrow> tr n h' r = tr (tables ?s1) h' r"
    using mapped_remove [where tr = tr, OF laws(2) q _ assms(3)] assms(2) by auto
  let ?s2 = "shot mp k (page_start mp q) (?s1\<lparr>tables := n\<rparr>)" and ?s3 = "handled mp c (shot mp k (page_start mp q) (?s1\<lparr>tables := n\<rparr>))"
  have "tr n h p = None" using n(3) [of p h] m(2) assms(6) by simp
  moreover have "tlb_shootdown_handler mp c (accept c ?s2) = (Ok (), ?s3)" by (rule handler_eq) (use assms(2,4) in simp)
  moreover have "tlb ?s3 c p = Some (f, fl)" "tlb_shootdown_addr ?s3 ! c = 0"
    using assms(2,4-7,11) c by (simp_all add: handled_def Let_def invlpg_page [OF laws(4)] shot_tlb [OF laws(4)])
  ultimately show ?thesis using m(1) n(1) c by (intro exI conjI) (assumption | simp)+
qed

theorem second_shootdown_overwrites_first_witness:
  "\<exists>s1 s2 s3. remove_mapping flat_mapper 0 0 5 vm_sample = (Ok 15, s1) \<and> remove_mapping flat_mapper 0 0 6 s1 = (Ok 16, s2)
     \<and> tlb_shootdown_handler flat_mapper 1 (accept 1 s2) = (Ok (), s3) \<and> tlb s3 1 5 = Some (15, 3) \<and> tables s3 0 5 = None"
  using second_shootdown_overwrites_first [OF flat_mapper_lawful vm_sample_coherent(2), of 0 1 5 6 0 15 3 16 3]
  by (auto simp: MAX_CORES_def vm_sample_def flat_mapper_def)

section \<open>Mappings\<close>

lemma create_mapping_Ok:
  assumes "map_to_law api mp tr" "create_mapping api mp h p fl s = Some (Ok f, s')"
  obtains g g1 m g2 where "frame_allocator s = Some g" "global_allocate_frame api g = Some (Ok (Some f), g1)"
    "takes_frames api g1 g2" "s' = s\<lparr>tables := m, frame_allocator := Some g2\<rparr>" "tr (tables s) h p = None"
    "tr m h p = Some (f, case fl of Some x \<Rightarrow> x | None \<Rightarrow> PRESENT OR WRITABLE OR USER_ACCESSIBLE)"
    "\<And>h' q. q \<noteq> p \<Longrightarrow> tr m h' q = tr (tables s) h' q"
proof -
  let ?fl = "case fl of Some x \<Rightarrow> x | None \<Rightarrow> PRESENT OR WRITABLE OR USER_ACCESSIBLE"
  obtain a where a: "alloc_frame api (frame_allocator s) = Some (Ok (Some f), a)"
    "map_to_vm mp h p f ?fl (s\<lparr>frame_allocator := a\<rparr>) = Some (Ok (Ok ()), s')"
    using assms(2) by (auto simp: create_mapping_def alloc_frame_vm_def dbnd_Ok_iff dzoom_Ok_iff total_Ok_iff expect_Ok_iff prog_simps)
  obtain g g1 where g: "frame_allocator s = Some g" "global_allocate_frame api g = Some (Ok (Some f), g1)" "a = Some g1"
    using a(1) by (auto simp: alloc_frame_def with_generic_allocator_def split: option.splits)
  obtain m g2 where m: "map_to mp h p f ?fl (tables s, g1) = Some (Ok (), m, g2)" "s' = s\<lparr>tables := m, frame_allocator := Some g2\<rparr>"
    using a(2) g(3) by (auto simp: map_to_vm_def split: option.splits prod.splits if_splits)
  note law = assms(1) [unfolded map_to_law_def, rule_format, OF m(1)]
  show thesis by (rule that [OF g(1,2) _ m(2)]) (use law in auto)
qed

text \<open>What a lawful mapper takes from the bitmap allocator was free.\<close>

context phys_frames
begin

lemma bitmap_takes:
  assumes "takes_frames api (Bitmap a) g" "bm_inv a"
  shows "\<exists>a'. g = Bitmap a' \<and> bm_inv a' \<and> total_frames a' = total_frames a \<and> bm_clear_set a' \<subseteq> bm_clear_set a"
  using assms(1) unfolding takes_frames_def
proof (induction rule: rtranclp_induct)
  case base
  then show ?case using assms(2) by simp
next
  case (step y z)
  then obtain a1 r where a1: "y = Bitmap a1" "bm_inv a1" "total_frames a1 = total_frames a" "bm_clear_set a1 \<subseteq> bm_clear_set a"
    "global_allocate_frame api (Bitmap a1) = Some (Ok r, z)" by auto
  then obtain a2 where a2: "bm_allocate_frame api a1 = Some (Ok r, a2)" "z = Bitmap a2"
    unfolding global_allocate_Bitmap by blast
  from bm_allocate_Ok [OF phys_frames_axioms a1(2) a2(1)]
  have "bm_inv a2" "total_frames a2 = total_frames a1" "bm_clear_set a2 \<subseteq> bm_clear_set a1"
    using a1(2) by auto
  then show ?case using a1(3,4) a2(2) by auto
qed

lemma bitmap_dealloc_used:
  assumes "bm_inv a" "frame_no api f < total_frames a" "frame_no api f \<notin> bm_clear_set a"
  obtains a' where "global_deallocate_frame api f (Bitmap a) = (Ok (), Bitmap a')" "bm_inv a'" "total_frames a' = total_frames a"
    "bm_clear_set a' = insert (frame_no api f) (bm_clear_set a)"
proof -
  let ?a = "a\<lparr>free_count := free_count a + 1\<rparr>"
  have b: "bit (bitmap a ! (frame_no api f div 64)) (frame_no api f mod 64)"
    using assms(2,3) by (simp add: bm_clear_set_def bm_bit_def)
  then have "bitmap a ! (frame_no api f div 64) \<noteq> 0" by auto
  moreover have "bm_shape ?a" "frame_no api f < total_frames ?a" using assms by (simp_all add: bm_inv_def bm_shape_def)
  ultimately have "\<exists>a'. bm_deallocate_frame api f a = (Ok (), a') \<and> total_frames a' = total_frames a"
    by (simp add: bm_deallocate_frame_def bm_mark_frame_free_def bm_clear_bit_eq frame_no_def)
  then obtain a' where d: "bm_deallocate_frame api f a = (Ok (), a')" "total_frames a' = total_frames a" by blast
  show thesis
    by (rule that [of a']) (use d bm_deallocate_Ok [OF assms(1) d(1)] in \<open>simp_all add: global_deallocate_frame_def frame_no_def\<close>)
qed

end

lemma created_frame:
  assumes "phys_frames api" "bm_inv a" "global_allocate_frame api (Bitmap a) = Some (Ok (Some f), g1)" "takes_frames api g1 g2"
  obtains a2 where "g2 = Bitmap a2" "bm_inv a2" "frame_no api f \<in> bm_clear_set a" "frame_no api f < total_frames a2"
    "frame_no api f \<notin> bm_clear_set a2"
proof -
  obtain a1 where a1: "bm_allocate_frame api a = Some (Ok (Some f), a1)" "g1 = Bitmap a1"
    using assms(3) unfolding global_allocate_Bitmap by blast
  obtain i where i: "i \<in> bm_clear_set a" "frame_start api f = i * FRAME_SIZE" "bm_clear_set a1 = bm_clear_set a - {i}"
    "bm_inv a1" "total_frames a1 = total_frames a"
    using bm_allocate_Ok [OF assms(1,2) a1(1)] by blast
  then have o: "frame_no api f \<in> bm_clear_set a" "frame_no api f \<notin> bm_clear_set a1" "bm_inv a1" "total_frames a1 = total_frames a"
    by (simp_all add: frame_no_def FRAME_SIZE_def)
  obtain a2 where a2: "g2 = Bitmap a2" "bm_inv a2" "total_frames a2 = total_frames a1" "bm_clear_set a2 \<subseteq> bm_clear_set a1"
    using phys_frames.bitmap_takes [OF assms(1) assms(4) [unfolded a1(2)] o(3)] by blast
  show thesis by (rule that [OF a2(1,2) o(1)]) (use o a2 in \<open>auto simp: bm_clear_set_def\<close>)
qed

lemma remove_mapped_frame_eq:
  assumes "phys_frames api" "unmap_law mp tr" "tr (tables s) h p = Some (f, fl)" "length (tlb_shootdown_addr s) = MAX_CORES" "k < MAX_CORES"
    and "frame_allocator s = Some (Bitmap a)" "bm_inv a" "frame_no api f < total_frames a" "frame_no api f \<notin> bm_clear_set a"
  obtains m a' where "remove_mapped_frame api mp k h p s
      = Some (Ok (), shot mp k (page_start mp p) (s\<lparr>tables := m, frame_allocator := Some (Bitmap a')\<rparr>))"
    "tr m h p = None" "\<And>h' q. q \<noteq> p \<Longrightarrow> tr m h' q = tr (tables s) h' q"
    "bm_inv a'" "bm_clear_set a' = insert (frame_no api f) (bm_clear_set a)"
proof -
  obtain m where m: "unmap_vm mp h p s = (Ok f, s\<lparr>tables := m\<rparr>)" "tr m h p = None"
    "\<And>h' q. q \<noteq> p \<Longrightarrow> tr m h' q = tr (tables s) h' q"
    using unmap_vm_mapped [where tr = tr, OF assms(2,3)] by blast
  obtain a' where a': "global_deallocate_frame api f (Bitmap a) = (Ok (), Bitmap a')" "bm_inv a'"
    "bm_clear_set a' = insert (frame_no api f) (bm_clear_set a)"
    using phys_frames.bitmap_dealloc_used [OF assms(1,7-9)] by blast
  have "dealloc_frame_vm api f (s\<lparr>tables := m\<rparr>) = Some (Ok (), s\<lparr>tables := m, frame_allocator := Some (Bitmap a')\<rparr>)"
    using assms(6) a'(1) by (simp add: dealloc_frame_vm_def dzoom_def dealloc_frame_def with_generic_allocator_def)
  then have "remove_mapped_frame api mp k h p s
      = Some (Ok (), shot mp k (page_start mp p) (s\<lparr>tables := m, frame_allocator := Some (Bitmap a')\<rparr>))"
    using m(1) tlb_shootdown_eq [OF assms(5), of "s\<lparr>tables := m, frame_allocator := Some (Bitmap a')\<rparr>" mp] assms(4)
    by (simp add: remove_mapped_frame_def dbnd_def prog_simps)
  then show thesis by (rule that [OF _ m(2,3) a'(2,3)])
qed

text \<open>C33: A mapping is undone by removing it: \<open>create_mapping\<close> returns a frame that was free and maps the page, which was
  unmapped, to it with the given flags (by default present, writable and user accessible), no other page
  changes, and \<open>remove_mapped_frame\<close> afterwards succeeds, leaves the page unmapped and frees the frame.\<close>

theorem create_then_remove_mapping:
  assumes "phys_frames api" "lawful_mapper api mp tr" "frame_allocator s = Some (Bitmap a)" "bm_inv a"
    and "length (tlb_shootdown_addr s) = MAX_CORES" "k < MAX_CORES" "create_mapping api mp h p fl s = Some (Ok f, s')"
  shows "tr (tables s) h p = None \<and> f \<notin> bm_used api a
    \<and> tr (tables s') h p = Some (f, case fl of Some x \<Rightarrow> x | None \<Rightarrow> PRESENT OR WRITABLE OR USER_ACCESSIBLE)
    \<and> (\<forall>h' q. q \<noteq> p \<longrightarrow> tr (tables s') h' q = tr (tables s) h' q)
    \<and> (\<exists>a1 t a2. frame_allocator s' = Some (Bitmap a1) \<and> f \<in> bm_used api a1
         \<and> remove_mapped_frame api mp k h p s' = Some (Ok (), t) \<and> frame_allocator t = Some (Bitmap a2)
         \<and> f \<notin> bm_used api a2 \<and> tr (tables t) h p = None \<and> (\<forall>h' q. q \<noteq> p \<longrightarrow> tr (tables t) h' q = tr (tables s) h' q))"
proof -
  note laws = lawful_mapperD [OF assms(2)]
  obtain g g1 m g2 where c: "frame_allocator s = Some g" "global_allocate_frame api g = Some (Ok (Some f), g1)" "takes_frames api g1 g2"
    "s' = s\<lparr>tables := m, frame_allocator := Some g2\<rparr>" "tr (tables s) h p = None"
    "tr m h p = Some (f, case fl of Some x \<Rightarrow> x | None \<Rightarrow> PRESENT OR WRITABLE OR USER_ACCESSIBLE)"
    "\<And>h' q. q \<noteq> p \<Longrightarrow> tr m h' q = tr (tables s) h' q"
    by (rule create_mapping_Ok [where tr = tr, OF laws(1) assms(7)]) (rule that)
  then have g: "g = Bitmap a" using assms(3) by simp
  obtain a2 where a2: "g2 = Bitmap a2" "bm_inv a2" "frame_no api f \<in> bm_clear_set a" "frame_no api f < total_frames a2"
    "frame_no api f \<notin> bm_clear_set a2"
    by (rule created_frame [OF assms(1,4) c(2) [unfolded g] c(3)])
  have t: "tr (tables s') h p = Some (f, case fl of Some x \<Rightarrow> x | None \<Rightarrow> PRESENT OR WRITABLE OR USER_ACCESSIBLE)"
    using c(4,6) by simp
  have s': "length (tlb_shootdown_addr s') = MAX_CORES" "frame_allocator s' = Some (Bitmap a2)" using c(4) a2(1) assms(5) by simp_all
  obtain n a3 where n: "remove_mapped_frame api mp k h p s'
      = Some (Ok (), shot mp k (page_start mp p) (s'\<lparr>tables := n, frame_allocator := Some (Bitmap a3)\<rparr>))"
    "tr n h p = None" "\<And>h' q. q \<noteq> p \<Longrightarrow> tr n h' q = tr (tables s') h' q"
    "bm_inv a3" "bm_clear_set a3 = insert (frame_no api f) (bm_clear_set a2)"
    by (rule remove_mapped_frame_eq [where tr = tr, OF assms(1) laws(2) t s'(1) assms(6) s'(2) a2(2,4,5)]) (rule that)
  have u: "g \<in> bm_used api b \<longleftrightarrow> frame_no api g \<notin> bm_clear_set b" for g b by (simp add: bm_used_def frame_no_def)
  let ?t = "shot mp k (page_start mp p) (s'\<lparr>tables := n, frame_allocator := Some (Bitmap a3)\<rparr>)"
  have o: "\<forall>h' q. q \<noteq> p \<longrightarrow> tr (tables s') h' q = tr (tables s) h' q" using c(4,7) by simp
  have "\<forall>h' q. q \<noteq> p \<longrightarrow> tr (tables ?t) h' q = tr (tables s) h' q" using n(3) o by simp
  moreover have "frame_allocator ?t = Some (Bitmap a3)" "f \<notin> bm_used api a3" "f \<in> bm_used api a2" "f \<notin> bm_used api a" "tr (tables ?t) h p = None"
    using n(2,5) a2(3,5) by (simp_all add: u)
  ultimately show ?thesis using c(5) t o s'(2) n(1) by blast
qed

theorem create_then_remove_mapping_witness:
  "\<exists>s' t. create_mapping numbered_frames flat_mapper 0 7 None vm_sample = Some (Ok 1, s') \<and> tables s' 0 7 = Some (1, 7)
     \<and> remove_mapped_frame numbered_frames flat_mapper 0 0 7 s' = Some (Ok (), t) \<and> tables t 0 7 = None"
proof -
  let ?s = "vm_sample\<lparr>tables := (tables vm_sample)(0 := (tables vm_sample 0)(7 \<mapsto> (1, 7))), frame_allocator := Some (Bitmap bm_sample_next)\<rparr>"
  have "create_mapping numbered_frames flat_mapper 0 7 None vm_sample = Some (Ok 1, ?s)"
    using bm_sample_allocate
    by (simp add: create_mapping_def alloc_frame_vm_def dzoom_def alloc_frame_def with_generic_allocator_def dbnd_def prog_simps
        map_to_vm_def flat_mapper_def vm_sample_def PRESENT_def WRITABLE_def USER_ACCESSIBLE_def)
  moreover have "frame_allocator vm_sample = Some (Bitmap bm_sample)" by (simp add: vm_sample_def)
  ultimately show ?thesis
    using create_then_remove_mapping [OF numbered.phys_frames_axioms flat_mapper_lawful _ bm_sample_inv vm_sample_coherent(2) core_0] by fastforce
qed



end
