(* ===== verification/Heap_Init.thy ===== *)
theory Heap_Init
  imports Paging_Props
begin

text \<open>
  The set-up of memory at boot (\<open>memory/mod.rs\<close>, \<open>memory/heap.rs\<close>), across its components: the boot
  allocator provides the frames of the heap pages and of their tables, the mapper maps them, and the switch
  to the bitmap allocator keeps them.
\<close>

section \<open>Allocation from the boot allocator\<close>

lemma boot_takes_step:
  assumes "boot_inv api b" "next_idx b \<le> MAX_ALLOCATED_FRAMES" "global_allocate_frame api (Boot b) = Some (Ok r, g)"
  obtains b' where "g = Boot b'" "boot_inv api b'" "memory_map b' = memory_map b" "next_idx b' \<le> MAX_ALLOCATED_FRAMES"
    "boot_used api b' = (case r of Some f \<Rightarrow> insert f (boot_used api b) | None \<Rightarrow> boot_used api b)"
    "case r of Some f \<Rightarrow> f \<notin> boot_used api b | None \<Rightarrow> True"
proof -
  obtain b' where b': "boot_allocate_frame api b = (Ok r, b')" "g = Boot b'"
    using assms(3) unfolding global_allocate_Boot by blast
  show thesis
  proof (cases r)
    case None
    then show thesis using that [of b] b' boot_allocate_None [of api b b'] assms(1,2) by simp
  next
    case (Some f)
    have al: "boot_allocate_frame api b = (Ok (Some f), b')" using b'(1) Some by simp
    have "allocated_count b < MAX_ALLOCATED_FRAMES"
      using al by (auto simp: boot_allocate_frame_def Let_def split: res.splits option.splits if_splits)
    moreover have "allocated_count b = next_idx b" using assms(1) by (simp add: boot_inv_def)
    ultimately have "next_idx b' \<le> MAX_ALLOCATED_FRAMES" "memory_map b' = memory_map b"
      using boot_allocate_Ok(4) [OF al] by simp_all
    then show thesis using that [OF b'(2) boot_inv_allocate(1) [OF assms(1) al]] boot_inv_allocate(2,3) [OF assms(1) al] Some by simp
  qed
qed

lemma boot_takes:
  assumes "takes_frames api (Boot b) g" "boot_inv api b" "next_idx b \<le> MAX_ALLOCATED_FRAMES"
  obtains b' where "g = Boot b'" "boot_inv api b'" "memory_map b' = memory_map b" "next_idx b' \<le> MAX_ALLOCATED_FRAMES"
    "boot_used api b \<subseteq> boot_used api b'"
proof -
  have "\<exists>b'. g = Boot b' \<and> boot_inv api b' \<and> memory_map b' = memory_map b \<and> next_idx b' \<le> MAX_ALLOCATED_FRAMES
      \<and> boot_used api b \<subseteq> boot_used api b'"
    using assms(1) unfolding takes_frames_def
  proof (induction rule: rtranclp_induct)
    case base
    then show ?case using assms(2,3) by simp
  next
    case (step y z)
    then obtain c r where c: "y = Boot c" "boot_inv api c" "memory_map c = memory_map b" "next_idx c \<le> MAX_ALLOCATED_FRAMES"
      "boot_used api b \<subseteq> boot_used api c" "global_allocate_frame api (Boot c) = Some (Ok r, z)" by auto
    obtain d where d: "z = Boot d" "boot_inv api d" "memory_map d = memory_map c" "next_idx d \<le> MAX_ALLOCATED_FRAMES"
      "boot_used api d = (case r of Some f \<Rightarrow> insert f (boot_used api c) | None \<Rightarrow> boot_used api c)"
      "case r of Some f \<Rightarrow> f \<notin> boot_used api c | None \<Rightarrow> True"
      by (rule boot_takes_step [OF c(2,4,6)])
    have "boot_used api c \<subseteq> boot_used api d" using d(5) by (auto split: option.splits)
    then show ?case using c d by (intro exI [of _ d]) auto
  qed
  then show thesis using that by blast
qed

section \<open>The loop over the heap pages\<close>

text \<open>The pages done are mapped with the default flags, each to a frame of its own that the boot allocator handed
  out.\<close>

definition heap_mapped :: "('m, 'p, 'f) translation \<Rightarrow> 'm \<Rightarrow> 'f \<Rightarrow> 'p set \<Rightarrow> 'f set \<Rightarrow> bool" where
  "heap_mapped tr m h ps F \<longleftrightarrow>
     (\<forall>p \<in> ps. \<exists>f \<in> F. tr m h p = Some (f, PRESENT OR WRITABLE OR USER_ACCESSIBLE))
     \<and> (\<forall>p \<in> ps. \<forall>q \<in> ps. map_option fst (tr m h p) = map_option fst (tr m h q) \<longrightarrow> p = q)"

definition heap_inv :: "'f frame_api \<Rightarrow> ('m, 'p, 'f) translation \<Rightarrow> 'f \<Rightarrow> mem_entry list \<Rightarrow> 'p set \<Rightarrow> ('m, 'p, 'f) vm \<Rightarrow> bool" where
  "heap_inv api tr h mm ps s \<longleftrightarrow> (\<exists>b. frame_allocator s = Some (Boot b) \<and> boot_inv api b \<and> memory_map b = mm
     \<and> next_idx b \<le> MAX_ALLOCATED_FRAMES \<and> heap_mapped tr (tables s) h ps (boot_used api b))"

lemma heap_mapped_insert:
  assumes old: "heap_mapped tr m h ps F" and "tr m h p = None" "f \<notin> F" "F \<subseteq> G" "f \<in> G"
    and "tr n h p = Some (f, PRESENT OR WRITABLE OR USER_ACCESSIBLE)" and same: "\<And>q. q \<noteq> p \<Longrightarrow> tr n h q = tr m h q"
  shows "heap_mapped tr n h (insert p ps) G"
proof -
  have p: "p \<notin> ps" using old assms(2) unfolding heap_mapped_def by fastforce
  have o: "\<exists>g \<in> F. tr n h q = Some (g, PRESENT OR WRITABLE OR USER_ACCESSIBLE)" if "q \<in> ps" for q
    using old that same [of q] p unfolding heap_mapped_def by (metis (no_types, lifting))
  show ?thesis unfolding heap_mapped_def
  proof (intro conjI ballI impI)
    fix q assume "q \<in> insert p ps"
    then show "\<exists>g \<in> G. tr n h q = Some (g, PRESENT OR WRITABLE OR USER_ACCESSIBLE)"
      using o [of q] assms(4-6) by blast
  next
    fix q r assume q: "q \<in> insert p ps" and r: "r \<in> insert p ps" and eq: "map_option fst (tr n h q) = map_option fst (tr n h r)"
    have fresh: "map_option fst (tr n h x) \<noteq> map_option fst (tr n h p)" if "x \<in> ps" for x
      using o [OF that] assms(3,6) by auto
    have "map_option fst (tr m h q) = map_option fst (tr m h r)" if "q \<in> ps" "r \<in> ps"
      using eq same [of q] same [of r] that p by metis
    then show "q = r" using q r fresh [of q] fresh [of r] eq old unfolding heap_mapped_def by auto
  qed
qed

lemma heap_page:
  assumes "map_to_law api mp tr" "heap_inv api tr h mm ps s" "create_mapping api mp h p None s = Some (Ok f, s')"
  shows "heap_inv api tr h mm (insert p ps) s'"
proof -
  obtain b where b: "frame_allocator s = Some (Boot b)" "boot_inv api b" "memory_map b = mm" "next_idx b \<le> MAX_ALLOCATED_FRAMES"
    "heap_mapped tr (tables s) h ps (boot_used api b)"
    using assms(2) unfolding heap_inv_def by blast
  obtain g g1 m g2 where c: "frame_allocator s = Some g" "global_allocate_frame api g = Some (Ok (Some f), g1)" "takes_frames api g1 g2"
    "s' = s\<lparr>tables := m, frame_allocator := Some g2\<rparr>" "tr (tables s) h p = None"
    "tr m h p = Some (f, case None of Some x \<Rightarrow> x | None \<Rightarrow> PRESENT OR WRITABLE OR USER_ACCESSIBLE)"
    "\<And>h' q. q \<noteq> p \<Longrightarrow> tr m h' q = tr (tables s) h' q"
    by (rule create_mapping_Ok [where tr = tr, OF assms(1,3)]) (rule that)
  have g: "g = Boot b" using b(1) c(1) by simp
  obtain b1 where b1: "g1 = Boot b1" "boot_inv api b1" "memory_map b1 = memory_map b" "next_idx b1 \<le> MAX_ALLOCATED_FRAMES"
    "boot_used api b1 = (case Some f of Some f \<Rightarrow> insert f (boot_used api b) | None \<Rightarrow> boot_used api b)"
    "case Some f of Some f \<Rightarrow> f \<notin> boot_used api b | None \<Rightarrow> True"
    by (rule boot_takes_step [OF b(2,4) c(2) [unfolded g]])
  obtain b2 where b2: "g2 = Boot b2" "boot_inv api b2" "memory_map b2 = memory_map b1" "next_idx b2 \<le> MAX_ALLOCATED_FRAMES"
    "boot_used api b1 \<subseteq> boot_used api b2"
    by (rule boot_takes [OF c(3) [unfolded b1(1)] b1(2,4)])
  have "heap_mapped tr m h (insert p ps) (boot_used api b2)"
    by (rule heap_mapped_insert [where m = "tables s" and F = "boot_used api b" and f = f])
      (use b(5) c(5-7) b1(5,6) b2(5) in auto)
  then show ?thesis using b(3) b1(3) b2(1-4) c(4) unfolding heap_inv_def by auto
qed

lemma heap_pages:
  assumes "map_to_law api mp tr" "heap_inv api tr h mm ps s"
    "dfor_each xs (\<lambda>page. dbnd (create_mapping api mp h page None) (\<lambda>_. total (ret ()))) s = Some (Ok (), s')"
  shows "heap_inv api tr h mm (set xs \<union> ps) s'"
  using assms(2,3)
proof (induction xs arbitrary: ps s)
  case Nil
  then show ?case by (simp add: prog_simps)
next
  case (Cons x xs)
  obtain f s1 where "create_mapping api mp h x None s = Some (Ok f, s1)"
    "dfor_each xs (\<lambda>page. dbnd (create_mapping api mp h page None) (\<lambda>_. total (ret ()))) s1 = Some (Ok (), s')"
    using Cons.prems(2) by (auto simp: dbnd_Ok_iff total_Ok_iff basic_Ok_iff)
  from Cons.IH [OF heap_page [OF assms(1) Cons.prems(1) this(1)] this(2)] show ?case by simp
qed

section \<open>Memory at boot\<close>

lemma init_heap_Ok:
  assumes "init_heap api mp h s = Some (Ok (), s')"
  obtains p q t where "page_containing mp HEAP_START = Some p" "page_containing mp (HEAP_START + HEAP_SIZE - 1) = Some q"
    "dfor_each (page_range mp p q) (\<lambda>page. dbnd (create_mapping api mp h page None) (\<lambda>_. total (ret ()))) s = Some (Ok (), t)"
    "tables s' = tables t" "switch_allocator api (frame_allocator t) = (Ok (), frame_allocator s')"
proof -
  have e: "u64_add HEAP_START HEAP_SIZE = (Ok (HEAP_START + HEAP_SIZE) :: (unit, nat) res)"
    "u64_sub (HEAP_START + HEAP_SIZE) (Suc 0) = (Ok (HEAP_START + HEAP_SIZE - 1) :: (unit, nat) res)"
    by (simp_all add: HEAP_START_def HEAP_SIZE_def u64_add_def u64_sub_def)
  obtain p q t where o: "page_containing mp HEAP_START = Some p" "page_containing mp (HEAP_START + HEAP_SIZE - 1) = Some q"
    "dfor_each (page_range mp p q) (\<lambda>page. dbnd (create_mapping api mp h page None) (\<lambda>_. total (ret ()))) s = Some (Ok (), t)"
    "zoom frame_allocator (\<lambda>g s. s\<lparr>frame_allocator := g\<rparr>) (switch_allocator api) t = (Ok (), s')"
    using assms unfolding init_heap_def by (auto simp: dbnd_Ok_iff total_Ok_iff expect_Ok_iff e basic_Ok_iff)
  obtain r g where g: "switch_allocator api (frame_allocator t) = (r, g)" by fastforce
  have "r = Ok ()" "s' = t\<lparr>frame_allocator := g\<rparr>" using o(4) g by (auto simp: zoom_def)
  then show thesis using that [OF o(1-3)] g by simp
qed


text \<open>A memory map of 1025 usable pages, and a heap of one page.\<close>

definition heap_sample_map :: "mem_entry list" where
  "heap_sample_map = [\<lparr>me_base = 0, me_length = 1025 * 4096, me_type = USABLE\<rparr>]"

definition one_page_mapper :: "(flat_tables, nat, nat) mapper_api" where
  "one_page_mapper = flat_mapper\<lparr>page_range := (\<lambda>p q. [p])\<rparr>"

lemma one_page_mapper_fields [simp]:
  "page_containing one_page_mapper = page_containing flat_mapper" "page_start one_page_mapper = page_start flat_mapper"
  "page_range one_page_mapper p q = [p]" "map_to one_page_mapper = map_to flat_mapper"
  "unmap one_page_mapper = unmap flat_mapper" "update_flags one_page_mapper = update_flags flat_mapper"
  by (simp_all add: one_page_mapper_def)

lemma one_page_mapper_lawful: "lawful_mapper api one_page_mapper flat_tr"
  using flat_mapper_lawful [of api] unfolding lawful_mapper_def map_to_law_def unmap_law_def update_flags_law_def page_law_def
  unfolding one_page_mapper_fields .

lemma heap_sample_props:
  "limine_map heap_sample_map" "usable_pages heap_sample_map = [0..<1025]"
  by (simp_all add: limine_map_def usable_entries_def usable_pages_def region_pages_def heap_sample_map_def)

lemma heap_sample_init:
  fixes s :: "(flat_tables, nat, nat) vm"
  assumes "tables s = (\<lambda>_ _. None)"
  shows "\<exists>s'. memory_init numbered_frames one_page_mapper 0 (Some heap_sample_map) (Some (0, 0)) 4096 0 s = Some (Ok (), s')"
proof -
  let ?f = numbered_frames and ?p = "HEAP_START div 4096"
  let ?body = "\<lambda>page. dbnd (create_mapping ?f one_page_mapper 0 page None) (\<lambda>_. total (ret ()))"
  obtain b :: "nat boot_alloc" where b: "boot_init (Some heap_sample_map) (Some (0, 0)) 4096 = Ok b"
    by (simp add: boot_init_def u64_sub_def u64_add_def)
  note bi = numbered.boot_inv_init [OF heap_sample_props(1) b]
  obtain f b' where b': "boot_allocate_frame ?f b = (Ok (Some f), b')" "boot_inv ?f b'" "next_idx b' = 1" "memory_map b' = heap_sample_map"
    by (rule numbered.boot_allocate_next [of b]) (use bi heap_sample_props in \<open>auto simp: MAX_ALLOCATED_FRAMES_def\<close>)
  let ?t = "s\<lparr>tables := (\<lambda>_ _. None)(0 := [?p \<mapsto> (f, PRESENT OR WRITABLE OR USER_ACCESSIBLE)]), frame_allocator := Some (Boot b')\<rparr>"
  have "create_mapping ?f one_page_mapper 0 ?p None (s\<lparr>frame_allocator := Some (Boot b)\<rparr>) = Some (Ok f, ?t)"
    using b'(1) assms
    by (simp add: create_mapping_def alloc_frame_vm_def dzoom_def alloc_frame_def with_generic_allocator_def dbnd_def prog_simps
        global_allocate_frame_def map_to_vm_def) (simp add: flat_mapper_def dbnd_def prog_simps)
  then have loop: "dfor_each [?p] ?body (s\<lparr>frame_allocator := Some (Boot b)\<rparr>) = Some (Ok (), ?t)"
    by (simp add: dbnd_def total_def ret_def)
  have h: "limine_map (memory_map b')" "0 < next_idx b'" "next_idx b' < length (usable_pages (memory_map b'))"
    "\<forall>i < next_idx b'. usable_pages (memory_map b') ! i = usable_pages (memory_map b') ! 0 + i"
    using b'(3,4) heap_sample_props by simp_all
  obtain a where a: "switch_allocator ?f (Some (Boot b')) = (Ok (), Some (Bitmap a))"
    using numbered.switch_result [OF h(1) b'(2) h(2-4)] by blast
  have e: "u64_add HEAP_START HEAP_SIZE = (Ok (HEAP_START + HEAP_SIZE) :: (unit, nat) res)"
    "u64_sub (HEAP_START + HEAP_SIZE) (Suc 0) = (Ok (HEAP_START + HEAP_SIZE - 1) :: (unit, nat) res)"
    by (simp_all add: HEAP_START_def HEAP_SIZE_def u64_add_def u64_sub_def)
  have pc: "page_containing flat_mapper x = Some (x div 4096)" for x by (simp add: flat_mapper_def)
  have "init_heap ?f one_page_mapper 0 (s\<lparr>frame_allocator := Some (Boot b)\<rparr>) = Some (Ok (), ?t\<lparr>frame_allocator := Some (Bitmap a)\<rparr>)"
    unfolding init_heap_def using loop a
    by (simp add: dbnd_Ok_iff total_Ok_iff basic_Ok_iff expect_Ok_iff e pc zoom_def del: dfor_each.simps)
  then show ?thesis using b by (simp add: memory_init_def dbnd_def prog_simps)
qed


end
