(* ===== verification/Block_Device.thy ===== *)
theory Block_Device
  imports Kernel_Prelude
begin

text \<open>
  The block device interface (\<open>filesys/mod.rs\<close>) and the in-memory device
  (\<open>filesys/block/memory.rs\<close>).

  The trait object \<open>dyn BlockDevice\<close> is the record \<open>block_device\<close> of its four methods over a
  device state \<open>'d\<close>; a read takes the caller's buffer and gives back the filled one.  The locale
  \<open>lawful_device\<close> is what a file system may rely on: the device holds a list of 512-byte
  sectors, a read returns a sector and changes nothing, a write replaces one sector, and an access
  outside the device is an input/output error.
\<close>

section \<open>The interface\<close>

datatype fs_error = NotFound | AlreadyExists | InvalidName | IOError | NotSupported | InvalidOffset
  | NoSpace | DirectoryNotEmpty

record 'd block_device =
  bd_read :: "nat \<Rightarrow> bytes \<Rightarrow> ('d, fs_error, bytes) prog"
  bd_write :: "nat \<Rightarrow> bytes \<Rightarrow> ('d, fs_error, unit) prog"
  bd_block_size :: "'d \<Rightarrow> nat"
  bd_total_blocks :: "'d \<Rightarrow> nat"

section \<open>The in-memory device\<close>

record memory_device =
  blocks :: "bytes list"
  block_size :: nat

definition mem_new :: "nat \<Rightarrow> nat \<Rightarrow> memory_device" where
  "mem_new total_blocks bsize =
    \<lparr>blocks = map (\<lambda>_. replicate bsize 0) [0..<total_blocks], block_size = bsize\<rparr>"

definition validate_block :: "memory_device \<Rightarrow> nat \<Rightarrow> (fs_error, unit) res" where
  "validate_block dev block_num = (if block_num \<ge> length (blocks dev) then Err IOError else Ok ())"

definition validate_buffer :: "memory_device \<Rightarrow> bytes \<Rightarrow> (fs_error, unit) res" where
  "validate_buffer dev buf = (if length buf \<noteq> block_size dev then Err IOError else Ok ())"

definition mem_read_block :: "nat \<Rightarrow> bytes \<Rightarrow> (memory_device, fs_error, bytes) prog" where
  "mem_read_block block_num buf dev =
    bnd (lift_res (validate_block dev block_num)) (\<lambda>_.
    bnd (lift_res (validate_buffer dev buf)) (\<lambda>_.
    bnd (lift_res (index_at (blocks dev) block_num)) (\<lambda>b.
    lift_res (copy_from_slice buf b)))) dev"

definition mem_write_block :: "nat \<Rightarrow> bytes \<Rightarrow> (memory_device, fs_error, unit) prog" where
  "mem_write_block block_num buf dev =
    bnd (lift_res (validate_block dev block_num)) (\<lambda>_.
    bnd (lift_res (validate_buffer dev buf)) (\<lambda>_.
    bnd (lift_res (index_at (blocks dev) block_num)) (\<lambda>b.
    bnd (lift_res (copy_from_slice b buf)) (\<lambda>b'.
    modify_st (\<lambda>dev. dev\<lparr>blocks := (blocks dev)[block_num := b']\<rparr>))))) dev"

definition mem_total_blocks :: "memory_device \<Rightarrow> nat" where
  "mem_total_blocks dev = length (blocks dev)"

definition mem_ops :: "memory_device block_device" where
  "mem_ops = \<lparr>bd_read = mem_read_block, bd_write = mem_write_block,
     bd_block_size = block_size, bd_total_blocks = mem_total_blocks\<rparr>"

text \<open>Every block of the device has the device's block size.\<close>

definition mem_ok :: "memory_device \<Rightarrow> bool" where
  "mem_ok dev \<longleftrightarrow> (\<forall>b \<in> set (blocks dev). length b = block_size dev)"

lemma mem_ok_new [simp]: "mem_ok (mem_new n b)"
  by (auto simp: mem_ok_def mem_new_def)

lemma mem_read_Ok:
  assumes "mem_ok dev" "length buf = block_size dev"
  shows "mem_read_block n buf dev =
    (if n < length (blocks dev) then Ok (blocks dev ! n) else Err IOError, dev)"
  using assms by (auto simp: mem_read_block_def validate_block_def validate_buffer_def mem_ok_def
      bnd_def lift_res_def index_at_def copy_from_slice_def)

lemma mem_write_Ok:
  assumes "mem_ok dev" "length buf = block_size dev"
  shows "mem_write_block n buf dev =
    (if n < length (blocks dev) then (Ok (), dev\<lparr>blocks := (blocks dev)[n := buf]\<rparr>)
     else (Err IOError, dev))"
  using assms by (auto simp: mem_write_block_def validate_block_def validate_buffer_def mem_ok_def
      bnd_def lift_res_def index_at_def copy_from_slice_def modify_st_def)

lemma mem_bad_buffer:
  assumes "length buf \<noteq> block_size dev"
  shows "mem_read_block n buf dev = (Err IOError, dev)" "mem_write_block n buf dev = (Err IOError, dev)"
  using assms by (auto simp: mem_read_block_def mem_write_block_def validate_block_def validate_buffer_def
      bnd_def lift_res_def)

lemma mem_ok_update: "mem_ok dev \<Longrightarrow> length buf = block_size dev \<Longrightarrow> mem_ok (dev\<lparr>blocks := (blocks dev)[n := buf]\<rparr>)"
  by (auto simp: mem_ok_def dest!: set_update_subset_insert [THEN subsetD])

section \<open>The contract of a sector device\<close>

locale lawful_device =
  fixes ops :: "'d block_device"
    and content :: "'d \<Rightarrow> bytes list"
    and dinv :: "'d \<Rightarrow> bool"
  assumes sectors: "dinv d \<Longrightarrow> b \<in> set (content d) \<Longrightarrow> length b = 512"
    and read_in: "dinv d \<Longrightarrow> n < length (content d) \<Longrightarrow> length buf = 512 \<Longrightarrow>
        \<exists>d'. bd_read ops n buf d = (Ok (content d ! n), d') \<and> content d' = content d \<and> dinv d'"
    and write_in: "dinv d \<Longrightarrow> n < length (content d) \<Longrightarrow> length buf = 512 \<Longrightarrow>
        \<exists>d'. bd_write ops n buf d = (Ok (), d') \<and> content d' = (content d)[n := buf] \<and> dinv d'"
    and read_out: "dinv d \<Longrightarrow> length (content d) \<le> n \<or> length buf \<noteq> 512 \<Longrightarrow>
        \<exists>d'. bd_read ops n buf d = (Err IOError, d') \<and> content d' = content d \<and> dinv d'"
    and write_out: "dinv d \<Longrightarrow> length (content d) \<le> n \<or> length buf \<noteq> 512 \<Longrightarrow>
        \<exists>d'. bd_write ops n buf d = (Err IOError, d') \<and> content d' = content d \<and> dinv d'"
    and block_size_law: "dinv d \<Longrightarrow> bd_block_size ops d = 512"
    and total_law: "dinv d \<Longrightarrow> bd_total_blocks ops d = length (content d)"
begin

text \<open>A lawful device behaves as the in-memory device that holds the same sectors.\<close>

definition rep :: "'d \<Rightarrow> memory_device \<Rightarrow> bool" where
  "rep d m \<longleftrightarrow> dinv d \<and> m = \<lparr>blocks = content d, block_size = 512\<rparr>"

lemma rep_ok: "rep d m \<Longrightarrow> mem_ok m"
  by (auto simp: rep_def mem_ok_def sectors)

lemma sim_read: "sim rep (bd_read ops n buf) (bd_read mem_ops n buf)"
proof (rule simI)
  fix d m assume rep: "rep d m"
  then have m: "m = \<lparr>blocks = content d, block_size = 512\<rparr>" "dinv d" by (auto simp: rep_def)
  have q: "bd_read mem_ops n buf m = (if n < length (content d) \<and> length buf = 512
      then Ok (content d ! n) else Err IOError, m)"
    using mem_read_Ok [OF rep_ok [OF rep], of buf n] mem_bad_buffer(1) [of buf m n]
    by (cases "length buf = 512") (auto simp: m(1) mem_ops_def)
  show "fst (bd_read ops n buf d) = fst (bd_read mem_ops n buf m)
      \<and> rep (snd (bd_read ops n buf d)) (snd (bd_read mem_ops n buf m))"
  proof (cases "n < length (content d) \<and> length buf = 512")
    case True
    then obtain d' where "bd_read ops n buf d = (Ok (content d ! n), d')" "content d' = content d" "dinv d'"
      using read_in [OF m(2)] by blast
    with True show ?thesis unfolding q using m(1) by (simp add: rep_def)
  next
    case False
    then obtain d' where "bd_read ops n buf d = (Err IOError, d')" "content d' = content d" "dinv d'"
      using read_out [OF m(2), of n buf] by auto
    with False show ?thesis unfolding q using m(1) by (auto simp: rep_def)
  qed
qed

lemma sim_write: "sim rep (bd_write ops n buf) (bd_write mem_ops n buf)"
proof (rule simI)
  fix d m assume rep: "rep d m"
  then have m: "m = \<lparr>blocks = content d, block_size = 512\<rparr>" "dinv d" by (auto simp: rep_def)
  have q: "bd_write mem_ops n buf m = (if n < length (content d) \<and> length buf = 512
      then (Ok (), m\<lparr>blocks := (content d)[n := buf]\<rparr>) else (Err IOError, m))"
    using mem_write_Ok [OF rep_ok [OF rep], of buf n] mem_bad_buffer(2) [of buf m n]
    by (cases "length buf = 512") (auto simp: m(1) mem_ops_def)
  show "fst (bd_write ops n buf d) = fst (bd_write mem_ops n buf m)
      \<and> rep (snd (bd_write ops n buf d)) (snd (bd_write mem_ops n buf m))"
  proof (cases "n < length (content d) \<and> length buf = 512")
    case True
    then obtain d' where "bd_write ops n buf d = (Ok (), d')" "content d' = (content d)[n := buf]" "dinv d'"
      using write_in [OF m(2)] by blast
    with True show ?thesis unfolding q using m(1) by (simp add: rep_def)
  next
    case False
    then obtain d' where "bd_write ops n buf d = (Err IOError, d')" "content d' = content d" "dinv d'"
      using write_out [OF m(2), of n buf] by auto
    with False show ?thesis unfolding q using m(1) by (auto simp: rep_def)
  qed
qed

lemma rep_sizes: "rep d m \<Longrightarrow> bd_block_size ops d = bd_block_size mem_ops m"
  "rep d m \<Longrightarrow> bd_total_blocks ops d = bd_total_blocks mem_ops m"
  by (simp_all add: rep_def block_size_law total_law mem_ops_def mem_total_blocks_def)

end

text \<open>The in-memory device with 512-byte blocks satisfies the contract.\<close>

definition mem_sectors :: "memory_device \<Rightarrow> bool" where
  "mem_sectors dev \<longleftrightarrow> mem_ok dev \<and> block_size dev = 512"

lemma mem_read_sector:
  assumes "mem_sectors dev"
  shows "mem_read_block n buf dev =
    (if n < length (blocks dev) \<and> length buf = 512 then Ok (blocks dev ! n) else Err IOError, dev)"
  using assms mem_read_Ok [of dev buf n] mem_bad_buffer(1) [of buf dev n]
  by (cases "length buf = 512") (simp_all add: mem_sectors_def)

lemma mem_write_sector:
  assumes "mem_sectors dev"
  shows "mem_write_block n buf dev =
    (if n < length (blocks dev) \<and> length buf = 512 then (Ok (), dev\<lparr>blocks := (blocks dev)[n := buf]\<rparr>)
     else (Err IOError, dev))"
  using assms mem_write_Ok [of dev buf n] mem_bad_buffer(2) [of buf dev n]
  by (cases "length buf = 512") (simp_all add: mem_sectors_def)

lemma mem_sectors_update:
  "mem_sectors dev \<Longrightarrow> length buf = 512 \<Longrightarrow> mem_sectors (dev\<lparr>blocks := (blocks dev)[n := buf]\<rparr>)"
  using mem_ok_update by (simp add: mem_sectors_def)

interpretation memory: lawful_device mem_ops blocks mem_sectors
proof unfold_locales
  fix d :: memory_device and n :: nat and buf b :: bytes
  assume d: "mem_sectors d"
  show "length b = 512" if "b \<in> set (blocks d)" using d that by (simp add: mem_sectors_def mem_ok_def)
  show "\<exists>d'. bd_read mem_ops n buf d = (Ok (blocks d ! n), d') \<and> blocks d' = blocks d \<and> mem_sectors d'"
    if "n < length (blocks d)" "length buf = 512"
    using d that by (simp add: mem_ops_def mem_read_sector)
  show "\<exists>d'. bd_write mem_ops n buf d = (Ok (), d') \<and> blocks d' = (blocks d)[n := buf] \<and> mem_sectors d'"
    if "n < length (blocks d)" "length buf = 512"
    using d that by (simp add: mem_ops_def mem_write_sector mem_sectors_update)
  show "\<exists>d'. bd_read mem_ops n buf d = (Err IOError, d') \<and> blocks d' = blocks d \<and> mem_sectors d'"
    if "length (blocks d) \<le> n \<or> length buf \<noteq> 512"
    using d that by (auto simp: mem_ops_def mem_read_sector)
  show "\<exists>d'. bd_write mem_ops n buf d = (Err IOError, d') \<and> blocks d' = blocks d \<and> mem_sectors d'"
    if "length (blocks d) \<le> n \<or> length buf \<noteq> 512"
    using d that by (auto simp: mem_ops_def mem_write_sector)
  show "bd_block_size mem_ops d = 512" "bd_total_blocks mem_ops d = length (blocks d)"
    using d by (simp_all add: mem_ops_def mem_sectors_def mem_total_blocks_def)
qed

end
