(* ===== verification/Fat16_Types.thy ===== *)
theory Fat16_Types
  imports Block_Device
begin

text \<open>
  The on-disk data of the FAT16 driver (\<open>filesys/fat16/constants.rs\<close>, \<open>fat_entry.rs\<close>,
  \<open>boot_sector.rs\<close>, \<open>dir_entry.rs\<close>).  The packed structs are read and written through raw pointers,
  so each has an encoding into bytes in field order, little-endian as on x86-64, and a decoding;
  they are inverse to each other.  A \<open>&str\<close> is its list of UTF-8 bytes.
\<close>

section \<open>Constants\<close>

definition SECTOR_SIZE :: nat where "SECTOR_SIZE = 512"
definition FAT_ENTRY_SIZE :: nat where "FAT_ENTRY_SIZE = 2"
definition ROOT_DIR_ENTRIES :: nat where "ROOT_DIR_ENTRIES = 512"
definition MAX_FILENAME_LENGTH :: nat where "MAX_FILENAME_LENGTH = 8"
definition MAX_EXTENSION_LENGTH :: nat where "MAX_EXTENSION_LENGTH = 3"
definition ATTR_READ_ONLY :: u8 where "ATTR_READ_ONLY = 0x01"
definition ATTR_DIRECTORY :: u8 where "ATTR_DIRECTORY = 0x10"
definition ATTR_ARCHIVE :: u8 where "ATTR_ARCHIVE = 0x20"
definition DELETED_ENTRY_MARKER :: u8 where "DELETED_ENTRY_MARKER = 0xE5"

text \<open>\<open>size_of::<DirEntry83>()\<close> and \<open>size_of::<BootSector>()\<close> of the packed layouts.\<close>

definition DIR_ENTRY_BYTES :: nat where "DIR_ENTRY_BYTES = 32"
definition BOOT_SECTOR_BYTES :: nat where "BOOT_SECTOR_BYTES = 62"

lemmas fat_consts = SECTOR_SIZE_def FAT_ENTRY_SIZE_def ROOT_DIR_ENTRIES_def MAX_FILENAME_LENGTH_def
  MAX_EXTENSION_LENGTH_def DIR_ENTRY_BYTES_def BOOT_SECTOR_BYTES_def

section \<open>FAT entries\<close>

record fat_entry =
  fe_cluster :: u16

definition fe_is_end_of_chain :: "fat_entry \<Rightarrow> bool" where
  "fe_is_end_of_chain e \<longleftrightarrow> fe_cluster e \<ge> 0xFFF8"

definition fe_is_free :: "fat_entry \<Rightarrow> bool" where
  "fe_is_free e \<longleftrightarrow> fe_cluster e = 0"

section \<open>The boot sector\<close>

record boot_sector =
  jump_boot :: bytes
  oem_name :: bytes
  bytes_per_sector :: u16
  sectors_per_cluster :: u8
  reserved_sectors :: u16
  fat_count :: u8
  root_dir_entries :: u16
  total_sectors_16 :: u16
  media_type :: u8
  sectors_per_fat :: u16
  sectors_per_track :: u16
  head_count :: u16
  hidden_sectors :: u32
  total_sectors_32 :: u32
  drive_number :: u8
  reserved1 :: u8
  boot_signature :: u8
  volume_id :: u32
  volume_label :: bytes
  fs_type :: bytes

definition le16_at :: "bytes \<Rightarrow> nat \<Rightarrow> u16" where
  "le16_at bs k = u16_from_le (bs ! k) (bs ! (k + 1))"

definition le32_at :: "bytes \<Rightarrow> nat \<Rightarrow> u32" where
  "le32_at bs k = u32_from_le (bs ! k) (bs ! (k + 1)) (bs ! (k + 2)) (bs ! (k + 3))"

definition encode_boot_sector :: "boot_sector \<Rightarrow> bytes" where
  "encode_boot_sector b =
     jump_boot b @ oem_name b @ u16_to_le (bytes_per_sector b) @ [sectors_per_cluster b]
     @ u16_to_le (reserved_sectors b) @ [fat_count b] @ u16_to_le (root_dir_entries b)
     @ u16_to_le (total_sectors_16 b) @ [media_type b] @ u16_to_le (sectors_per_fat b)
     @ u16_to_le (sectors_per_track b) @ u16_to_le (head_count b) @ u32_to_le (hidden_sectors b)
     @ u32_to_le (total_sectors_32 b) @ [drive_number b, reserved1 b, boot_signature b]
     @ u32_to_le (volume_id b) @ volume_label b @ fs_type b"

definition decode_boot_sector :: "bytes \<Rightarrow> boot_sector" where
  "decode_boot_sector bs = \<lparr>
     jump_boot = take 3 bs, oem_name = take 8 (drop 3 bs), bytes_per_sector = le16_at bs 11,
     sectors_per_cluster = bs ! 13, reserved_sectors = le16_at bs 14, fat_count = bs ! 16,
     root_dir_entries = le16_at bs 17, total_sectors_16 = le16_at bs 19, media_type = bs ! 21,
     sectors_per_fat = le16_at bs 22, sectors_per_track = le16_at bs 24, head_count = le16_at bs 26,
     hidden_sectors = le32_at bs 28, total_sectors_32 = le32_at bs 32, drive_number = bs ! 36,
     reserved1 = bs ! 37, boot_signature = bs ! 38, volume_id = le32_at bs 39,
     volume_label = take 11 (drop 43 bs), fs_type = take 8 (drop 54 bs)\<rparr>"

text \<open>The arrays of the struct have their declared lengths.\<close>

definition boot_sector_wf :: "boot_sector \<Rightarrow> bool" where
  "boot_sector_wf b \<longleftrightarrow> length (jump_boot b) = 3 \<and> length (oem_name b) = 8
     \<and> length (volume_label b) = 11 \<and> length (fs_type b) = 8"

section \<open>Directory entries\<close>

record dir_entry83 =
  de_name :: bytes
  de_ext :: bytes
  de_attributes :: u8
  de_reserved :: bytes
  de_time :: u16
  de_date :: u16
  de_start_cluster :: u16
  de_file_size :: u32

definition encode_dir_entry :: "dir_entry83 \<Rightarrow> bytes" where
  "encode_dir_entry e =
     de_name e @ de_ext e @ [de_attributes e] @ de_reserved e @ u16_to_le (de_time e)
     @ u16_to_le (de_date e) @ u16_to_le (de_start_cluster e) @ u32_to_le (de_file_size e)"

definition decode_dir_entry :: "bytes \<Rightarrow> dir_entry83" where
  "decode_dir_entry bs = \<lparr>
     de_name = take 8 bs, de_ext = take 3 (drop 8 bs), de_attributes = bs ! 11,
     de_reserved = take 10 (drop 12 bs), de_time = le16_at bs 22, de_date = le16_at bs 24,
     de_start_cluster = le16_at bs 26, de_file_size = le32_at bs 28\<rparr>"

definition dir_entry_wf :: "dir_entry83 \<Rightarrow> bool" where
  "dir_entry_wf e \<longleftrightarrow> length (de_name e) = 8 \<and> length (de_ext e) = 3 \<and> length (de_reserved e) = 10"

text \<open>\<open>DirEntry83::new_file\<close> and \<open>new_directory\<close>: names longer than their field are cut off.\<close>

definition de_new_file :: "bytes \<Rightarrow> bytes \<Rightarrow> u16 \<Rightarrow> dir_entry83" where
  "de_new_file name ext start_cluster = \<lparr>
     de_name = buf_splice (replicate 8 0x20) 0 (take (min (length name) 8) name),
     de_ext = buf_splice (replicate 3 0x20) 0 (take (min (length ext) 3) ext),
     de_attributes = ATTR_ARCHIVE, de_reserved = replicate 10 0, de_time = 0, de_date = 0,
     de_start_cluster = start_cluster, de_file_size = 0\<rparr>"

definition de_new_directory :: "bytes \<Rightarrow> u16 \<Rightarrow> dir_entry83" where
  "de_new_directory name start_cluster =
    (de_new_file name [] start_cluster)\<lparr>de_attributes := ATTR_DIRECTORY\<rparr>"

definition de_is_deleted :: "dir_entry83 \<Rightarrow> bool" where
  "de_is_deleted e \<longleftrightarrow> de_name e ! 0 = DELETED_ENTRY_MARKER"

definition de_is_free :: "dir_entry83 \<Rightarrow> bool" where
  "de_is_free e \<longleftrightarrow> de_name e ! 0 = 0"

definition de_is_directory :: "dir_entry83 \<Rightarrow> bool" where
  "de_is_directory e \<longleftrightarrow> de_attributes e AND ATTR_DIRECTORY \<noteq> 0"

subsection \<open>Names\<close>

text \<open>The validity check of \<open>core::str::from_utf8\<close>: well-formed UTF-8, with no overlong forms and no
  surrogates.\<close>

definition utf8_cont :: "u8 \<Rightarrow> bool" where
  "utf8_cont b \<longleftrightarrow> 0x80 \<le> b \<and> b \<le> 0xBF"

fun utf8_valid :: "bytes \<Rightarrow> bool" where
  "utf8_valid [] = True"
| "utf8_valid (b0 # bs) =
    (if b0 < 0x80 then utf8_valid bs
     else case bs of
       [] \<Rightarrow> False
     | b1 # bs1 \<Rightarrow>
         if 0xC2 \<le> b0 \<and> b0 \<le> 0xDF then utf8_cont b1 \<and> utf8_valid bs1
         else (case bs1 of
           [] \<Rightarrow> False
         | b2 # bs2 \<Rightarrow>
             if 0xE0 \<le> b0 \<and> b0 \<le> 0xEF
             then utf8_cont b1 \<and> utf8_cont b2 \<and> (b0 = 0xE0 \<longrightarrow> 0xA0 \<le> b1) \<and> (b0 = 0xED \<longrightarrow> b1 \<le> 0x9F)
                  \<and> utf8_valid bs2
             else (case bs2 of
               [] \<Rightarrow> False
             | b3 # bs3 \<Rightarrow>
                 0xF0 \<le> b0 \<and> b0 \<le> 0xF4 \<and> utf8_cont b1 \<and> utf8_cont b2 \<and> utf8_cont b3
                 \<and> (b0 = 0xF0 \<longrightarrow> 0x90 \<le> b1) \<and> (b0 = 0xF4 \<longrightarrow> b1 \<le> 0x8F) \<and> utf8_valid bs3)))"

text \<open>\<open>iter().position(|&x| x == b)\<close> and \<open>str::rfind\<close> for a one-byte character.\<close>

fun byte_position :: "u8 \<Rightarrow> bytes \<Rightarrow> nat option" where
  "byte_position b [] = None"
| "byte_position b (x # xs) = (if x = b then Some 0 else map_option Suc (byte_position b xs))"

fun rfind_byte :: "u8 \<Rightarrow> bytes \<Rightarrow> nat option" where
  "rfind_byte b [] = None"
| "rfind_byte b (x # xs) =
    (case rfind_byte b xs of
       Some p \<Rightarrow> Some (Suc p)
     | None \<Rightarrow> if x = b then Some 0 else None)"

definition from_utf8_or_empty :: "bytes \<Rightarrow> bytes" where
  "from_utf8_or_empty bs = (if utf8_valid bs then bs else [])"

definition de_get_name :: "dir_entry83 \<Rightarrow> bytes" where
  "de_get_name e =
    (let name_end = (case byte_position 0x20 (de_name e) of Some p \<Rightarrow> p | None \<Rightarrow> 8);
         ext_end = (case byte_position 0x20 (de_ext e) of Some p \<Rightarrow> p | None \<Rightarrow> 3);
         name = from_utf8_or_empty (take name_end (de_name e));
         ext = from_utf8_or_empty (take ext_end (de_ext e))
     in if ext_end > 0 then name @ [0x2E] @ ext else name)"

text \<open>\<open>path.split('/').filter(|s| !s.is_empty())\<close>.\<close>

fun split_slash :: "bytes \<Rightarrow> bytes list" where
  "split_slash [] = [[]]"
| "split_slash (b # bs) =
    (if b = 0x2F then [] # split_slash bs
     else (case split_slash bs of
             [] \<Rightarrow> [[b]]
           | c # cs \<Rightarrow> (b # c) # cs))"

definition path_components :: "bytes \<Rightarrow> bytes list" where
  "path_components path = filter (\<lambda>s. s \<noteq> []) (split_slash path)"

text \<open>The split of a path at its last slash, and of a name at its last dot.\<close>

definition split_parent :: "bytes \<Rightarrow> bytes \<times> bytes" where
  "split_parent path =
    (case rfind_byte 0x2F path of
       Some pos \<Rightarrow> (take pos path, drop (pos + 1) path)
     | None \<Rightarrow> ([], path))"

definition split_extension :: "bytes \<Rightarrow> bytes \<times> bytes" where
  "split_extension name =
    (case rfind_byte 0x2E name of
       Some pos \<Rightarrow> (take pos name, drop (pos + 1) name)
     | None \<Rightarrow> (name, []))"

section \<open>Encodings are inverse to decodings\<close>

lemma length_encode_dir_entry [simp]: "dir_entry_wf e \<Longrightarrow> length (encode_dir_entry e) = 32"
  by (simp add: encode_dir_entry_def dir_entry_wf_def)

lemma length_encode_boot_sector [simp]: "boot_sector_wf b \<Longrightarrow> length (encode_boot_sector b) = 62"
  by (simp add: encode_boot_sector_def boot_sector_wf_def)

lemma le16_at_append: "le16_at (xs @ ys) k = (if length xs \<le> k then le16_at ys (k - length xs)
    else if k + 1 < length xs then le16_at xs k else le16_at (xs @ ys) k)"
  by (auto simp: le16_at_def nth_append Suc_diff_le)

lemma le16_at_encoded [simp]: "le16_at (u16_to_le w @ ys) 0 = w"
  using u16_from_to_le [of w] by (simp add: le16_at_def nth_append)

lemma le32_at_encoded [simp]: "le32_at (u32_to_le w @ ys) 0 = w" "le32_at (u32_to_le w) 0 = w"
  using u32_from_to_le [of w] by (simp_all add: le32_at_def nth_append numeral_2_eq_2 numeral_3_eq_3)

lemma le16_at_drop: "k \<le> length bs \<Longrightarrow> le16_at bs k = le16_at (drop k bs) 0"
  by (simp add: le16_at_def)

lemma le32_at_drop: "k \<le> length bs \<Longrightarrow> le32_at bs k = le32_at (drop k bs) 0"
  by (simp add: le32_at_def)

lemma nth_drop_head: "k < length bs \<Longrightarrow> bs ! k = hd (drop k bs)"
  by (simp add: hd_drop_conv_nth)

lemma decode_encode_dir_entry:
  assumes "dir_entry_wf e"
  shows "decode_dir_entry (encode_dir_entry e @ rest) = e"
proof -
  let ?bs = "encode_dir_entry e @ rest"
  have l: "length (de_name e) = 8" "length (de_ext e) = 3" "length (de_reserved e) = 10"
    using assms by (simp_all add: dir_entry_wf_def)
  have len: "32 \<le> length ?bs" using assms by simp
  have f: "le16_at ?bs 22 = de_time e" "le16_at ?bs 24 = de_date e" "le16_at ?bs 26 = de_start_cluster e"
    "le32_at ?bs 28 = de_file_size e" "?bs ! 11 = de_attributes e"
    using l len by (simp_all add: le16_at_drop [of _ ?bs] le32_at_drop [of _ ?bs] nth_drop_head [of _ ?bs],
        simp_all add: encode_dir_entry_def)
  have "take 8 ?bs = de_name e" "take 3 (drop 8 ?bs) = de_ext e" "take 10 (drop 12 ?bs) = de_reserved e"
    using l by (simp_all add: encode_dir_entry_def)
  with f show ?thesis by (simp add: decode_dir_entry_def)
qed

lemma decode_encode_boot_sector:
  assumes "boot_sector_wf b"
  shows "decode_boot_sector (encode_boot_sector b @ rest) = b"
proof -
  let ?bs = "encode_boot_sector b @ rest"
  have l: "length (jump_boot b) = 3" "length (oem_name b) = 8" "length (volume_label b) = 11"
    "length (fs_type b) = 8" using assms by (simp_all add: boot_sector_wf_def)
  have len: "62 \<le> length ?bs" using assms by simp
  have "le16_at ?bs 11 = bytes_per_sector b" "le16_at ?bs 14 = reserved_sectors b"
    "le16_at ?bs 17 = root_dir_entries b" "le16_at ?bs 19 = total_sectors_16 b"
    "le16_at ?bs 22 = sectors_per_fat b" "le16_at ?bs 24 = sectors_per_track b"
    "le16_at ?bs 26 = head_count b" "le32_at ?bs 28 = hidden_sectors b"
    "le32_at ?bs 32 = total_sectors_32 b" "le32_at ?bs 39 = volume_id b"
    using l len by (simp_all add: le16_at_drop [of _ ?bs] le32_at_drop [of _ ?bs],
        simp_all add: encode_boot_sector_def)
  moreover have "?bs ! 13 = sectors_per_cluster b" "?bs ! 16 = fat_count b" "?bs ! 21 = media_type b"
    "?bs ! 36 = drive_number b" "?bs ! 37 = reserved1 b" "?bs ! 38 = boot_signature b"
    using l len by (simp_all add: nth_drop_head [of _ ?bs], simp_all add: encode_boot_sector_def)
  moreover have "take 3 ?bs = jump_boot b" "take 8 (drop 3 ?bs) = oem_name b"
    "take 11 (drop 43 ?bs) = volume_label b" "take 8 (drop 54 ?bs) = fs_type b"
    using l by (simp_all add: encode_boot_sector_def)
  ultimately show ?thesis by (simp add: decode_boot_sector_def)
qed

lemma take_chunk: "i + n \<le> length bs \<Longrightarrow> take n (drop i bs) @ drop (i + n) bs = drop i bs"
  by (metis append_take_drop_id drop_drop add.commute)

lemma le16_bytes: "i + 2 \<le> length bs \<Longrightarrow> u16_to_le (le16_at bs i) = take 2 (drop i bs)"
  by (rule nth_equalityI) (auto simp: le16_at_def nth_Cons' less_Suc_eq numeral_eq_Suc)

lemma le32_bytes: "i + 4 \<le> length bs \<Longrightarrow> u32_to_le (le32_at bs i) = take 4 (drop i bs)"
  by (rule nth_equalityI)
    (auto simp: le32_at_def nth_Cons' less_Suc_eq numeral_eq_Suc)

lemma dir_entry_wf_decode: "32 \<le> length bs \<Longrightarrow> dir_entry_wf (decode_dir_entry bs)"
  by (simp add: dir_entry_wf_def decode_dir_entry_def)

lemma encode_decode_dir_entry:
  assumes "length bs = 32"
  shows "encode_dir_entry (decode_dir_entry bs) = bs"
proof -
  have "encode_dir_entry (decode_dir_entry bs) = take 8 bs @ take 3 (drop 8 bs) @ take 1 (drop 11 bs)
      @ take 10 (drop 12 bs) @ take 2 (drop 22 bs) @ take 2 (drop 24 bs) @ take 2 (drop 26 bs) @ take 4 (drop 28 bs)"
    using assms by (simp add: encode_dir_entry_def decode_dir_entry_def le16_bytes le32_bytes
        take_Suc_conv_app_nth)
  also have "\<dots> = bs"
    using assms take_chunk [of 8 3 bs] take_chunk [of 11 1 bs] take_chunk [of 12 10 bs] take_chunk [of 22 2 bs]
      take_chunk [of 24 2 bs] take_chunk [of 26 2 bs]
    by (simp flip: append_assoc add: append_take_drop_id)
  finally show ?thesis .
qed

section \<open>Names\<close>

lemma utf8_valid_ascii: "\<forall>b \<in> set bs. b < 0x80 \<Longrightarrow> utf8_valid bs"
  by (induction bs) simp_all

lemma byte_position_none: "byte_position b xs = None \<longleftrightarrow> b \<notin> set xs"
  by (induction xs) auto

lemma byte_position_padded:
  "b \<notin> set xs \<Longrightarrow> byte_position b (xs @ replicate n b) = (if n = 0 then None else Some (length xs))"
  by (induction xs) (auto simp: byte_position_none gr0_conv_Suc)

lemma buf_splice_padded: "length xs \<le> n \<Longrightarrow> buf_splice (replicate n x) 0 xs = xs @ replicate (n - length xs) x"
  by (simp add: buf_splice_def)

lemma padded_end:
  assumes "length xs \<le> n" "0x20 \<notin> set xs"
  shows "(case byte_position 0x20 (xs @ replicate (n - length xs) 0x20) of Some p \<Rightarrow> p | None \<Rightarrow> n) = length xs"
  using assms by (simp add: byte_position_padded)

lemma de_new_file_name:
  assumes "length base \<le> 8" "length ext \<le> 3"
  shows "de_name (de_new_file base ext c) = base @ replicate (8 - length base) 0x20"
    "de_ext (de_new_file base ext c) = ext @ replicate (3 - length ext) 0x20"
  using assms by (simp_all add: de_new_file_def buf_splice_padded)

lemma de_new_file_fields [simp]:
  "de_start_cluster (de_new_file base ext c) = c" "de_file_size (de_new_file base ext c) = 0"
  "de_attributes (de_new_file base ext c) = ATTR_ARCHIVE" "dir_entry_wf (de_new_file base ext c)"
  by (simp_all add: de_new_file_def dir_entry_wf_def length_buf_splice)

lemma de_new_directory_fields [simp]:
  "de_start_cluster (de_new_directory base c) = c" "de_file_size (de_new_directory base c) = 0"
  "de_attributes (de_new_directory base c) = ATTR_DIRECTORY" "dir_entry_wf (de_new_directory base c)"
  "de_name (de_new_directory base c) = de_name (de_new_file base [] c)"
  "de_ext (de_new_directory base c) = de_ext (de_new_file base [] c)"
  using de_new_file_fields(4) [of base "[]" c]
  by (simp_all add: de_new_directory_def dir_entry_wf_def)

lemma not_directory_new_file [simp]: "\<not> de_is_directory (de_new_file base ext c)"
  by (simp add: de_is_directory_def ATTR_ARCHIVE_def ATTR_DIRECTORY_def)

lemma directory_new_directory [simp]: "de_is_directory (de_new_directory base c)"
  by (simp add: de_is_directory_def ATTR_DIRECTORY_def)

lemma de_get_name_cong:
  "de_name e = de_name e' \<Longrightarrow> de_ext e = de_ext e' \<Longrightarrow> de_get_name e = de_get_name e'"
  by (simp add: de_get_name_def)

lemma de_get_name_new_file:
  assumes "length base \<le> 8" "length ext \<le> 3" "0x20 \<notin> set base" "0x20 \<notin> set ext"
    and "utf8_valid base" "utf8_valid ext"
  shows "de_get_name (de_new_file base ext c) = (if ext = [] then base else base @ 0x2E # ext)"
  using assms unfolding de_get_name_def de_new_file_name [OF assms(1,2)]
    padded_end [OF assms(1,3)] padded_end [OF assms(2,4)]
  by (simp add: from_utf8_or_empty_def)

lemma rfind_byte_None: "rfind_byte b xs = None \<longleftrightarrow> b \<notin> set xs"
  by (induction xs) (auto split: option.splits)

lemma rfind_byte_Some:
  "rfind_byte b xs = Some p \<Longrightarrow> p < length xs \<and> xs ! p = b \<and> b \<notin> set (drop (Suc p) xs)"
  by (induction xs arbitrary: p) (auto split: option.splits if_splits simp: rfind_byte_None)

lemma split_extension_join:
  assumes "split_extension name = (base, ext)" "ext \<noteq> [] \<or> 0x2E \<notin> set name"
  shows "name = (if ext = [] then base else base @ 0x2E # ext)"
proof (cases "rfind_byte 0x2E name")
  case None
  then show ?thesis using assms(1) by (simp add: split_extension_def)
next
  case (Some p)
  then have p: "p < length name" "name ! p = 0x2E" using rfind_byte_Some by auto
  then have "0x2E \<in> set name" by (metis nth_mem)
  then show ?thesis
    using assms Some p by (auto simp: split_extension_def id_take_nth_drop [symmetric]
        intro: id_take_nth_drop [of p name, unfolded p(2)])
qed

text \<open>A name that a directory entry can carry: at most 8 bytes before the last dot and 3 after it,
  no space, no dangling dot, whole UTF-8 characters on both sides, and not a first byte that marks
  a free or a deleted entry.\<close>

definition name_83 :: "bytes \<Rightarrow> bool" where
  "name_83 name \<longleftrightarrow> (case split_extension name of (base, ext) \<Rightarrow>
     length base \<le> 8 \<and> length ext \<le> 3 \<and> 0x20 \<notin> set name \<and> (ext \<noteq> [] \<or> 0x2E \<notin> set name)
     \<and> utf8_valid base \<and> utf8_valid ext \<and> (base = [] \<or> hd base \<noteq> 0 \<and> hd base \<noteq> DELETED_ENTRY_MARKER))"

lemma split_extension_set:
  "split_extension name = (base, ext) \<Longrightarrow> set base \<subseteq> set name \<and> set ext \<subseteq> set name"
  by (auto simp: split_extension_def split: option.splits dest: in_set_takeD in_set_dropD)

lemma new_file_visible:
  assumes "base = [] \<or> hd base \<noteq> 0 \<and> hd base \<noteq> DELETED_ENTRY_MARKER"
  shows "\<not> de_is_free (de_new_file base ext c)" "\<not> de_is_deleted (de_new_file base ext c)"
  using assms by (cases base; simp add: de_is_free_def de_is_deleted_def de_new_file_def buf_splice_def
      DELETED_ENTRY_MARKER_def min_def)+

lemma name_83_new_file:
  assumes "name_83 name" "split_extension name = (base, ext)"
  shows "de_get_name (de_new_file base ext c) = name"
    "\<not> de_is_free (de_new_file base ext c)" "\<not> de_is_deleted (de_new_file base ext c)"
proof -
  have n: "length base \<le> 8" "length ext \<le> 3" "0x20 \<notin> set name" "ext \<noteq> [] \<or> 0x2E \<notin> set name"
    "utf8_valid base" "utf8_valid ext" "base = [] \<or> hd base \<noteq> 0 \<and> hd base \<noteq> DELETED_ENTRY_MARKER"
    using assms by (simp_all add: name_83_def)
  have s: "0x20 \<notin> set base" "0x20 \<notin> set ext" using split_extension_set [OF assms(2)] n(3) by auto
  show "de_get_name (de_new_file base ext c) = name"
    using de_get_name_new_file [OF n(1,2) s n(5,6)] split_extension_join [OF assms(2) n(4)] by simp
  show "\<not> de_is_free (de_new_file base ext c)" "\<not> de_is_deleted (de_new_file base ext c)"
    using n(7) by (rule new_file_visible)+
qed

section \<open>Properties\<close>

definition entry_sample :: dir_entry83 where
  "entry_sample = de_new_file [0x54, 0x41, 0x4F, 0x53] [0x54, 0x58, 0x54] 2"




definition boot_sector_sample :: boot_sector where
  "boot_sector_sample = \<lparr>jump_boot = [0xEB, 0x3C, 0x90],
     oem_name = [0x55, 0x54, 0x54, 0x41, 0x4F, 0x53, 0x2E, 0x30], bytes_per_sector = 512,
     sectors_per_cluster = 4, reserved_sectors = 1, fat_count = 2, root_dir_entries = 512,
     total_sectors_16 = 100, media_type = 0xF8, sectors_per_fat = 1, sectors_per_track = 63,
     head_count = 255, hidden_sectors = 0, total_sectors_32 = 0, drive_number = 0x80, reserved1 = 0,
     boot_signature = 0x29, volume_id = 0x12345678, volume_label = replicate 11 0x20,
     fs_type = replicate 8 0x20\<rparr>"


text \<open>A name that fits the 8.3 format survives the directory: the entry that \<open>create_file\<close>
  builds from its two parts has exactly that name, is neither free nor deleted and is not a
  directory.\<close>

theorem name_roundtrip:
  assumes "name_83 name" "split_extension name = (base, ext)"
  shows "de_get_name (de_new_file base ext c) = name \<and> \<not> de_is_free (de_new_file base ext c)
    \<and> \<not> de_is_deleted (de_new_file base ext c) \<and> \<not> de_is_directory (de_new_file base ext c)"
  using name_83_new_file [OF assms] by simp

theorem name_roundtrip_witness:
  "name_83 [0x61, 0x2E, 0x62] \<and> de_get_name (de_new_file [0x61] [0x62] 5) = [0x61, 0x2E, 0x62]"
proof -
  have h: "split_extension [0x61, 0x2E, 0x62] = ([0x61], [0x62])"
    by (simp add: split_extension_def)
  moreover have n: "name_83 [0x61, 0x2E, 0x62]"
    by (simp add: name_83_def h DELETED_ENTRY_MARKER_def)
  ultimately show ?thesis using name_roundtrip [OF n h, of 5] by blast
qed

end
