(* ===== verification/Fat16_Table.thy ===== *)
theory Fat16_Table
  imports Fat16_Types
begin

text \<open>
  The state of the FAT16 driver and its file allocation table (\<open>filesys/fat16/mod.rs\<close>): the struct,
  \<open>Fat16::new\<close>, the two accessors of the table, the cluster allocator and the address of a cluster.
  Sector numbers are sums and products of 8- and 16-bit fields of the boot sector, below \<open>2 ^ 26\<close>, so
  their additions are written without overflow checks; the subtractions that can underflow are checked.
\<close>

section \<open>The structs\<close>

text \<open>\<open>Fat16File\<close> of \<open>file.rs\<close>.\<close>

record fat16_file =
  ff_valid :: bool
  ff_current_cluster :: u16
  ff_position :: nat
  ff_size :: nat
  ff_cluster_size :: nat
  ff_fat_start :: nat
  ff_data_start :: nat
  ff_entry_position :: nat

text \<open>\<open>reuse_fds\<close> is a binary heap of descriptors; only its contents matter, so it is a list.\<close>

record 'd fat16 =
  fs_device :: 'd
  fs_boot_sector :: boot_sector
  fs_fat_start :: nat
  fs_root_dir_start :: nat
  fs_data_start :: nat
  fs_cluster_size :: nat
  fs_fd_counter :: nat
  fs_reuse_fds :: "nat list"
  fs_fd_table :: "fat16_file list"

section \<open>Operations\<close>

text \<open>A call of a device method inside a file system method.\<close>

definition dev :: "('d, fs_error, 'a) prog \<Rightarrow> ('d fat16, fs_error, 'a) prog" where
  "dev = zoom fs_device (\<lambda>d fs. fs\<lparr>fs_device := d\<rparr>)"

definition fat_new :: "'d block_device \<Rightarrow> ('d, fs_error, 'd fat16) prog" where
  "fat_new ops =
    bnd (bd_read ops 0 (replicate SECTOR_SIZE 0)) (\<lambda>boot_sector_data.
    let bs = decode_boot_sector boot_sector_data;
        fat_start = unat (reserved_sectors bs);
        spf = unat (sectors_per_fat bs);
        root_dir_start = fat_start + spf * unat (fat_count bs);
        root_dir_sectors = div_ceil (ROOT_DIR_ENTRIES * 32) SECTOR_SIZE;
        data_start = root_dir_start + root_dir_sectors
    in gets (\<lambda>device. \<lparr>fs_device = device, fs_boot_sector = bs, fs_fat_start = fat_start,
         fs_root_dir_start = root_dir_start, fs_data_start = data_start,
         fs_cluster_size = unat (sectors_per_cluster bs) * SECTOR_SIZE, fs_fd_counter = 0,
         fs_reuse_fds = [], fs_fd_table = []\<rparr>))"

definition read_fat_entry :: "'d block_device \<Rightarrow> u16 \<Rightarrow> ('d fat16, fs_error, fat_entry) prog" where
  "read_fat_entry ops cluster =
    (let offset = unat cluster * FAT_ENTRY_SIZE
     in bnd (gets fs_fat_start) (\<lambda>fat_start.
     let sector = fat_start + offset div SECTOR_SIZE; sector_offset = offset mod SECTOR_SIZE
     in bnd (dev (bd_read ops sector (replicate SECTOR_SIZE 0))) (\<lambda>sector_data.
     bnd (lift_res (index_at sector_data sector_offset)) (\<lambda>b0.
     bnd (lift_res (index_at sector_data (sector_offset + 1))) (\<lambda>b1.
     ret \<lparr>fe_cluster = u16_from_le b0 b1\<rparr>)))))"

definition write_fat_entry :: "'d block_device \<Rightarrow> u16 \<Rightarrow> fat_entry \<Rightarrow> ('d fat16, fs_error, unit) prog" where
  "write_fat_entry ops cluster entry =
    (let offset = unat cluster * FAT_ENTRY_SIZE
     in bnd (gets fs_fat_start) (\<lambda>fat_start.
     let sector = fat_start + offset div SECTOR_SIZE; sector_offset = offset mod SECTOR_SIZE
     in bnd (dev (bd_read ops sector (replicate SECTOR_SIZE 0))) (\<lambda>sector_data.
     let bs = u16_to_le (fe_cluster entry)
     in bnd (lift_res (store_at sector_data sector_offset (bs ! 0))) (\<lambda>sector_data.
     bnd (lift_res (store_at sector_data (sector_offset + 1) (bs ! 1))) (\<lambda>sector_data.
     bnd (dev (bd_write ops sector sector_data)) (\<lambda>_.
     bnd (gets fs_boot_sector) (\<lambda>bsec.
     if fat_count bsec > 1
     then let second_fat_sector = sector + unat (sectors_per_fat bsec)
          in dev (bd_write ops second_fat_sector sector_data)
     else ret ())))))))"

definition cluster_to_sector :: "u16 \<Rightarrow> ('d fat16, fs_error, nat) prog" where
  "cluster_to_sector cluster =
    bnd (lift_res (u64_sub (unat cluster) 2)) (\<lambda>k.
    bnd (gets fs_data_start) (\<lambda>data_start.
    bnd (gets fs_boot_sector) (\<lambda>bsec.
    ret (data_start + k * unat (sectors_per_cluster bsec)))))"

fun allocate_search :: "'d block_device \<Rightarrow> nat list \<Rightarrow> ('d fat16, fs_error, u16) prog" where
  "allocate_search ops [] = raise NotSupported"
| "allocate_search ops (c # cs) =
    bnd (read_fat_entry ops (word_of_nat c)) (\<lambda>entry.
    if fe_is_free entry
    then bnd (write_fat_entry ops (word_of_nat c) \<lparr>fe_cluster = 0xFFFF\<rparr>) (\<lambda>_. ret (word_of_nat c))
    else allocate_search ops cs)"

definition allocate_cluster :: "'d block_device \<Rightarrow> ('d fat16, fs_error, u16) prog" where
  "allocate_cluster ops =
    bnd (gets fs_boot_sector) (\<lambda>bsec.
    bnd (gets fs_data_start) (\<lambda>data_start.
    bnd (lift_res (u64_sub (unat (total_sectors_16 bsec)) data_start)) (\<lambda>n.
    bnd (lift_res (u64_div n (unat (sectors_per_cluster bsec)))) (\<lambda>total_clusters.
    allocate_search ops [2..<total_clusters mod 2 ^ 16]))))"

section \<open>The table on the in-memory device\<close>

type_synonym mem_fs = "memory_device fat16"

definition fs_secs :: "mem_fs \<Rightarrow> bytes list" where
  "fs_secs fs = blocks (fs_device fs)"

definition fs_set_sec :: "nat \<Rightarrow> bytes \<Rightarrow> mem_fs \<Rightarrow> mem_fs" where
  "fs_set_sec n b fs = fs\<lparr>fs_device := (fs_device fs)\<lparr>blocks := (blocks (fs_device fs))[n := b]\<rparr>\<rparr>"

abbreviation fs_spf :: "'d fat16 \<Rightarrow> nat" where
  "fs_spf fs \<equiv> unat (sectors_per_fat (fs_boot_sector fs))"

abbreviation fs_spc :: "'d fat16 \<Rightarrow> nat" where
  "fs_spc fs \<equiv> unat (sectors_per_cluster (fs_boot_sector fs))"

text \<open>The number that bounds the clusters the allocator tries.\<close>

definition fs_clusters :: "'d fat16 \<Rightarrow> nat" where
  "fs_clusters fs = (unat (total_sectors_16 (fs_boot_sector fs)) - fs_data_start fs) div fs_spc fs"

definition fat_sector :: "'d fat16 \<Rightarrow> u16 \<Rightarrow> nat" where
  "fat_sector fs c = fs_fat_start fs + unat c * 2 div 512"

definition fat_get :: "mem_fs \<Rightarrow> u16 \<Rightarrow> u16" where
  "fat_get fs c = le16_at (fs_secs fs ! fat_sector fs c) (unat c * 2 mod 512)"

text \<open>The cluster has an entry in the table.\<close>

definition fat_has :: "'d fat16 \<Rightarrow> u16 \<Rightarrow> bool" where
  "fat_has fs c \<longleftrightarrow> unat c * 2 div 512 < fs_spf fs"

text \<open>A mounted file system: the regions follow each other inside the device, the allocator's clusters
  have table entries and lie inside the device.\<close>

definition fs_wf :: "mem_fs \<Rightarrow> bool" where
  "fs_wf fs \<longleftrightarrow> mem_sectors (fs_device fs) \<and> 0 < fs_fat_start fs
     \<and> 0 < fat_count (fs_boot_sector fs) \<and> 0 < fs_spc fs
     \<and> fs_root_dir_start fs = fs_fat_start fs + fs_spf fs * unat (fat_count (fs_boot_sector fs))
     \<and> fs_data_start fs = fs_root_dir_start fs + 32
     \<and> fs_cluster_size fs = fs_spc fs * 512
     \<and> fs_data_start fs \<le> unat (total_sectors_16 (fs_boot_sector fs))
     \<and> unat (total_sectors_16 (fs_boot_sector fs)) \<le> length (fs_secs fs)
     \<and> fs_clusters fs * 2 \<le> fs_spf fs * 512"

text \<open>Both copies of the table agree.\<close>

definition fat_mirrored :: "mem_fs \<Rightarrow> bool" where
  "fat_mirrored fs \<longleftrightarrow> fat_count (fs_boot_sector fs) > 1 \<longrightarrow>
     (\<forall>k < fs_spf fs. fs_secs fs ! (fs_fat_start fs + fs_spf fs + k) = fs_secs fs ! (fs_fat_start fs + k))"

definition set16 :: "bytes \<Rightarrow> nat \<Rightarrow> u16 \<Rightarrow> bytes" where
  "set16 buf k w = buf[k := u16_to_le w ! 0, k + 1 := u16_to_le w ! 1]"

text \<open>The effect of \<open>write_fat_entry\<close> on the state.\<close>

definition fat_put :: "u16 \<Rightarrow> u16 \<Rightarrow> mem_fs \<Rightarrow> mem_fs" where
  "fat_put c w fs =
    (let b = set16 (fs_secs fs ! fat_sector fs c) (unat c * 2 mod 512) w;
         fs1 = fs_set_sec (fat_sector fs c) b fs
     in if fat_count (fs_boot_sector fs) > 1 then fs_set_sec (fat_sector fs c + fs_spf fs) b fs1 else fs1)"

subsection \<open>Sectors\<close>

lemma fs_set_sec_simps [simp]:
  "fs_boot_sector (fs_set_sec n b fs) = fs_boot_sector fs" "fs_fat_start (fs_set_sec n b fs) = fs_fat_start fs"
  "fs_root_dir_start (fs_set_sec n b fs) = fs_root_dir_start fs"
  "fs_data_start (fs_set_sec n b fs) = fs_data_start fs" "fs_cluster_size (fs_set_sec n b fs) = fs_cluster_size fs"
  "fs_fd_counter (fs_set_sec n b fs) = fs_fd_counter fs" "fs_reuse_fds (fs_set_sec n b fs) = fs_reuse_fds fs"
  "fs_fd_table (fs_set_sec n b fs) = fs_fd_table fs" "fs_secs (fs_set_sec n b fs) = (fs_secs fs)[n := b]"
  "fs_clusters (fs_set_sec n b fs) = fs_clusters fs" "fat_sector (fs_set_sec n b fs) c = fat_sector fs c"
  "fat_has (fs_set_sec n b fs) c = fat_has fs c"
  by (simp_all add: fs_set_sec_def fs_secs_def fs_clusters_def fat_sector_def fat_has_def)

lemma dev_read_mem:
  assumes "mem_sectors (fs_device fs)"
  shows "dev (bd_read mem_ops n buf) fs =
    (if n < length (fs_secs fs) \<and> length buf = 512 then Ok (fs_secs fs ! n) else Err IOError, fs)"
  using assms by (simp add: dev_def zoom_def mem_ops_def mem_read_sector fs_secs_def)

lemma dev_write_mem:
  assumes "mem_sectors (fs_device fs)"
  shows "dev (bd_write mem_ops n buf) fs =
    (if n < length (fs_secs fs) \<and> length buf = 512 then (Ok (), fs_set_sec n buf fs) else (Err IOError, fs))"
  using assms by (simp add: dev_def zoom_def mem_ops_def mem_write_sector fs_secs_def fs_set_sec_def)

lemma mem_sectors_set_sec: "mem_sectors (fs_device fs) \<Longrightarrow> length b = 512 \<Longrightarrow> mem_sectors (fs_device (fs_set_sec n b fs))"
  by (simp add: fs_set_sec_def mem_sectors_update)

lemma fs_sec_length: "mem_sectors (fs_device fs) \<Longrightarrow> n < length (fs_secs fs) \<Longrightarrow> length (fs_secs fs ! n) = 512"
  by (simp add: mem_sectors_def mem_ok_def fs_secs_def)

lemma fs_wf_set_sec: "fs_wf fs \<Longrightarrow> length b = 512 \<Longrightarrow> fs_wf (fs_set_sec n b fs)"
  using mem_sectors_set_sec [of fs b n] by (simp add: fs_wf_def)

lemma fs_wf_mem: "fs_wf fs \<Longrightarrow> mem_sectors (fs_device fs)"
  by (simp add: fs_wf_def)

lemma fat_region:
  assumes "fs_wf fs" "k < fs_spf fs"
  shows "fs_fat_start fs + k < fs_root_dir_start fs" "fs_fat_start fs + k < length (fs_secs fs)"
    "fat_count (fs_boot_sector fs) > 1 \<Longrightarrow> fs_fat_start fs + fs_spf fs + k < fs_root_dir_start fs"
    "fat_count (fs_boot_sector fs) > 1 \<Longrightarrow> fs_fat_start fs + fs_spf fs + k < length (fs_secs fs)"
proof -
  let ?c = "unat (fat_count (fs_boot_sector fs))"
  have r: "fs_root_dir_start fs = fs_fat_start fs + fs_spf fs * ?c" "fs_root_dir_start fs \<le> length (fs_secs fs)"
    and c: "0 < ?c"
    using assms(1) by (auto simp: fs_wf_def unat_gt_0 word_gt_0)
  have "fs_spf fs * 1 \<le> fs_spf fs * ?c" using c by (intro mult_le_mono2) simp
  then show "fs_fat_start fs + k < fs_root_dir_start fs" "fs_fat_start fs + k < length (fs_secs fs)"
    using r assms(2) by linarith+
  assume "fat_count (fs_boot_sector fs) > 1"
  then have "2 \<le> ?c" by (simp add: word_less_nat_alt)
  then have "fs_spf fs * 2 \<le> fs_spf fs * ?c" by (intro mult_le_mono2)
  then show "fs_fat_start fs + fs_spf fs + k < fs_root_dir_start fs"
    "fs_fat_start fs + fs_spf fs + k < length (fs_secs fs)"
    using r assms(2) by linarith+
qed

lemma fat_sector_bounds:
  assumes "fs_wf fs" "fat_has fs c"
  shows "fat_sector fs c < fs_root_dir_start fs" "fat_sector fs c < length (fs_secs fs)"
    "fat_count (fs_boot_sector fs) > 1 \<Longrightarrow> fat_sector fs c + fs_spf fs < fs_root_dir_start fs"
    "fat_count (fs_boot_sector fs) > 1 \<Longrightarrow> fat_sector fs c + fs_spf fs < length (fs_secs fs)"
  using fat_region [OF assms(1), of "unat c * 2 div 512"] assms(2)
  by (simp_all add: fat_has_def fat_sector_def add.commute add.left_commute)

subsection \<open>Sixteen-bit fields of a sector\<close>

lemma length_set16 [simp]: "length (set16 buf k w) = length buf"
  by (simp add: set16_def)

lemma even_offset: "(2 * n) mod 512 + 1 < (512 :: nat)" "even ((2 * n) mod (512 :: nat))"
proof -
  have "(2 * n) mod 512 = 2 * (n mod 256)" using mult_mod_right [of 2 n 256] by simp
  then show "(2 * n) mod 512 + 1 < (512 :: nat)" "even ((2 * n) mod (512 :: nat))" by simp_all
qed

lemma le16_at_set16:
  assumes "k + 1 < length buf" "j + 1 < length buf" "even k" "even j"
  shows "le16_at (set16 buf k w) j = (if j = k then w else le16_at buf j)"
proof (cases "j = k")
  case True
  then show ?thesis using assms u16_from_to_le [of w] by (simp add: le16_at_def set16_def)
next
  case False
  then have "j \<noteq> k + 1" "j + 1 \<noteq> k" using assms(3,4) by auto
  then show ?thesis using False assms by (simp add: le16_at_def set16_def)
qed

subsection \<open>Reading and writing entries\<close>

lemma fat_sector_fold: "fs_fat_start fs + unat c div 256 = fat_sector fs c"
  by (simp add: fat_sector_def)

lemma read_fat_entry_mem:
  assumes "fs_wf fs" "fat_has fs c"
  shows "read_fat_entry mem_ops c fs = (Ok \<lparr>fe_cluster = fat_get fs c\<rparr>, fs)"
proof -
  let ?s = "fs_secs fs ! fat_sector fs c"
  have s: "fat_sector fs c < length (fs_secs fs)" using fat_sector_bounds [OF assms] by simp
  have "length ?s = 512" using fs_sec_length [OF fs_wf_mem [OF assms(1)] s] .
  moreover have "unat c * 2 mod 512 + 1 < 512" using even_offset(1) [of "unat c"] by (simp add: mult.commute)
  ultimately show ?thesis
    using s unfolding read_fat_entry_def Let_def fat_consts
    by (simp add: bnd_def gets_apply dev_read_mem [OF fs_wf_mem [OF assms(1)]] lift_res_def index_at_def
        ret_def fat_sector_fold fat_get_def le16_at_def)
qed

lemma write_fat_entry_mem:
  assumes "fs_wf fs" "fat_has fs c"
  shows "write_fat_entry mem_ops c e fs = (Ok (), fat_put c (fe_cluster e) fs)"
proof -
  let ?s = "fs_secs fs ! fat_sector fs c" and ?k = "unat c * 2 mod 512"
  let ?b = "set16 ?s ?k (fe_cluster e)"
  note m = fs_wf_mem [OF assms(1)]
  note b = fat_sector_bounds [OF assms]
  have l: "length ?s = 512" using fs_sec_length [OF m b(2)] .
  have k: "?k + 1 < 512" using even_offset(1) [of "unat c"] by (simp add: mult.commute)
  have m': "mem_sectors (fs_device (fs_set_sec (fat_sector fs c) ?b fs))"
    using mem_sectors_set_sec [OF m, of ?b] l by simp
  show ?thesis
    using l k b(2,4) unfolding write_fat_entry_def Let_def fat_consts fat_put_def
    by (simp add: bnd_def gets_apply dev_read_mem [OF m] dev_write_mem [OF m] lift_res_def store_at_def
        ret_def fat_sector_fold set16_def [symmetric, simplified] dev_write_mem [OF m'])
qed

lemma fat_put_simps [simp]:
  "fs_boot_sector (fat_put c w fs) = fs_boot_sector fs" "fs_fat_start (fat_put c w fs) = fs_fat_start fs"
  "fs_root_dir_start (fat_put c w fs) = fs_root_dir_start fs"
  "fs_data_start (fat_put c w fs) = fs_data_start fs" "fs_cluster_size (fat_put c w fs) = fs_cluster_size fs"
  "fs_fd_counter (fat_put c w fs) = fs_fd_counter fs" "fs_reuse_fds (fat_put c w fs) = fs_reuse_fds fs"
  "fs_fd_table (fat_put c w fs) = fs_fd_table fs" "length (fs_secs (fat_put c w fs)) = length (fs_secs fs)"
  "fs_clusters (fat_put c w fs) = fs_clusters fs" "fat_sector (fat_put c w fs) c' = fat_sector fs c'"
  "fat_has (fat_put c w fs) c' = fat_has fs c'"
  by (simp_all add: fat_put_def Let_def)

lemma fs_wf_fat_put:
  assumes "fs_wf fs" "fat_has fs c"
  shows "fs_wf (fat_put c w fs)"
proof -
  have "length (set16 (fs_secs fs ! fat_sector fs c) (unat c * 2 mod 512) w) = 512"
    using fs_sec_length [OF fs_wf_mem [OF assms(1)] fat_sector_bounds(2) [OF assms]] by simp
  then show ?thesis using assms(1) fs_wf_set_sec by (simp add: fat_put_def Let_def)
qed

text \<open>The sector that the write stores in the first copy, and what every sector holds afterwards.\<close>

lemma fat_put_secs:
  assumes "fs_wf fs" "fat_has fs c" "n < length (fs_secs fs)"
  shows "fs_secs (fat_put c w fs) ! n =
    (if n = fat_sector fs c \<or> fat_count (fs_boot_sector fs) > 1 \<and> n = fat_sector fs c + fs_spf fs
     then set16 (fs_secs fs ! fat_sector fs c) (unat c * 2 mod 512) w else fs_secs fs ! n)"
  using assms by (cases "fs_spf fs = 0") (auto simp: fat_put_def Let_def nth_list_update)

lemma fat_put_outside:
  assumes "fs_wf fs" "fat_has fs c" "n < length (fs_secs fs)" "n < fs_fat_start fs \<or> fs_root_dir_start fs \<le> n"
  shows "fs_secs (fat_put c w fs) ! n = fs_secs fs ! n"
proof -
  have "fs_fat_start fs \<le> fat_sector fs c" by (simp add: fat_sector_def)
  then show ?thesis
    using fat_sector_bounds(1,3) [OF assms(1,2)] assms(3,4) by (auto simp: fat_put_secs [OF assms(1-3)])
qed

lemma same_entry: "unat c * 2 div 512 = unat d * 2 div 512 \<Longrightarrow> unat c * 2 mod 512 = unat d * 2 mod 512 \<Longrightarrow> c = (d :: u16)"
  by (metis div_mult_mod_eq mult_right_cancel word_eq_iff_unsigned zero_neq_numeral)

lemma fat_get_put:
  assumes "fs_wf fs" "fat_has fs c" "fat_has fs d"
  shows "fat_get (fat_put c w fs) d = (if d = c then w else fat_get fs d)"
proof -
  note b = fat_sector_bounds [OF assms(1,3)]
  have sec: "fs_secs (fat_put c w fs) ! fat_sector fs d = (if fat_sector fs d = fat_sector fs c
      then set16 (fs_secs fs ! fat_sector fs c) (unat c * 2 mod 512) w else fs_secs fs ! fat_sector fs d)"
    using fat_put_secs [OF assms(1,2) b(2), of w] assms(3) by (auto simp: fat_sector_def fat_has_def)
  have l: "length (fs_secs fs ! fat_sector fs c) = 512"
    using fs_sec_length [OF fs_wf_mem [OF assms(1)] fat_sector_bounds(2) [OF assms(1,2)]] .
  show ?thesis
  proof (cases "fat_sector fs d = fat_sector fs c")
    case True
    then have "unat d * 2 mod 512 = unat c * 2 mod 512 \<longleftrightarrow> d = c"
      using same_entry [of d c] by (auto simp: fat_sector_def)
    then show ?thesis
      using True sec l even_offset [of "unat c"] even_offset [of "unat d"]
      by (simp add: fat_get_def le16_at_set16 mult.commute)
  next
    case False
    then show ?thesis using sec by (auto simp: fat_get_def)
  qed
qed

lemma fat_mirrored_put:
  assumes "fs_wf fs" "fat_has fs c" "fat_mirrored fs"
  shows "fat_mirrored (fat_put c w fs)"
  unfolding fat_mirrored_def fat_put_simps
proof (intro impI allI)
  fix k assume two: "fat_count (fs_boot_sector fs) > 1" and k: "k < fs_spf fs"
  let ?n = "fs_fat_start fs + k" and ?m = "fs_fat_start fs + fs_spf fs + k"
  have eq: "fs_secs fs ! ?m = fs_secs fs ! ?n" using assms(3) two k by (simp add: fat_mirrored_def)
  have c: "fat_sector fs c < fs_fat_start fs + fs_spf fs" using assms(2) by (simp add: fat_sector_def fat_has_def)
  note r = fat_region(2) [OF assms(1) k] fat_region(4) [OF assms(1) k two]
  show "fs_secs (fat_put c w fs) ! ?m = fs_secs (fat_put c w fs) ! ?n"
    unfolding fat_put_secs [OF assms(1,2) r(1)] fat_put_secs [OF assms(1,2) r(2)]
    using two c k eq by (auto simp: fat_sector_def)
qed

subsection \<open>Allocation\<close>

lemma allocate_search_mem:
  assumes "fs_wf fs" "\<forall>c \<in> set cs. fat_has fs (word_of_nat c)"
  shows "allocate_search mem_ops cs fs =
    (case find (\<lambda>c. fat_get fs (word_of_nat c) = 0) cs of
       None \<Rightarrow> (Err NotSupported, fs)
     | Some c \<Rightarrow> (Ok (word_of_nat c), fat_put (word_of_nat c) 0xFFFF fs))"
  using assms(2)
proof (induction cs)
  case Nil
  then show ?case by (simp add: raise_apply)
next
  case (Cons c cs)
  then have h: "fat_has fs (word_of_nat c)" by simp
  have r: "read_fat_entry mem_ops (word_of_nat c) fs = (Ok \<lparr>fe_cluster = fat_get fs (word_of_nat c)\<rparr>, fs)"
    by (rule read_fat_entry_mem [OF assms(1) h])
  have w: "write_fat_entry mem_ops (word_of_nat c) \<lparr>fe_cluster = 0xFFFF\<rparr> fs
      = (Ok (), fat_put (word_of_nat c) 0xFFFF fs)"
    using write_fat_entry_mem [OF assms(1) h] by simp
  show ?case
    using Cons by (simp add: bnd_def r w fe_is_free_def ret_apply)
qed

lemma fs_clusters_bound: "fs_clusters fs < 2 ^ 16"
proof -
  have "fs_clusters fs \<le> unat (total_sectors_16 (fs_boot_sector fs))"
    unfolding fs_clusters_def by (rule le_trans [OF div_le_dividend]) simp
  then show ?thesis using unsigned_less [where 'a = nat, of "total_sectors_16 (fs_boot_sector fs)"] by simp
qed

lemma fat_has_cluster:
  assumes "fs_wf fs" "c < fs_clusters fs"
  shows "fat_has fs (word_of_nat c)" "unat (word_of_nat c :: u16) = c"
proof -
  show u: "unat (word_of_nat c :: u16) = c"
    using assms(2) fs_clusters_bound [of fs] by (simp add: unat_of_nat take_bit_nat_eq_self)
  have "c * 2 < fs_spf fs * 512" using assms by (simp add: fs_wf_def)
  then have "c * 2 div 512 < fs_spf fs" by (simp add: less_mult_imp_div_less)
  then show "fat_has fs (word_of_nat c)" unfolding fat_has_def u .
qed

lemma allocate_cluster_mem:
  assumes "fs_wf fs"
  shows "allocate_cluster mem_ops fs =
    (case find (\<lambda>c. fat_get fs (word_of_nat c) = 0) [2..<fs_clusters fs] of
       None \<Rightarrow> (Err NotSupported, fs)
     | Some c \<Rightarrow> (Ok (word_of_nat c), fat_put (word_of_nat c) 0xFFFF fs))"
proof -
  have "allocate_cluster mem_ops fs = allocate_search mem_ops [2..<fs_clusters fs] fs"
    using assms fs_clusters_bound [of fs]
    by (simp add: allocate_cluster_def bnd_def gets_apply lift_res_apply u64_sub_def u64_div_def
        fs_wf_def fs_clusters_def)
  then show ?thesis
    using allocate_search_mem [OF assms] fat_has_cluster(1) [OF assms] by simp
qed

lemma find_upt_Some:
  "find P [m..<n] = Some c \<longleftrightarrow> m \<le> c \<and> c < n \<and> P c \<and> (\<forall>k. m \<le> k \<and> k < c \<longrightarrow> \<not> P k)"
proof -
  have "find P [m..<n] = Some c \<longleftrightarrow> (\<exists>i < n - m. P (m + i) \<and> c = m + i \<and> (\<forall>j < i. \<not> P (m + j)))"
    by (auto simp: find_Some_iff)
  also have "\<dots> \<longleftrightarrow> m \<le> c \<and> c < n \<and> P c \<and> (\<forall>k. m \<le> k \<and> k < c \<longrightarrow> \<not> P k)"
  proof
    assume "\<exists>i < n - m. P (m + i) \<and> c = m + i \<and> (\<forall>j < i. \<not> P (m + j))"
    then obtain i where i: "i < n - m" "P (m + i)" "c = m + i" "\<forall>j < i. \<not> P (m + j)" by blast
    have "\<not> P k" if "m \<le> k" "k < c" for k using i(4) that i(3) le_Suc_ex [of m k] by auto
    then show "m \<le> c \<and> c < n \<and> P c \<and> (\<forall>k. m \<le> k \<and> k < c \<longrightarrow> \<not> P k)" using i by auto
  next
    assume "m \<le> c \<and> c < n \<and> P c \<and> (\<forall>k. m \<le> k \<and> k < c \<longrightarrow> \<not> P k)"
    then show "\<exists>i < n - m. P (m + i) \<and> c = m + i \<and> (\<forall>j < i. \<not> P (m + j))"
      by (intro exI [of _ "c - m"]) auto
  qed
  finally show ?thesis .
qed

subsection \<open>Clusters\<close>

lemma cluster_to_sector_mem:
  "2 \<le> unat c \<Longrightarrow> cluster_to_sector c fs = (Ok (fs_data_start fs + (unat c - 2) * fs_spc fs), fs)"
  by (simp add: cluster_to_sector_def bnd_def gets_apply lift_res_apply u64_sub_def ret_apply)

lemma cluster_inside:
  assumes "fs_wf fs" "2 \<le> unat c" "unat c < fs_clusters fs" "k < fs_spc fs"
  shows "fs_data_start fs + (unat c - 2) * fs_spc fs + k < length (fs_secs fs)"
proof -
  let ?t = "unat (total_sectors_16 (fs_boot_sector fs))"
  have "(unat c - 2) * fs_spc fs + k < (unat c - 2) * fs_spc fs + fs_spc fs" using assms(4) by simp
  also have "\<dots> = (unat c - 1) * fs_spc fs"
  proof -
    have "unat c - 1 = Suc (unat c - 2)" using assms(2) by simp
    then show ?thesis by simp
  qed
  also have "\<dots> \<le> fs_clusters fs * fs_spc fs" using assms(3) by (intro mult_le_mono1) simp
  also have "\<dots> \<le> ?t - fs_data_start fs" by (simp add: fs_clusters_def)
  finally have "(unat c - 2) * fs_spc fs + k < ?t - fs_data_start fs" .
  moreover have "?t \<le> length (fs_secs fs)" using assms(1) by (simp add: fs_wf_def)
  ultimately show ?thesis by linarith
qed

section \<open>Properties\<close>

definition fs_sample :: mem_fs where
  "fs_sample = \<lparr>fs_device = mem_new 100 512, fs_boot_sector = boot_sector_sample, fs_fat_start = 1,
     fs_root_dir_start = 3, fs_data_start = 35, fs_cluster_size = 2048, fs_fd_counter = 0,
     fs_reuse_fds = [], fs_fd_table = []\<rparr>"

lemma fs_sample_wf: "fs_wf fs_sample" "fs_clusters fs_sample = 16"
  by (simp_all add: fs_wf_def fs_sample_def mem_sectors_def boot_sector_sample_def fs_secs_def fs_clusters_def)
     (simp_all add: mem_new_def)

lemma fs_sample_secs: "n < 100 \<Longrightarrow> fs_secs fs_sample ! n = replicate 512 0"
  by (simp add: fs_secs_def fs_sample_def mem_new_def)

lemma fs_sample_fat: "fat_has fs_sample c \<Longrightarrow> fat_get fs_sample c = 0"
  using fat_sector_bounds(2) [OF fs_sample_wf(1), of c] even_offset(1) [of "unat c"]
  by (simp add: fat_get_def fs_sample_secs le16_at_def mult.commute u16_from_le_def
      fs_secs_def fs_sample_def mem_new_def)

text \<open>\<open>write_fat_entry\<close> and \<open>read_fat_entry\<close> obey the laws of an array: after a write of cluster \<open>c\<close>
  a read of \<open>c\<close> returns the written entry and a read of any other cluster what it returned before; both
  copies of the table stay equal, no sector outside the table changes, and the file system stays
  well formed.\<close>

theorem fat_entry_read_after_write:
  assumes "fs_wf fs" "fat_has fs c" "fat_has fs d"
  shows "\<exists>fs'. write_fat_entry mem_ops c e fs = (Ok (), fs') \<and> fs_wf fs'
    \<and> (if d = c then read_fat_entry mem_ops d fs' = (Ok e, fs')
       else \<exists>x. read_fat_entry mem_ops d fs = (Ok x, fs) \<and> read_fat_entry mem_ops d fs' = (Ok x, fs'))
    \<and> (fat_mirrored fs \<longrightarrow> fat_mirrored fs')
    \<and> (\<forall>n < length (fs_secs fs). n < fs_fat_start fs \<or> fs_root_dir_start fs \<le> n
         \<longrightarrow> fs_secs fs' ! n = fs_secs fs ! n)"
proof -
  let ?fs = "fat_put c (fe_cluster e) fs"
  have wf: "fs_wf ?fs" using assms(1,2) by (rule fs_wf_fat_put)
  have d: "fat_has ?fs d" using assms(3) by simp
  have "read_fat_entry mem_ops d ?fs = (Ok \<lparr>fe_cluster = if d = c then fe_cluster e else fat_get fs d\<rparr>, ?fs)"
    using read_fat_entry_mem [OF wf d] fat_get_put [OF assms] by simp
  moreover have "read_fat_entry mem_ops d fs = (Ok \<lparr>fe_cluster = fat_get fs d\<rparr>, fs)"
    by (rule read_fat_entry_mem [OF assms(1,3)])
  ultimately show ?thesis
    using write_fat_entry_mem [OF assms(1,2), of e] wf fat_mirrored_put [OF assms(1,2)]
      fat_put_outside [OF assms(1,2)] by (intro exI [of _ ?fs]) auto
qed

theorem fat_entry_read_after_write_witness:
  "fs_wf fs_sample \<and> fat_has fs_sample 5 \<and>
   (\<exists>fs'. write_fat_entry mem_ops 5 \<lparr>fe_cluster = 7\<rparr> fs_sample = (Ok (), fs')
        \<and> read_fat_entry mem_ops 5 fs' = (Ok \<lparr>fe_cluster = 7\<rparr>, fs'))"
proof -
  have h: "fat_has fs_sample 5" by (simp add: fat_has_def fs_sample_def boot_sector_sample_def)
  show ?thesis
    using fat_entry_read_after_write [OF fs_sample_wf(1) h h, of "\<lparr>fe_cluster = 7\<rparr>"] fs_sample_wf(1) h by auto
qed



end
