(* ===== verification/Fat16_Dir.thy ===== *)
theory Fat16_Dir
  imports Fat16_Table
begin

text \<open>
  Directories of the FAT16 driver (\<open>filesys/fat16/mod.rs\<close>): scanning the sectors of a directory for a
  name or for a slot, path resolution, and writing entries.  The loops over sectors carry the sector
  buffer that the source reuses; the loops over the 16 entries of a sector are recursions over the list
  of their indices.  The sectors of a directory are the fixed root region for cluster 0 and the one
  cluster otherwise.
\<close>

section \<open>Operations\<close>

definition ENTRIES_PER_SECTOR :: nat where
  "ENTRIES_PER_SECTOR = SECTOR_SIZE div DIR_ENTRY_BYTES"

text \<open>The \<open>DirEntry83\<close> behind \<open>sector_buffer.as_ptr().add(i * size_of::<DirEntry83>())\<close>.\<close>

definition entry_at :: "bytes \<Rightarrow> nat \<Rightarrow> dir_entry83" where
  "entry_at buf i = decode_dir_entry (take DIR_ENTRY_BYTES (drop (i * DIR_ENTRY_BYTES) buf))"

definition put_entry :: "bytes \<Rightarrow> nat \<Rightarrow> dir_entry83 \<Rightarrow> bytes" where
  "put_entry buf off e = buf_splice buf off (encode_dir_entry e)"

text \<open>First sector and number of sectors of a directory.\<close>

definition dir_extent :: "nat \<Rightarrow> ('d fat16, fs_error, nat \<times> nat) prog" where
  "dir_extent dir_cluster =
    (if dir_cluster = 0
     then bnd (gets fs_root_dir_start) (\<lambda>r. ret (r, ROOT_DIR_ENTRIES div ENTRIES_PER_SECTOR))
     else bnd (cluster_to_sector (word_of_nat dir_cluster)) (\<lambda>start_sector.
          bnd (gets fs_boot_sector) (\<lambda>bsec.
          ret (start_sector, unat (sectors_per_cluster bsec)))))"

subsection \<open>Lookup\<close>

fun find_in_sector :: "bytes \<Rightarrow> bytes \<Rightarrow> nat list \<Rightarrow> (nat \<times> dir_entry83) option" where
  "find_in_sector name buf [] = None"
| "find_in_sector name buf (i # is) =
    (let entry = entry_at buf i
     in if de_is_free entry then None
     else if \<not> de_is_deleted entry \<and> de_get_name entry = name then Some (i, entry)
     else find_in_sector name buf is)"

fun find_sectors :: "'d block_device \<Rightarrow> bytes \<Rightarrow> nat \<Rightarrow> nat list \<Rightarrow> bytes
    \<Rightarrow> ('d fat16, fs_error, dir_entry83 \<times> nat) prog" where
  "find_sectors ops name start_sector [] buf = raise NotFound"
| "find_sectors ops name start_sector (k # ks) buf =
    bnd (dev (bd_read ops (start_sector + k) buf)) (\<lambda>buf.
    case find_in_sector name buf [0..<ENTRIES_PER_SECTOR] of
      Some (i, entry) \<Rightarrow> ret (entry, (start_sector + k) * SECTOR_SIZE + i * DIR_ENTRY_BYTES)
    | None \<Rightarrow> find_sectors ops name start_sector ks buf)"

definition find_entry_in_dir :: "'d block_device \<Rightarrow> nat \<Rightarrow> bytes
    \<Rightarrow> ('d fat16, fs_error, dir_entry83 \<times> nat) prog" where
  "find_entry_in_dir ops dir_cluster name =
    bnd (dir_extent dir_cluster) (\<lambda>(start_sector, num_sectors).
    find_sectors ops name start_sector [0..<num_sectors] (replicate SECTOR_SIZE 0))"

fun find_components :: "'d block_device \<Rightarrow> nat \<Rightarrow> bytes list \<Rightarrow> ('d fat16, fs_error, dir_entry83 \<times> nat) prog" where
  "find_components ops dir_cluster [] = raise InvalidName"
| "find_components ops dir_cluster [c] = find_entry_in_dir ops dir_cluster c"
| "find_components ops dir_cluster (c # d # cs) =
    bnd (find_entry_in_dir ops dir_cluster c) (\<lambda>(entry, _).
    if \<not> de_is_directory entry then raise NotFound
    else find_components ops (unat (de_start_cluster entry)) (d # cs))"

definition find_entry :: "'d block_device \<Rightarrow> bytes \<Rightarrow> ('d fat16, fs_error, dir_entry83 \<times> nat) prog" where
  "find_entry ops path = find_components ops 0 (path_components path)"

subsection \<open>Slots\<close>

definition free_slot :: "bytes \<Rightarrow> nat option" where
  "free_slot buf =
    find (\<lambda>i. de_is_free (entry_at buf i) \<or> de_is_deleted (entry_at buf i)) [0..<ENTRIES_PER_SECTOR]"

fun write_dir_sectors :: "'d block_device \<Rightarrow> dir_entry83 \<Rightarrow> nat \<Rightarrow> nat list \<Rightarrow> bytes
    \<Rightarrow> ('d fat16, fs_error, unit) prog" where
  "write_dir_sectors ops entry start_sector [] buf = raise NotSupported"
| "write_dir_sectors ops entry start_sector (k # ks) buf =
    bnd (dev (bd_read ops (start_sector + k) buf)) (\<lambda>buf.
    case free_slot buf of
      Some i \<Rightarrow> dev (bd_write ops (start_sector + k) (put_entry buf (i * DIR_ENTRY_BYTES) entry))
    | None \<Rightarrow> write_dir_sectors ops entry start_sector ks buf)"

definition write_dir_entry :: "'d block_device \<Rightarrow> u16 \<Rightarrow> dir_entry83 \<Rightarrow> ('d fat16, fs_error, unit) prog" where
  "write_dir_entry ops dir_cluster entry =
    bnd (dir_extent (unat dir_cluster)) (\<lambda>(start_sector, num_sectors).
    write_dir_sectors ops entry start_sector [0..<num_sectors] (replicate SECTOR_SIZE 0))"

definition init_directory :: "'d block_device \<Rightarrow> u16 \<Rightarrow> u16 \<Rightarrow> ('d fat16, fs_error, unit) prog" where
  "init_directory ops cluster parent_cluster =
    (let dot_entry = de_new_directory [0x2E] cluster;
         dotdot_entry = de_new_directory [0x2E, 0x2E] parent_cluster
     in bnd (cluster_to_sector cluster) (\<lambda>sector.
     let sector_data = put_entry (put_entry (replicate SECTOR_SIZE 0) 0 dot_entry) DIR_ENTRY_BYTES dotdot_entry
     in bnd (dev (bd_write ops sector sector_data)) (\<lambda>_.
     bnd (gets fs_boot_sector) (\<lambda>bsec.
     for_each [1..<unat (sectors_per_cluster bsec)]
       (\<lambda>i. dev (bd_write ops (sector + i) (replicate SECTOR_SIZE 0)))))))"

fun empty_scan :: "bytes \<Rightarrow> nat list \<Rightarrow> bool" where
  "empty_scan buf [] = True"
| "empty_scan buf (i # is) =
    (let entry = entry_at buf i
     in if de_is_free entry then True
     else if \<not> de_is_deleted entry \<and> de_get_name entry \<noteq> [0x2E] \<and> de_get_name entry \<noteq> [0x2E, 0x2E]
     then False
     else empty_scan buf is)"

definition is_directory_empty :: "'d block_device \<Rightarrow> u16 \<Rightarrow> ('d fat16, fs_error, bool) prog" where
  "is_directory_empty ops dir_cluster =
    bnd (cluster_to_sector dir_cluster) (\<lambda>sector.
    bnd (dev (bd_read ops sector (replicate SECTOR_SIZE 0))) (\<lambda>buf.
    ret (empty_scan buf [0..<ENTRIES_PER_SECTOR])))"

section \<open>Lookups change only the device\<close>

definition same_but_device :: "'d fat16 \<Rightarrow> 'd fat16 \<Rightarrow> bool" where
  "same_but_device fs0 fs \<longleftrightarrow> (\<exists>d. fs = fs0\<lparr>fs_device := d\<rparr>)"

lemma same_but_device_refl: "same_but_device fs fs"
  unfolding same_but_device_def by (rule exI [of _ "fs_device fs"]) simp

lemma keeps_dev [keeps_rules]: "keeps (same_but_device fs0) (dev m)"
  unfolding dev_def by (rule keeps_zoom) (auto simp: same_but_device_def)

lemma keeps_dir_extent [keeps_rules]: "keeps I (dir_extent c)"
  unfolding dir_extent_def cluster_to_sector_def by (intro keeps_rules)

lemma keeps_find_sectors [keeps_rules]: "keeps (same_but_device fs0) (find_sectors ops name start ks buf)"
  by (induction ks arbitrary: buf) (auto intro!: keeps_rules)

lemma keeps_find_entry_in_dir [keeps_rules]: "keeps (same_but_device fs0) (find_entry_in_dir ops c name)"
  unfolding find_entry_in_dir_def by (intro keeps_rules)

lemma keeps_find_entry [keeps_rules]: "keeps (same_but_device fs0) (find_entry ops path)"
proof -
  have "keeps (same_but_device fs0) (find_components ops c cs)" for c cs
    by (induction ops c cs rule: find_components.induct) (auto intro!: keeps_rules)
  then show ?thesis by (simp add: find_entry_def)
qed

section \<open>Entries of a sector\<close>

lemma entries_per_sector: "ENTRIES_PER_SECTOR = 16"
  by (simp add: ENTRIES_PER_SECTOR_def fat_consts)

lemma length_put_entry: "dir_entry_wf e \<Longrightarrow> off + 32 \<le> length buf \<Longrightarrow> length (put_entry buf off e) = length buf"
  by (simp add: put_entry_def length_buf_splice)

lemma entry_at_put:
  assumes "length buf = 512" "dir_entry_wf e" "i < 16" "k < 16"
  shows "entry_at (put_entry buf (k * 32) e) i = (if i = k then e else entry_at buf i)"
proof (cases "i = k")
  case True
  have "take 32 (drop (k * 32) (put_entry buf (k * 32) e)) = encode_dir_entry e"
    using buf_splice_same [of "k * 32" "encode_dir_entry e" buf] assms by (simp add: put_entry_def)
  then show ?thesis
    using True decode_encode_dir_entry [OF assms(2), of "[]"] by (simp add: entry_at_def fat_consts)
next
  case False
  then have "k * 32 + 32 \<le> i * 32 \<or> i * 32 + 32 \<le> k * 32" by linarith
  then have "take 32 (drop (i * 32) (put_entry buf (k * 32) e)) = take 32 (drop (i * 32) buf)"
    using buf_splice_disjoint [of "k * 32" "encode_dir_entry e" buf "i * 32" 32] assms
    by (simp add: put_entry_def)
  then show ?thesis using False by (simp add: entry_at_def fat_consts)
qed

lemma entry_at_wf: "length buf = 512 \<Longrightarrow> i < 16 \<Longrightarrow> dir_entry_wf (entry_at buf i)"
  by (simp add: entry_at_def fat_consts dir_entry_wf_decode)

text \<open>An entry that the scan for \<open>name\<close> passes.\<close>

definition passes :: "bytes \<Rightarrow> dir_entry83 \<Rightarrow> bool" where
  "passes name e \<longleftrightarrow> \<not> de_is_free e \<and> (de_is_deleted e \<or> de_get_name e \<noteq> name)"

lemma find_in_sector_skip:
  "\<forall>i \<in> set xs. passes name (entry_at buf i) \<Longrightarrow> find_in_sector name buf (xs @ ys) = find_in_sector name buf ys"
  by (induction xs) (auto simp: passes_def Let_def)

lemma find_in_sector_cong:
  "\<forall>i \<in> set is. entry_at buf' i = entry_at buf i \<Longrightarrow> find_in_sector name buf' is = find_in_sector name buf is"
  by (induction "is") (simp_all add: Let_def)

lemma find_in_sector_append_cong:
  "\<forall>i \<in> set xs. entry_at buf' i = entry_at buf i \<Longrightarrow> find_in_sector name buf' ys = find_in_sector name buf ys
    \<Longrightarrow> find_in_sector name buf' (xs @ ys) = find_in_sector name buf (xs @ ys)"
  by (induction xs) (simp_all add: Let_def)

lemma find_in_sector_Some:
  assumes "find_in_sector name buf is = Some (i, e)"
  obtains pre post where "is = pre @ i # post" "\<forall>j \<in> set pre. passes name (entry_at buf j)"
    "e = entry_at buf i" "\<not> de_is_free e" "\<not> de_is_deleted e" "de_get_name e = name"
proof -
  have "\<exists>pre post. is = pre @ i # post \<and> (\<forall>j \<in> set pre. passes name (entry_at buf j))
      \<and> e = entry_at buf i \<and> \<not> de_is_free e \<and> \<not> de_is_deleted e \<and> de_get_name e = name"
    using assms
  proof (induction "is")
    case (Cons j js)
    show ?case
    proof (cases "passes name (entry_at buf j)")
      case True
      then have "find_in_sector name buf js = Some (i, e)"
        using Cons.prems find_in_sector_skip [of "[j]" name buf js] by simp
      then obtain pre post where "js = pre @ i # post" "\<forall>j \<in> set pre. passes name (entry_at buf j)"
        "e = entry_at buf i" "\<not> de_is_free e" "\<not> de_is_deleted e" "de_get_name e = name"
        using Cons.IH by blast
      then show ?thesis using True by (intro exI [of _ "j # pre"] exI [of _ post]) simp
    next
      case False
      then show ?thesis using Cons.prems
        by (intro exI [of _ "[]"] exI [of _ js]) (auto simp: Let_def passes_def split: if_splits)
    qed
  qed simp
  then show ?thesis using that by blast
qed

text \<open>Where the scan finds nothing, it passed every entry before the first free one.\<close>

lemma find_in_sector_None:
  assumes "find_in_sector name buf (xs @ ys) = None" "\<forall>i \<in> set xs. \<not> de_is_free (entry_at buf i)"
  shows "\<forall>i \<in> set xs. passes name (entry_at buf i)"
  using assms by (induction xs) (auto simp: passes_def Let_def split: if_splits)

lemma find_in_sector_free: "de_is_free (entry_at buf i) \<Longrightarrow> find_in_sector name buf (i # is) = None"
  by simp

text \<open>Free entries come last in a packed sector.\<close>

definition packed :: "bytes \<Rightarrow> bool" where
  "packed buf \<longleftrightarrow> (\<forall>i j. i < j \<longrightarrow> j < 16 \<longrightarrow> de_is_free (entry_at buf i) \<longrightarrow> de_is_free (entry_at buf j))"

lemma free_slot_Some:
  assumes "free_slot buf = Some k"
  shows "k < 16" "de_is_free (entry_at buf k) \<or> de_is_deleted (entry_at buf k)"
    "\<forall>j < k. \<not> de_is_free (entry_at buf j) \<and> \<not> de_is_deleted (entry_at buf j)"
  using assms by (auto simp: free_slot_def entries_per_sector find_upt_Some)

lemma free_slot_None: "free_slot buf = None \<longleftrightarrow> (\<forall>j < 16. \<not> de_is_free (entry_at buf j) \<and> \<not> de_is_deleted (entry_at buf j))"
  by (auto simp: free_slot_def entries_per_sector find_None_iff)

lemma upt_split: "k < n \<Longrightarrow> [0..<n] = [0..<k] @ k # [Suc k..<n]"
  by (metis less_imp_le_nat upt_conv_Cons upt_add_eq_append le_add_diff_inverse add_0 less_eq_nat.simps(1))

lemma upt_decomp:
  assumes "[0..<n] = pre @ k # post"
  shows "pre = [0..<k]" "k < n"
proof -
  have l: "length pre < n" using arg_cong [OF assms, of length] by simp
  have "[0..<n] ! length pre = k" by (simp add: assms)
  then have k: "k = length pre" using l by simp
  have "pre = take (length pre) [0..<n]" by (simp add: assms)
  then show "pre = [0..<k]" using l k by (simp add: take_upt)
  show "k < n" using l k by simp
qed

text \<open>A sector in which the name did not occur has it after an entry of that name is put into the
  first slot; the answers for other names stay.\<close>

lemma find_in_sector_inserted:
  assumes "length buf = 512" "dir_entry_wf e" "\<not> de_is_free e" "\<not> de_is_deleted e"
    and "free_slot buf = Some k" "find_in_sector (de_get_name e) buf [0..<16] = None"
  shows "find_in_sector (de_get_name e) (put_entry buf (k * 32) e) [0..<16] = Some (k, e)"
proof -
  note k = free_slot_Some [OF assms(5)]
  let ?b = "put_entry buf (k * 32) e"
  have at: "entry_at ?b i = (if i = k then e else entry_at buf i)" if "i < 16" for i
    using entry_at_put [OF assms(1,2) that k(1)] .
  have "\<forall>i \<in> set [0..<k]. passes (de_get_name e) (entry_at buf i)"
    using assms(6) k(3) unfolding upt_split [OF k(1)] by (intro find_in_sector_None [where ys = "k # [Suc k..<16]"]) auto
  then have "\<forall>i \<in> set [0..<k]. passes (de_get_name e) (entry_at ?b i)" using at k(1) by simp
  then have "find_in_sector (de_get_name e) ?b [0..<16] = find_in_sector (de_get_name e) ?b (k # [Suc k..<16])"
    unfolding upt_split [OF k(1)] by (rule find_in_sector_skip)
  then show ?thesis using at [OF k(1)] assms(3,4) by simp
qed

lemma find_in_sector_insert_other:
  assumes "length buf = 512" "dir_entry_wf e" "\<not> de_is_free e"
    and "free_slot buf = Some k" "packed buf" "name \<noteq> de_get_name e"
  shows "find_in_sector name (put_entry buf (k * 32) e) [0..<16] = find_in_sector name buf [0..<16]"
proof -
  note k = free_slot_Some [OF assms(4)]
  let ?b = "put_entry buf (k * 32) e"
  have at: "entry_at ?b i = (if i = k then e else entry_at buf i)" if "i < 16" for i
    using entry_at_put [OF assms(1,2) that k(1)] .
  have tail: "find_in_sector name ?b (k # [Suc k..<16]) = find_in_sector name buf (k # [Suc k..<16])"
  proof -
    have "passes name (entry_at ?b k)" using at [OF k(1)] assms(3,6) by (simp add: passes_def)
    then have "find_in_sector name ?b (k # [Suc k..<16]) = find_in_sector name ?b [Suc k..<16]"
      using find_in_sector_skip [of "[k]" name ?b "[Suc k..<16]"] by simp
    also have "\<dots> = find_in_sector name buf [Suc k..<16]"
      using at k(1) by (intro find_in_sector_cong) simp
    also have "\<dots> = find_in_sector name buf (k # [Suc k..<16])"
    proof (cases "de_is_free (entry_at buf k)")
      case True
      then have "\<forall>j. k < j \<longrightarrow> j < 16 \<longrightarrow> de_is_free (entry_at buf j)" using assms(5) by (simp add: packed_def)
      then show ?thesis using True by (cases "Suc k < 16") (simp_all add: upt_conv_Cons)
    next
      case False
      then have "passes name (entry_at buf k)" using k(2) by (simp add: passes_def)
      then show ?thesis using find_in_sector_skip [of "[k]" name buf "[Suc k..<16]"] by simp
    qed
    finally show ?thesis .
  qed
  then show ?thesis
    using at k(1) unfolding upt_split [OF k(1)] by (intro find_in_sector_append_cong) auto
qed

lemma packed_put:
  assumes "length buf = 512" "dir_entry_wf e" "\<not> de_is_free e" "free_slot buf = Some k" "packed buf"
  shows "packed (put_entry buf (k * 32) e)"
proof -
  note k = free_slot_Some [OF assms(4)]
  show ?thesis unfolding packed_def
  proof (intro allI impI)
    fix i j assume ij: "i < j" "j < 16" "de_is_free (entry_at (put_entry buf (k * 32) e) i)"
    then have i: "i \<noteq> k" "de_is_free (entry_at buf i)"
      using entry_at_put [OF assms(1,2) _ k(1), of i] assms(3) by (auto split: if_splits)
    then have "k < i" using k(3) by (metis linorder_neqE_nat)
    then show "de_is_free (entry_at (put_entry buf (k * 32) e) j)"
      using entry_at_put [OF assms(1,2) ij(2) k(1)] ij(1,2) i(2) assms(5) by (auto simp: packed_def)
  qed
qed

section \<open>Directories on the in-memory device\<close>

text \<open>The scans as functions of the sectors alone.\<close>

fun dir_find :: "bytes list \<Rightarrow> bytes \<Rightarrow> nat \<Rightarrow> nat list \<Rightarrow> (dir_entry83 \<times> nat) option" where
  "dir_find secs name start [] = None"
| "dir_find secs name start (k # ks) =
    (case find_in_sector name (secs ! (start + k)) [0..<16] of
       Some (i, e) \<Rightarrow> Some (e, (start + k) * 512 + i * 32)
     | None \<Rightarrow> dir_find secs name start ks)"

fun dir_slot :: "bytes list \<Rightarrow> nat \<Rightarrow> nat list \<Rightarrow> (nat \<times> nat) option" where
  "dir_slot secs start [] = None"
| "dir_slot secs start (k # ks) =
    (case free_slot (secs ! (start + k)) of
       Some i \<Rightarrow> Some (start + k, i)
     | None \<Rightarrow> dir_slot secs start ks)"

text \<open>A cluster number that denotes a directory region: the root or an allocatable cluster.\<close>

definition dir_ok :: "'d fat16 \<Rightarrow> u16 \<Rightarrow> bool" where
  "dir_ok fs c \<longleftrightarrow> c = 0 \<or> 2 \<le> unat c \<and> unat c < fs_clusters fs"

definition dir_start :: "'d fat16 \<Rightarrow> u16 \<Rightarrow> nat" where
  "dir_start fs c = (if c = 0 then fs_root_dir_start fs else fs_data_start fs + (unat c - 2) * fs_spc fs)"

definition dir_len :: "'d fat16 \<Rightarrow> u16 \<Rightarrow> nat" where
  "dir_len fs c = (if c = 0 then 32 else fs_spc fs)"

lemma dir_frame [simp]:
  "dir_ok (fs_set_sec n b fs) c = dir_ok fs c" "dir_start (fs_set_sec n b fs) c = dir_start fs c"
  "dir_len (fs_set_sec n b fs) c = dir_len fs c" "dir_ok (fat_put d w fs) c = dir_ok fs c"
  "dir_start (fat_put d w fs) c = dir_start fs c" "dir_len (fat_put d w fs) c = dir_len fs c"
  by (simp_all add: dir_ok_def dir_start_def dir_len_def)

lemma dir_extent_mem:
  assumes "dir_ok fs c"
  shows "dir_extent (unat c) fs = (Ok (dir_start fs c, dir_len fs c), fs)"
proof (cases "c = 0")
  case True
  then show ?thesis
    by (simp add: dir_extent_def bnd_def gets_apply ret_apply dir_start_def dir_len_def fat_consts
        ENTRIES_PER_SECTOR_def)
next
  case False
  then have "2 \<le> unat c" using assms by (simp add: dir_ok_def)
  then show ?thesis using False
    by (simp add: dir_extent_def bnd_def gets_apply ret_apply dir_start_def dir_len_def cluster_to_sector_mem
        unsigned_eq_0_iff)
qed

lemma dir_inside:
  assumes "fs_wf fs" "dir_ok fs c" "k < dir_len fs c"
  shows "dir_start fs c + k < length (fs_secs fs)" "fs_root_dir_start fs \<le> dir_start fs c + k"
proof -
  show "fs_root_dir_start fs \<le> dir_start fs c + k"
    using assms(1) by (simp add: dir_start_def fs_wf_def)
  show "dir_start fs c + k < length (fs_secs fs)"
  proof (cases "c = 0")
    case True
    then show ?thesis using assms(1,3) by (simp add: dir_start_def dir_len_def fs_wf_def)
  next
    case False
    then show ?thesis
      using cluster_inside [OF assms(1), of c k] assms(2,3) by (simp add: dir_ok_def dir_len_def dir_start_def)
  qed
qed

lemma find_sectors_mem:
  assumes "mem_sectors (fs_device fs)" "\<forall>k \<in> set ks. start + k < length (fs_secs fs)" "length buf = 512"
  shows "find_sectors mem_ops name start ks buf fs =
    (case dir_find (fs_secs fs) name start ks of Some r \<Rightarrow> Ok r | None \<Rightarrow> Err NotFound, fs)"
  using assms(2,3)
proof (induction ks arbitrary: buf)
  case Nil
  then show ?case by (simp add: raise_apply)
next
  case (Cons k ks)
  have r: "dev (bd_read mem_ops (start + k) buf) fs = (Ok (fs_secs fs ! (start + k)), fs)"
    using Cons.prems by (simp add: dev_read_mem [OF assms(1)])
  have l: "length (fs_secs fs ! (start + k)) = 512"
    using Cons.prems by (intro fs_sec_length [OF assms(1)]) simp
  show ?case
    using Cons.IH [OF _ l] Cons.prems
    by (simp add: bnd_def r entries_per_sector fat_consts ret_apply split: option.splits)
qed

lemma find_entry_in_dir_mem:
  assumes "fs_wf fs" "dir_ok fs c"
  shows "find_entry_in_dir mem_ops (unat c) name fs =
    (case dir_find (fs_secs fs) name (dir_start fs c) [0..<dir_len fs c] of
       Some r \<Rightarrow> Ok r | None \<Rightarrow> Err NotFound, fs)"
  using find_sectors_mem [OF fs_wf_mem [OF assms(1)], of "[0..<dir_len fs c]" "dir_start fs c" "replicate 512 0" name]
    dir_inside(1) [OF assms]
  by (simp add: find_entry_in_dir_def bnd_def dir_extent_mem [OF assms(2)] fat_consts)

lemma write_dir_sectors_mem:
  assumes "mem_sectors (fs_device fs)" "\<forall>k \<in> set ks. start + k < length (fs_secs fs)" "length buf = 512"
    and "dir_entry_wf e"
  shows "write_dir_sectors mem_ops e start ks buf fs =
    (case dir_slot (fs_secs fs) start ks of
       Some (n, i) \<Rightarrow> (Ok (), fs_set_sec n (put_entry (fs_secs fs ! n) (i * 32) e) fs)
     | None \<Rightarrow> (Err NotSupported, fs))"
  using assms(2,3)
proof (induction ks arbitrary: buf)
  case Nil
  then show ?case by (simp add: raise_apply)
next
  case (Cons k ks)
  have r: "dev (bd_read mem_ops (start + k) buf) fs = (Ok (fs_secs fs ! (start + k)), fs)"
    using Cons.prems by (simp add: dev_read_mem [OF assms(1)])
  have l: "length (fs_secs fs ! (start + k)) = 512"
    using Cons.prems by (intro fs_sec_length [OF assms(1)]) simp
  show ?case
  proof (cases "free_slot (fs_secs fs ! (start + k))")
    case None
    then show ?thesis using Cons.IH [OF _ l] Cons.prems by (simp add: bnd_def r)
  next
    case (Some i)
    then have "length (put_entry (fs_secs fs ! (start + k)) (i * 32) e) = 512"
      using free_slot_Some(1) [OF Some] l assms(4) by (simp add: length_put_entry)
    then show ?thesis using Some Cons.prems by (simp add: bnd_def r fat_consts dev_write_mem [OF assms(1)])
  qed
qed

lemma write_dir_entry_mem:
  assumes "fs_wf fs" "dir_ok fs c" "dir_entry_wf e"
  shows "write_dir_entry mem_ops c e fs =
    (case dir_slot (fs_secs fs) (dir_start fs c) [0..<dir_len fs c] of
       Some (n, i) \<Rightarrow> (Ok (), fs_set_sec n (put_entry (fs_secs fs ! n) (i * 32) e) fs)
     | None \<Rightarrow> (Err NotSupported, fs))"
  using write_dir_sectors_mem [OF fs_wf_mem [OF assms(1)], of "[0..<dir_len fs c]" "dir_start fs c" "replicate 512 0" e]
    dir_inside(1) [OF assms(1,2)] assms(3)
  by (simp add: write_dir_entry_def bnd_def dir_extent_mem [OF assms(2)] fat_consts)

section \<open>Insertion and deletion\<close>

lemma dir_slot_Some:
  assumes "dir_slot secs start ks = Some (n, i)"
  obtains pre k post where "ks = pre @ k # post" "n = start + k" "free_slot (secs ! n) = Some i"
    "\<forall>j \<in> set pre. free_slot (secs ! (start + j)) = None"
proof -
  have "\<exists>pre k post. ks = pre @ k # post \<and> n = start + k \<and> free_slot (secs ! n) = Some i
      \<and> (\<forall>j \<in> set pre. free_slot (secs ! (start + j)) = None)"
    using assms
  proof (induction ks)
    case (Cons k ks)
    show ?case
    proof (cases "free_slot (secs ! (start + k))")
      case None
      then obtain pre k' post where "ks = pre @ k' # post" "n = start + k'" "free_slot (secs ! n) = Some i"
        "\<forall>j \<in> set pre. free_slot (secs ! (start + j)) = None"
        using Cons by auto
      then show ?thesis using None by (intro exI [of _ "k # pre"] exI [of _ k'] exI [of _ post]) simp
    next
      case (Some i')
      then show ?thesis using Cons.prems by (intro exI [of _ "[]"] exI [of _ k] exI [of _ ks]) simp
    qed
  qed simp
  then show ?thesis using that by blast
qed

lemma dir_find_skip:
  "\<forall>k \<in> set xs. find_in_sector name (secs ! (start + k)) [0..<16] = None
    \<Longrightarrow> dir_find secs name start (xs @ ys) = dir_find secs name start ys"
  by (induction xs) simp_all

lemma dir_find_None:
  "dir_find secs name start ks = None \<longleftrightarrow>
     (\<forall>k \<in> set ks. find_in_sector name (secs ! (start + k)) [0..<16] = None)"
  by (induction ks) (auto split: option.splits)

lemma dir_find_cong:
  "\<forall>k \<in> set ks. find_in_sector name (secs' ! (start + k)) [0..<16] = find_in_sector name (secs ! (start + k)) [0..<16]
    \<Longrightarrow> dir_find secs' name start ks = dir_find secs name start ks"
  by (induction ks) (simp_all split: option.splits)

lemma dir_find_Some:
  assumes "dir_find secs name start ks = Some (e, pos)"
  obtains pre k post i where "ks = pre @ k # post" "pos = (start + k) * 512 + i * 32"
    "find_in_sector name (secs ! (start + k)) [0..<16] = Some (i, e)"
    "\<forall>j \<in> set pre. find_in_sector name (secs ! (start + j)) [0..<16] = None"
proof -
  have "\<exists>pre k post i. ks = pre @ k # post \<and> pos = (start + k) * 512 + i * 32
      \<and> find_in_sector name (secs ! (start + k)) [0..<16] = Some (i, e)
      \<and> (\<forall>j \<in> set pre. find_in_sector name (secs ! (start + j)) [0..<16] = None)"
    using assms
  proof (induction ks)
    case (Cons k ks)
    show ?case
    proof (cases "find_in_sector name (secs ! (start + k)) [0..<16]")
      case None
      then obtain pre k' post i where "ks = pre @ k' # post" "pos = (start + k') * 512 + i * 32"
        "find_in_sector name (secs ! (start + k')) [0..<16] = Some (i, e)"
        "\<forall>j \<in> set pre. find_in_sector name (secs ! (start + j)) [0..<16] = None"
        using Cons by auto
      then show ?thesis using None
        by (intro exI [of _ "k # pre"] exI [of _ k'] exI [of _ post] exI [of _ i]) simp
    next
      case (Some r)
      then show ?thesis using Cons.prems
        by (intro exI [of _ "[]"] exI [of _ k] exI [of _ ks] exI [of _ "fst r"]) (auto split: prod.splits)
    qed
  qed simp
  then show ?thesis using that by blast
qed

definition dir_packed :: "mem_fs \<Rightarrow> u16 \<Rightarrow> bool" where
  "dir_packed fs c \<longleftrightarrow> (\<forall>k < dir_len fs c. packed (fs_secs fs ! (dir_start fs c + k)))"

text \<open>What \<open>write_dir_entry\<close> does when it succeeds.\<close>

lemma write_dir_entry_Ok:
  assumes "fs_wf fs" "dir_ok fs c" "dir_entry_wf e" "write_dir_entry mem_ops c e fs = (Ok (), fs')"
  obtains k i where "k < dir_len fs c" "free_slot (fs_secs fs ! (dir_start fs c + k)) = Some i"
    "fs' = fs_set_sec (dir_start fs c + k) (put_entry (fs_secs fs ! (dir_start fs c + k)) (i * 32) e) fs"
    "\<forall>j < k. free_slot (fs_secs fs ! (dir_start fs c + j)) = None" "fs_wf fs'"
    "length (fs_secs fs ! (dir_start fs c + k)) = 512" "dir_start fs c + k < length (fs_secs fs)"
proof -
  let ?s = "dir_start fs c" and ?ks = "[0..<dir_len fs c]"
  obtain n i where sl: "dir_slot (fs_secs fs) ?s ?ks = Some (n, i)"
    and fs': "fs' = fs_set_sec n (put_entry (fs_secs fs ! n) (i * 32) e) fs"
    using write_dir_entry_mem [OF assms(1-3)] assms(4) by (auto split: option.splits)
  obtain pre k post where k: "?ks = pre @ k # post" "n = ?s + k" "free_slot (fs_secs fs ! n) = Some i"
    "\<forall>j \<in> set pre. free_slot (fs_secs fs ! (?s + j)) = None"
    using sl by (rule dir_slot_Some)
  note pre = upt_decomp(1) [OF k(1)] and kl = upt_decomp(2) [OF k(1)]
  note ins = dir_inside(1) [OF assms(1,2) kl]
  have l: "length (fs_secs fs ! (?s + k)) = 512" using fs_sec_length [OF fs_wf_mem [OF assms(1)] ins] .
  have "length (put_entry (fs_secs fs ! n) (i * 32) e) = 512"
    using l free_slot_Some(1) [OF k(3)] assms(3) k(2) by (simp add: length_put_entry)
  then have "fs_wf fs'" unfolding fs' by (rule fs_wf_set_sec [OF assms(1)])
  then show ?thesis using that [of k i] kl k fs' pre l ins by simp
qed

lemma insert_lookup:
  assumes "fs_wf fs" "dir_ok fs c" "dir_entry_wf e" "\<not> de_is_free e" "\<not> de_is_deleted e"
    and nf: "dir_find (fs_secs fs) (de_get_name e) (dir_start fs c) [0..<dir_len fs c] = None"
    and w: "write_dir_entry mem_ops c e fs = (Ok (), fs')"
  shows "\<exists>pos. dir_find (fs_secs fs') (de_get_name e) (dir_start fs c) [0..<dir_len fs c] = Some (e, pos)"
proof -
  obtain k i where k: "k < dir_len fs c" "free_slot (fs_secs fs ! (dir_start fs c + k)) = Some i"
    "fs' = fs_set_sec (dir_start fs c + k) (put_entry (fs_secs fs ! (dir_start fs c + k)) (i * 32) e) fs"
    "length (fs_secs fs ! (dir_start fs c + k)) = 512" "dir_start fs c + k < length (fs_secs fs)"
    using assms(1-3) w by (rule write_dir_entry_Ok)
  let ?s = "dir_start fs c" and ?n = "de_get_name e"
  have none: "find_in_sector ?n (fs_secs fs ! (?s + j)) [0..<16] = None" if "j < dir_len fs c" for j
    using nf that unfolding dir_find_None by simp
  have sec: "fs_secs fs' ! (?s + j) = (if j = k then put_entry (fs_secs fs ! (?s + k)) (i * 32) e else fs_secs fs ! (?s + j))" for j
    using k(3,5) by simp
  have hit: "find_in_sector ?n (fs_secs fs' ! (?s + k)) [0..<16] = Some (i, e)"
    using find_in_sector_inserted [OF k(4) assms(3-5) k(2) none [OF k(1)]] sec by simp
  have "dir_find (fs_secs fs') ?n ?s ([0..<k] @ k # [Suc k..<dir_len fs c])
      = dir_find (fs_secs fs') ?n ?s (k # [Suc k..<dir_len fs c])"
    using k(1) none sec by (intro dir_find_skip) auto
  then show ?thesis using hit unfolding upt_split [OF k(1)] by simp
qed

lemma insert_other:
  assumes "fs_wf fs" "dir_ok fs c" "dir_entry_wf e" "\<not> de_is_free e"
    and pk: "dir_packed fs c" and w: "write_dir_entry mem_ops c e fs = (Ok (), fs')"
  shows "name \<noteq> de_get_name e \<Longrightarrow> dir_find (fs_secs fs') name (dir_start fs c) [0..<dir_len fs c]
      = dir_find (fs_secs fs) name (dir_start fs c) [0..<dir_len fs c]" and "dir_packed fs' c"
proof -
  obtain k i where k: "k < dir_len fs c" "free_slot (fs_secs fs ! (dir_start fs c + k)) = Some i"
    "fs' = fs_set_sec (dir_start fs c + k) (put_entry (fs_secs fs ! (dir_start fs c + k)) (i * 32) e) fs"
    "length (fs_secs fs ! (dir_start fs c + k)) = 512" "dir_start fs c + k < length (fs_secs fs)"
    using assms(1-3) w by (rule write_dir_entry_Ok)
  let ?s = "dir_start fs c"
  have sec: "fs_secs fs' ! (?s + j) = (if j = k then put_entry (fs_secs fs ! (?s + k)) (i * 32) e else fs_secs fs ! (?s + j))" for j
    using k(3,5) by simp
  have p: "packed (fs_secs fs ! (?s + j))" if "j < dir_len fs c" for j using pk that by (simp add: dir_packed_def)
  show "dir_find (fs_secs fs') name ?s [0..<dir_len fs c] = dir_find (fs_secs fs) name ?s [0..<dir_len fs c]"
    if "name \<noteq> de_get_name e"
    using find_in_sector_insert_other [OF k(4) assms(3,4) k(2) p [OF k(1)] that] sec
    by (intro dir_find_cong) simp
  show "dir_packed fs' c"
    using packed_put [OF k(4) assms(3,4) k(2) p [OF k(1)]] p sec k(3) by (simp add: dir_packed_def)
qed

subsection \<open>Visible entries\<close>

text \<open>An entry that a scan of its sector reaches and does not skip, and directories in which no two
  visible entries have the same name.\<close>

definition vis :: "bytes \<Rightarrow> nat \<Rightarrow> bool" where
  "vis buf i \<longleftrightarrow> i < 16 \<and> \<not> de_is_deleted (entry_at buf i) \<and> (\<forall>j \<le> i. \<not> de_is_free (entry_at buf j))"

definition dir_unique :: "mem_fs \<Rightarrow> u16 \<Rightarrow> bool" where
  "dir_unique fs c \<longleftrightarrow> (\<forall>k k' i i'. k < dir_len fs c \<longrightarrow> k' < dir_len fs c
     \<longrightarrow> vis (fs_secs fs ! (dir_start fs c + k)) i \<longrightarrow> vis (fs_secs fs ! (dir_start fs c + k')) i'
     \<longrightarrow> de_get_name (entry_at (fs_secs fs ! (dir_start fs c + k)) i)
         = de_get_name (entry_at (fs_secs fs ! (dir_start fs c + k')) i')
     \<longrightarrow> k = k' \<and> i = i')"

lemma find_in_sector_vis:
  assumes "find_in_sector name buf [0..<16] = Some (i, e)"
  shows "vis buf i" "e = entry_at buf i" "de_get_name e = name"
proof -
  obtain pre post where p: "[0..<16] = pre @ i # post" "\<forall>j \<in> set pre. passes name (entry_at buf j)"
    "e = entry_at buf i" "\<not> de_is_free e" "\<not> de_is_deleted e" "de_get_name e = name"
    using assms by (rule find_in_sector_Some)
  then show "e = entry_at buf i" "de_get_name e = name" by simp_all
  show "vis buf i"
    using p upt_decomp [OF p(1)] by (auto simp: vis_def passes_def le_less)
qed

lemma find_in_sector_None_iff:
  "find_in_sector name buf [0..<16] = None \<longleftrightarrow> (\<forall>i. vis buf i \<longrightarrow> de_get_name (entry_at buf i) \<noteq> name)"
proof
  assume n: "find_in_sector name buf [0..<16] = None"
  show "\<forall>i. vis buf i \<longrightarrow> de_get_name (entry_at buf i) \<noteq> name"
  proof (intro allI impI)
    fix i assume v: "vis buf i"
    then have "[0..<16] = [0..<Suc i] @ [Suc i..<16]"
      using upt_split [of i 16] by (simp add: vis_def)
    then have "\<forall>j \<in> set [0..<Suc i]. passes name (entry_at buf j)"
      using n v by (intro find_in_sector_None [where ys = "[Suc i..<16]"]) (auto simp: vis_def less_Suc_eq_le)
    then show "de_get_name (entry_at buf i) \<noteq> name" using v by (simp add: passes_def vis_def)
  qed
next
  assume "\<forall>i. vis buf i \<longrightarrow> de_get_name (entry_at buf i) \<noteq> name"
  then show "find_in_sector name buf [0..<16] = None"
    using find_in_sector_vis [of name buf] by (metis not_None_eq surj_pair)
qed

lemma vis_put:
  assumes "length buf = 512" "dir_entry_wf e" "\<not> de_is_free e" "\<not> de_is_deleted e"
    and "free_slot buf = Some k" "packed buf"
  shows "vis (put_entry buf (k * 32) e) i \<longleftrightarrow> i = k \<or> i \<noteq> k \<and> vis buf i"
proof -
  let ?b = "put_entry buf (k * 32) e"
  note k = free_slot_Some [OF assms(5)]
  have at: "entry_at ?b j = (if j = k then e else entry_at buf j)" if "j < 16" for j
    using entry_at_put [OF assms(1,2) that k(1)] .
  show ?thesis
  proof (cases "i < 16")
    case True
    show ?thesis
    proof (cases "i \<le> k")
      case True
      then show ?thesis using at k \<open>i < 16\<close> assms(3,4) by (auto simp: vis_def le_less)
    next
      case False
      then have ki: "k < i" by simp
      have "vis ?b i \<longleftrightarrow> \<not> de_is_deleted (entry_at buf i) \<and> (\<forall>j \<le> i. j \<noteq> k \<longrightarrow> \<not> de_is_free (entry_at buf j))"
        using at \<open>i < 16\<close> ki assms(3) by (auto simp: vis_def)
      also have "\<dots> \<longleftrightarrow> vis buf i"
      proof (cases "de_is_free (entry_at buf k)")
        case True
        then have "de_is_free (entry_at buf i)"
          using assms(6) [unfolded packed_def, rule_format, OF ki \<open>i < 16\<close>] by simp
        then show ?thesis using ki by (auto simp: vis_def)
      next
        case False
        then show ?thesis using \<open>i < 16\<close> by (auto simp: vis_def)
      qed
      finally show ?thesis using ki by simp
    qed
  qed (use k in \<open>auto simp: vis_def\<close>)
qed

lemma vis_insert_name:
  assumes "length buf = 512" "dir_entry_wf e" "free_slot buf = Some k" "i < 16"
  shows "entry_at (put_entry buf (k * 32) e) i = (if i = k then e else entry_at buf i)"
  using entry_at_put [OF assms(1,2,4) free_slot_Some(1) [OF assms(3)]] .

lemma insert_unique:
  assumes "fs_wf fs" "dir_ok fs c" "dir_entry_wf e" "\<not> de_is_free e" "\<not> de_is_deleted e"
    and nf: "dir_find (fs_secs fs) (de_get_name e) (dir_start fs c) [0..<dir_len fs c] = None"
    and pk: "dir_packed fs c" and un: "dir_unique fs c" and w: "write_dir_entry mem_ops c e fs = (Ok (), fs')"
  shows "dir_unique fs' c"
proof -
  obtain k i where k: "k < dir_len fs c" "free_slot (fs_secs fs ! (dir_start fs c + k)) = Some i"
    "fs' = fs_set_sec (dir_start fs c + k) (put_entry (fs_secs fs ! (dir_start fs c + k)) (i * 32) e) fs"
    "length (fs_secs fs ! (dir_start fs c + k)) = 512" "dir_start fs c + k < length (fs_secs fs)"
    using assms(1-3) w by (rule write_dir_entry_Ok)
  let ?sec = "\<lambda>j. fs_secs fs ! (dir_start fs c + j)" and ?sec' = "\<lambda>j. fs_secs fs' ! (dir_start fs c + j)"
  have sec: "?sec' j = (if j = k then put_entry (?sec k) (i * 32) e else ?sec j)" for j
    using k(3,5) by simp
  have v: "vis (?sec' j) m \<longleftrightarrow> j = k \<and> m = i \<or> (j \<noteq> k \<or> m \<noteq> i) \<and> vis (?sec j) m" if "j < dir_len fs c" for j m
    using vis_put [OF k(4) assms(3-5) k(2), of m] pk k(1) sec [of j] by (auto simp: dir_packed_def)
  have at: "entry_at (?sec' j) m = (if j = k \<and> m = i then e else entry_at (?sec j) m)" if "vis (?sec' j) m" for j m
    using vis_insert_name [OF k(4) assms(3) k(2), of m] that sec [of j] by (auto simp: vis_def)
  have other: "de_get_name (entry_at (?sec j) m) \<noteq> de_get_name e" if "j < dir_len fs c" "vis (?sec j) m" for j m
    using nf that unfolding dir_find_None by (simp add: find_in_sector_None_iff)
  show ?thesis unfolding dir_unique_def
  proof (intro allI impI)
    fix j j' m m'
    assume j: "j < dir_len fs' c" "j' < dir_len fs' c" "vis (fs_secs fs' ! (dir_start fs' c + j)) m"
      "vis (fs_secs fs' ! (dir_start fs' c + j')) m'"
      "de_get_name (entry_at (fs_secs fs' ! (dir_start fs' c + j)) m)
        = de_get_name (entry_at (fs_secs fs' ! (dir_start fs' c + j')) m')"
    have f: "dir_len fs' c = dir_len fs c" "dir_start fs' c = dir_start fs c" using k(3) by simp_all
    note h = j(1,2) [unfolded f] j(3-5) [unfolded f]
    show "j = j' \<and> m = m'"
      using h v [OF h(1), of m] v [OF h(2), of m'] at [OF h(3)] at [OF h(4)] other [OF h(1), of m] other [OF h(2), of m']
        un [unfolded dir_unique_def, rule_format, OF h(1,2), of m m'] by metis
  qed
qed

subsection \<open>Deletion\<close>

lemma entry_at_mark:
  assumes "length buf = 512" "i < 16" "k < 16"
  shows "entry_at (buf[k * 32 := m]) i = (if i = k
    then (entry_at buf k)\<lparr>de_name := (de_name (entry_at buf k))[0 := m]\<rparr> else entry_at buf i)"
proof (cases "i = k")
  case True
  have "take 32 (drop (k * 32) (buf[k * 32 := m])) = (take 32 (drop (k * 32) buf))[0 := m]"
    by (simp add: drop_update_swap take_update_swap)
  moreover have "length (take 32 (drop (k * 32) buf)) = 32" using assms by simp
  ultimately show ?thesis
    using True by (simp add: entry_at_def fat_consts decode_dir_entry_def le16_at_def le32_at_def
        take_update_swap drop_update_cancel)
next
  case False
  have "take 32 (drop (i * 32) (buf[k * 32 := m])) = take 32 (drop (i * 32) buf)"
  proof (cases "k < i")
    case True
    then show ?thesis by (simp add: drop_update_cancel)
  next
    case False
    then have "i * 32 + 32 \<le> k * 32" using \<open>i \<noteq> k\<close> by linarith
    then show ?thesis by (simp add: drop_update_swap)
  qed
  then show ?thesis using False by (simp add: entry_at_def fat_consts)
qed

lemma marked_entry:
  assumes "length buf = 512" "k < 16"
  shows "de_is_deleted (entry_at (buf[k * 32 := DELETED_ENTRY_MARKER]) k)"
    "\<not> de_is_free (entry_at (buf[k * 32 := DELETED_ENTRY_MARKER]) k)"
proof -
  have "length (de_name (entry_at buf k)) = 8" using entry_at_wf [OF assms] by (simp add: dir_entry_wf_def)
  then show "de_is_deleted (entry_at (buf[k * 32 := DELETED_ENTRY_MARKER]) k)"
    "\<not> de_is_free (entry_at (buf[k * 32 := DELETED_ENTRY_MARKER]) k)"
    using entry_at_mark [OF assms(1,2,2)]
    by (simp_all add: de_is_deleted_def de_is_free_def DELETED_ENTRY_MARKER_def)
qed

lemma vis_mark:
  assumes "length buf = 512" "vis buf k"
  shows "vis (buf[k * 32 := DELETED_ENTRY_MARKER]) i \<longleftrightarrow> i \<noteq> k \<and> vis buf i"
proof -
  have k: "k < 16" using assms(2) by (simp add: vis_def)
  have fr: "de_is_free (entry_at (buf[k * 32 := DELETED_ENTRY_MARKER]) j) = de_is_free (entry_at buf j)" if "j < 16" for j
    using entry_at_mark [OF assms(1) that k] marked_entry(2) [OF assms(1) k] assms(2) by (auto simp: vis_def)
  show ?thesis
  proof (cases "i < 16")
    case True
    then show ?thesis
      using fr entry_at_mark [OF assms(1) True k] marked_entry(1) [OF assms(1) k] by (auto simp: vis_def)
  qed (simp add: vis_def)
qed

text \<open>A pair of sectors with the same visible entries up to \<open>k\<close>, which is not the one looked for.\<close>

lemma find_in_sector_vis_cong:
  assumes "\<forall>i < 16. i \<noteq> k \<longrightarrow> entry_at buf' i = entry_at buf i"
    and "passes name (entry_at buf k)" "passes name (entry_at buf' k)" "set is \<subseteq> {..<16}"
  shows "find_in_sector name buf' is = find_in_sector name buf is"
  using assms(4)
proof (induction "is")
  case (Cons i "is")
  show ?case
  proof (cases "i = k")
    case True
    then show ?thesis using Cons assms(2,3) find_in_sector_skip [of "[k]" name] by simp
  next
    case False
    then show ?thesis using Cons assms(1) by (simp add: Let_def)
  qed
qed simp

lemma find_in_sector_mark_other:
  assumes "length buf = 512" "find_in_sector name buf [0..<16] = Some (k, e)" "name' \<noteq> name"
  shows "find_in_sector name' (buf[k * 32 := DELETED_ENTRY_MARKER]) [0..<16] = find_in_sector name' buf [0..<16]"
proof -
  note v = find_in_sector_vis [OF assms(2)]
  have k: "k < 16" using v(1) by (simp add: vis_def)
  show ?thesis
  proof (rule find_in_sector_vis_cong)
    show "\<forall>i < 16. i \<noteq> k \<longrightarrow> entry_at (buf[k * 32 := DELETED_ENTRY_MARKER]) i = entry_at buf i"
      using entry_at_mark [OF assms(1) _ k] by simp
    show "passes name' (entry_at buf k)" using v assms(3) by (auto simp: passes_def vis_def)
    show "passes name' (entry_at (buf[k * 32 := DELETED_ENTRY_MARKER]) k)"
      using marked_entry [OF assms(1) k] by (simp add: passes_def)
  qed auto
qed

subsection \<open>Blank directories\<close>

text \<open>A directory whose sectors are all zero, as \<open>format\<close> leaves the root.\<close>

definition dir_blank :: "mem_fs \<Rightarrow> u16 \<Rightarrow> bool" where
  "dir_blank fs c \<longleftrightarrow> (\<forall>k < dir_len fs c. fs_secs fs ! (dir_start fs c + k) = replicate 512 0)"

lemma zero_sector_free: "i < 16 \<Longrightarrow> de_is_free (entry_at (replicate 512 0) i)"
  by (simp add: de_is_free_def entry_at_def fat_consts decode_dir_entry_def)

lemma zero_sector:
  "packed (replicate 512 0)" "\<not> vis (replicate 512 0) i" "free_slot (replicate 512 0) = Some 0"
  "find_in_sector name (replicate 512 0) [0..<16] = None"
proof -
  show "packed (replicate 512 0)" by (simp add: packed_def zero_sector_free)
  show v: "\<not> vis (replicate 512 0) i" for i using zero_sector_free [of i] by (auto simp: vis_def)
  show "free_slot (replicate 512 0) = Some 0"
    by (simp add: free_slot_def entries_per_sector find_upt_Some zero_sector_free)
  show "find_in_sector name (replicate 512 0) [0..<16] = None" using v by (simp add: find_in_sector_None_iff)
qed

lemma dir_blank_props:
  assumes "dir_blank fs c"
  shows "dir_packed fs c" "dir_unique fs c" "dir_find (fs_secs fs) name (dir_start fs c) [0..<dir_len fs c] = None"
  using assms zero_sector by (simp_all add: dir_blank_def dir_packed_def dir_unique_def dir_find_None)

lemma dir_blank_slot:
  assumes "dir_blank fs c" "0 < dir_len fs c"
  shows "dir_slot (fs_secs fs) (dir_start fs c) [0..<dir_len fs c] = Some (dir_start fs c, 0)"
proof -
  have "fs_secs fs ! (dir_start fs c + 0) = replicate 512 0" using assms by (simp only: dir_blank_def)
  then show ?thesis unfolding upt_conv_Cons [OF assms(2)] by (simp add: zero_sector(3))
qed

section \<open>Properties\<close>

lemma fs_sample_root: "dir_ok fs_sample 0" "dir_blank fs_sample 0"
  by (simp_all add: dir_ok_def dir_blank_def dir_len_def dir_start_def fs_sample_def fs_secs_def mem_new_def)

lemma entry_sample_ok: "dir_entry_wf entry_sample" "\<not> de_is_free entry_sample" "\<not> de_is_deleted entry_sample"
  using new_file_visible [of "[0x54, 0x41, 0x4F, 0x53]" "[0x54, 0x58, 0x54]" 2]
  by (simp_all add: entry_sample_def DELETED_ENTRY_MARKER_def)

lemma fs_sample_insert:
  "find_entry_in_dir mem_ops (unat (0 :: u16)) (de_get_name entry_sample) fs_sample = (Err NotFound, fs_sample)"
  "\<exists>fs'. write_dir_entry mem_ops 0 entry_sample fs_sample = (Ok (), fs')"
proof -
  show "find_entry_in_dir mem_ops (unat (0 :: u16)) (de_get_name entry_sample) fs_sample = (Err NotFound, fs_sample)"
    using find_entry_in_dir_mem [OF fs_sample_wf(1) fs_sample_root(1)] dir_blank_props(3) [OF fs_sample_root(2)]
    by simp
  have "0 < dir_len fs_sample 0" by (simp add: dir_len_def)
  then show "\<exists>fs'. write_dir_entry mem_ops 0 entry_sample fs_sample = (Ok (), fs')"
    using write_dir_entry_mem [OF fs_sample_wf(1) fs_sample_root(1) entry_sample_ok(1)]
      dir_blank_slot [OF fs_sample_root(2)] by simp
qed

text \<open>C27: After \<open>write_dir_entry\<close> stored an entry under a name the directory did not have, a lookup of that
  name returns the entry, and a lookup of any other name answers as before.\<close>

theorem directory_insert_lookup:
  assumes "fs_wf fs" "dir_ok fs c" "dir_entry_wf e" "\<not> de_is_free e" "\<not> de_is_deleted e" "dir_packed fs c"
    and "find_entry_in_dir mem_ops (unat c) (de_get_name e) fs = (Err NotFound, fs)"
    and "write_dir_entry mem_ops c e fs = (Ok (), fs')"
  shows "(\<exists>pos. find_entry_in_dir mem_ops (unat c) (de_get_name e) fs' = (Ok (e, pos), fs'))
    \<and> (\<forall>name. name \<noteq> de_get_name e \<longrightarrow>
         fst (find_entry_in_dir mem_ops (unat c) name fs') = fst (find_entry_in_dir mem_ops (unat c) name fs))"
proof -
  have nf: "dir_find (fs_secs fs) (de_get_name e) (dir_start fs c) [0..<dir_len fs c] = None"
    using assms(7) find_entry_in_dir_mem [OF assms(1,2)] by (auto split: option.splits)
  obtain k i where fs': "fs' = fs_set_sec (dir_start fs c + k) (put_entry (fs_secs fs ! (dir_start fs c + k)) (i * 32) e) fs"
    and wf: "fs_wf fs'"
    using assms(1-3,8) by (rule write_dir_entry_Ok)
  have f: "dir_ok fs' c" "dir_len fs' c = dir_len fs c" "dir_start fs' c = dir_start fs c"
    using fs' assms(2) by simp_all
  note look = find_entry_in_dir_mem [OF wf f(1), unfolded f]
  obtain pos where "dir_find (fs_secs fs') (de_get_name e) (dir_start fs c) [0..<dir_len fs c] = Some (e, pos)"
    using insert_lookup [OF assms(1-5) nf assms(8)] by blast
  then have "find_entry_in_dir mem_ops (unat c) (de_get_name e) fs' = (Ok (e, pos), fs')"
    unfolding look by simp
  moreover have "fst (find_entry_in_dir mem_ops (unat c) name fs') = fst (find_entry_in_dir mem_ops (unat c) name fs)"
    if "name \<noteq> de_get_name e" for name
    unfolding look find_entry_in_dir_mem [OF assms(1,2)] insert_other(1) [OF assms(1-4,6,8) that] by simp
  ultimately show ?thesis by blast
qed

theorem directory_insert_lookup_witness:
  "\<exists>fs'. write_dir_entry mem_ops 0 entry_sample fs_sample = (Ok (), fs')
     \<and> (\<exists>pos. find_entry_in_dir mem_ops (unat (0 :: u16)) (de_get_name entry_sample) fs' = (Ok (entry_sample, pos), fs'))"
proof -
  obtain fs' where w: "write_dir_entry mem_ops 0 entry_sample fs_sample = (Ok (), fs')"
    using fs_sample_insert(2) by blast
  show ?thesis
    using directory_insert_lookup [OF fs_sample_wf(1) fs_sample_root(1) entry_sample_ok
        dir_blank_props(1) [OF fs_sample_root(2)] fs_sample_insert(1) w] w by blast
qed

text \<open>C28: The directory invariant is kept by insertion: when free entries come last in each sector and no two
  visible entries share a name, the same holds after \<open>write_dir_entry\<close> of an entry with a new name, and the
  file system stays well formed.\<close>

theorem directory_insert_invariant:
  assumes "fs_wf fs" "dir_ok fs c" "dir_entry_wf e" "\<not> de_is_free e" "\<not> de_is_deleted e"
    and "dir_packed fs c" "dir_unique fs c"
    and "find_entry_in_dir mem_ops (unat c) (de_get_name e) fs = (Err NotFound, fs)"
    and "write_dir_entry mem_ops c e fs = (Ok (), fs')"
  shows "fs_wf fs' \<and> dir_packed fs' c \<and> dir_unique fs' c"
proof -
  have nf: "dir_find (fs_secs fs) (de_get_name e) (dir_start fs c) [0..<dir_len fs c] = None"
    using assms(8) find_entry_in_dir_mem [OF assms(1,2)] by (auto split: option.splits)
  obtain k i where "fs_wf fs'"
    using assms(1-3,9) by (rule write_dir_entry_Ok)
  then show ?thesis
    using insert_other(2) [OF assms(1-4,6,9)] insert_unique [OF assms(1-5) nf assms(6,7,9)] by blast
qed

theorem directory_insert_invariant_witness:
  "dir_unique fs_sample 0 \<and> (\<exists>fs'. write_dir_entry mem_ops 0 entry_sample fs_sample = (Ok (), fs') \<and> dir_unique fs' 0)"
proof -
  obtain fs' where w: "write_dir_entry mem_ops 0 entry_sample fs_sample = (Ok (), fs')"
    using fs_sample_insert(2) by blast
  show ?thesis
    using directory_insert_invariant [OF fs_sample_wf(1) fs_sample_root(1) entry_sample_ok
        dir_blank_props(1,2) [OF fs_sample_root(2)] fs_sample_insert(1) w] w
      dir_blank_props(2) [OF fs_sample_root(2)] by blast
qed

end
