(* ===== verification/Fat16_File.thy ===== *)
theory Fat16_File
  imports Fat16_Dir
begin

text \<open>
  Open files of the FAT16 driver: the methods of \<open>Fat16File\<close> (\<open>filesys/fat16/file.rs\<close>), which work on the
  file and a device, and the descriptor operations of \<open>Fat16\<close> (\<open>filesys/fat16/mod.rs\<close>), which repeat the
  transfer loops on the entry of the descriptor table.  In the loops \<open>buf_offset\<close> always equals the number
  of bytes transferred, so one counter stands for both.
\<close>

section \<open>Methods of Fat16File\<close>

datatype seek_from = SeekStart nat | SeekCurrent int | SeekEnd int

definition file_read_fat_entry :: "'d block_device \<Rightarrow> fat16_file \<Rightarrow> u16 \<Rightarrow> ('d, fs_error, fat_entry) prog" where
  "file_read_fat_entry ops self cluster =
    (let offset = unat cluster * FAT_ENTRY_SIZE;
         sector = ff_fat_start self + offset div SECTOR_SIZE;
         sector_offset = offset mod SECTOR_SIZE
     in bnd (bd_read ops sector (replicate SECTOR_SIZE 0)) (\<lambda>sector_data.
     bnd (lift_res (index_at sector_data sector_offset)) (\<lambda>b0.
     bnd (lift_res (index_at sector_data (sector_offset + 1))) (\<lambda>b1.
     ret \<lparr>fe_cluster = u16_from_le b0 b1\<rparr>))))"

definition file_write_fat_entry :: "'d block_device \<Rightarrow> fat16_file \<Rightarrow> u16 \<Rightarrow> fat_entry \<Rightarrow> ('d, fs_error, unit) prog" where
  "file_write_fat_entry ops self cluster entry =
    (let offset = unat cluster * FAT_ENTRY_SIZE;
         sector = ff_fat_start self + offset div SECTOR_SIZE;
         sector_offset = offset mod SECTOR_SIZE
     in bnd (bd_read ops sector (replicate SECTOR_SIZE 0)) (\<lambda>sector_data.
     let bs = u16_to_le (fe_cluster entry)
     in bnd (lift_res (store_at sector_data sector_offset (bs ! 0))) (\<lambda>sector_data.
     bnd (lift_res (store_at sector_data (sector_offset + 1) (bs ! 1))) (\<lambda>sector_data.
     bd_write ops sector sector_data))))"

text \<open>The raw pointer to the directory entry is written at its field \<open>file_size\<close> only, 28 bytes in.\<close>

definition file_update_directory_entry :: "'d block_device \<Rightarrow> fat16_file \<Rightarrow> nat \<Rightarrow> ('d, fs_error, unit) prog" where
  "file_update_directory_entry ops self new_size =
    (let sector = ff_entry_position self div SECTOR_SIZE;
         offset = ff_entry_position self mod SECTOR_SIZE
     in bnd (bd_read ops sector (replicate SECTOR_SIZE 0)) (\<lambda>sector_buffer.
     bd_write ops sector (buf_splice sector_buffer (offset + 28) (u32_to_le (word_of_nat new_size)))))"

fun file_allocate_search :: "'d block_device \<Rightarrow> fat16_file \<Rightarrow> nat list \<Rightarrow> ('d, fs_error, u16) prog" where
  "file_allocate_search ops self [] = raise NoSpace"
| "file_allocate_search ops self (c # cs) =
    bnd (file_read_fat_entry ops self (word_of_nat c)) (\<lambda>entry.
    if fe_is_free entry
    then bnd (file_write_fat_entry ops self (word_of_nat c) \<lparr>fe_cluster = 0xFFFF\<rparr>) (\<lambda>_. ret (word_of_nat c))
    else file_allocate_search ops self cs)"

definition file_allocate_cluster :: "'d block_device \<Rightarrow> fat16_file \<Rightarrow> ('d, fs_error, u16) prog" where
  "file_allocate_cluster ops self =
    bnd (lift_res (u64_div (ff_data_start self) (ff_cluster_size self))) (\<lambda>total_clusters.
    file_allocate_search ops self [2..<total_clusters mod 2 ^ 16])"

definition file_cluster_to_sector :: "fat16_file \<Rightarrow> u16 \<Rightarrow> ('e, nat) res" where
  "file_cluster_to_sector self cluster =
    (if 2 \<le> unat cluster
     then Ok (ff_data_start self + (unat cluster - 2) * (ff_cluster_size self div SECTOR_SIZE))
     else Panic)"

text \<open>The loops that read a cluster sector by sector into a buffer and write one back.\<close>

fun read_sectors :: "'d block_device \<Rightarrow> nat \<Rightarrow> nat list \<Rightarrow> bytes \<Rightarrow> ('d, fs_error, bytes) prog" where
  "read_sectors ops sector [] cluster_data = ret cluster_data"
| "read_sectors ops sector (i # is) cluster_data =
    bnd (bd_read ops (sector + i) (replicate SECTOR_SIZE 0)) (\<lambda>sector_data.
    bnd (lift_res (copy_slice cluster_data (i * SECTOR_SIZE) sector_data)) (\<lambda>cluster_data.
    read_sectors ops sector is cluster_data))"

definition write_sectors :: "'d block_device \<Rightarrow> nat \<Rightarrow> nat list \<Rightarrow> bytes \<Rightarrow> ('d, fs_error, unit) prog" where
  "write_sectors ops sector is cluster_data =
    for_each is (\<lambda>i.
      bnd (lift_res (sub_slice cluster_data (i * SECTOR_SIZE) SECTOR_SIZE)) (\<lambda>b.
      bd_write ops (sector + i) b))"

text \<open>The state of a method with \<open>&mut self\<close> and a device.\<close>

definition fdev :: "('d, fs_error, 'a) prog \<Rightarrow> (fat16_file \<times> 'd, fs_error, 'a) prog" where
  "fdev = zoom snd (\<lambda>d s. (fst s, d))"

definition fmod :: "(fat16_file \<Rightarrow> fat16_file) \<Rightarrow> (fat16_file \<times> 'd, fs_error, unit) prog" where
  "fmod f = modify_st (\<lambda>s. (f (fst s), snd s))"

definition file_next_write :: "'d block_device \<Rightarrow> (fat16_file \<times> 'd, fs_error, unit) prog" where
  "file_next_write ops =
    bnd (gets fst) (\<lambda>self.
    bnd (fdev (file_read_fat_entry ops self (ff_current_cluster self))) (\<lambda>fat_entry.
    if fe_is_end_of_chain fat_entry
    then bnd (fdev (file_allocate_cluster ops self)) (\<lambda>new_cluster.
         bnd (fdev (file_write_fat_entry ops self (ff_current_cluster self) \<lparr>fe_cluster = new_cluster\<rparr>)) (\<lambda>_.
         fmod (\<lambda>f. f\<lparr>ff_current_cluster := new_cluster\<rparr>)))
    else fmod (\<lambda>f. f\<lparr>ff_current_cluster := fe_cluster fat_entry\<rparr>)))"

definition file_write_body :: "'d block_device \<Rightarrow> bytes \<Rightarrow> nat \<Rightarrow> (fat16_file \<times> 'd, fs_error, nat) prog" where
  "file_write_body ops buf bytes_written =
    bnd (gets fst) (\<lambda>self.
    bnd (lift_res (u64_rem (ff_position self) (ff_cluster_size self))) (\<lambda>cluster_offset.
    let bytes_left_in_cluster = ff_cluster_size self - cluster_offset;
        chunk_size = min bytes_left_in_cluster (length buf - bytes_written)
    in bnd (lift_res (file_cluster_to_sector self (ff_current_cluster self))) (\<lambda>sector.
    let spc = ff_cluster_size self div SECTOR_SIZE
    in bnd (fdev (read_sectors ops sector [0..<spc] (replicate (ff_cluster_size self) 0))) (\<lambda>cluster_data.
    bnd (lift_res (sub_slice buf bytes_written chunk_size)) (\<lambda>src.
    bnd (lift_res (copy_slice cluster_data cluster_offset src)) (\<lambda>cluster_data.
    bnd (fdev (write_sectors ops sector [0..<spc] cluster_data)) (\<lambda>_.
    bnd (lift_res (u64_add (ff_position self) chunk_size)) (\<lambda>pos.
    bnd (fmod (\<lambda>f. f\<lparr>ff_position := pos, ff_size := max (ff_size f) pos\<rparr>)) (\<lambda>_.
    bnd (if cluster_offset + chunk_size = ff_cluster_size self then file_next_write ops else ret ()) (\<lambda>_.
    ret chunk_size))))))))))"

definition file_read_body :: "'d block_device \<Rightarrow> nat \<Rightarrow> bytes \<Rightarrow> nat
    \<Rightarrow> (fat16_file \<times> 'd, fs_error, bytes \<times> nat \<times> bool) prog" where
  "file_read_body ops bytes_to_read buf bytes_read =
    bnd (gets fst) (\<lambda>self.
    bnd (lift_res (u64_rem (ff_position self) (ff_cluster_size self))) (\<lambda>cluster_offset.
    let bytes_left_in_cluster = ff_cluster_size self - cluster_offset;
        chunk_size = min bytes_left_in_cluster (bytes_to_read - bytes_read)
    in bnd (lift_res (file_cluster_to_sector self (ff_current_cluster self))) (\<lambda>sector.
    let spc = ff_cluster_size self div SECTOR_SIZE
    in bnd (fdev (read_sectors ops sector [0..<spc] (replicate (ff_cluster_size self) 0))) (\<lambda>cluster_data.
    bnd (lift_res (sub_slice cluster_data cluster_offset chunk_size)) (\<lambda>src.
    bnd (lift_res (copy_slice buf bytes_read src)) (\<lambda>buf.
    bnd (lift_res (u64_add (ff_position self) chunk_size)) (\<lambda>pos.
    bnd (fmod (\<lambda>f. f\<lparr>ff_position := pos\<rparr>)) (\<lambda>_.
    if cluster_offset + chunk_size = ff_cluster_size self
    then bnd (fdev (file_read_fat_entry ops self (ff_current_cluster self))) (\<lambda>next_cluster.
         if fe_is_end_of_chain next_cluster then ret (buf, chunk_size, True)
         else bnd (fmod (\<lambda>f. f\<lparr>ff_current_cluster := fe_cluster next_cluster\<rparr>)) (\<lambda>_.
              ret (buf, chunk_size, False)))
    else ret (buf, chunk_size, False)))))))))"

text \<open>Every pass of a loop transfers at least one byte.\<close>

lemma bnd_Ok_elim:
  assumes "bnd m f s = (Ok y, t)"
  obtains x s' where "m s = (Ok x, s')" "f x s' = (Ok y, t)"
  using assms by (auto simp: bnd_Ok_iff)

lemma chunk_positive: "u64_rem p c = Ok k \<Longrightarrow> 0 < n \<Longrightarrow> 0 < min (c - k) n"
  by (auto simp: u64_rem_def split: if_splits)

lemma file_write_body_progress:
  assumes "file_write_body ops buf n s = (Ok k, s')" "n < length buf"
  shows "0 < k"
  using assms unfolding file_write_body_def Let_def
  by (elim bnd_Ok_elim) (auto simp: lift_res_apply gets_apply ret_apply u64_rem_def split: if_splits)

lemma file_read_body_progress:
  assumes "file_read_body ops len buf n s = (Ok (buf', k, stop), s')" "n < len"
  shows "0 < k"
  using assms unfolding file_read_body_def Let_def
  by (elim bnd_Ok_elim) (auto simp: lift_res_apply gets_apply ret_apply u64_rem_def bnd_Ok_iff split: if_splits)

function file_write_loop :: "'d block_device \<Rightarrow> bytes \<Rightarrow> nat \<Rightarrow> (fat16_file \<times> 'd, fs_error, nat) prog" where
  "file_write_loop ops buf bytes_written s =
    (if bytes_written < length buf
     then bnd (file_write_body ops buf bytes_written) (\<lambda>n. file_write_loop ops buf (bytes_written + n)) s
     else (Ok bytes_written, s))"
  by pat_completeness auto
termination
  by (relation "measure (\<lambda>(ops, buf, n, s). length buf - n)") (auto dest: file_write_body_progress)

function file_read_loop :: "'d block_device \<Rightarrow> nat \<Rightarrow> bytes \<Rightarrow> nat \<Rightarrow> (fat16_file \<times> 'd, fs_error, nat \<times> bytes) prog" where
  "file_read_loop ops bytes_to_read buf bytes_read s =
    (if bytes_read < bytes_to_read
     then bnd (file_read_body ops bytes_to_read buf bytes_read) (\<lambda>r s. case r of (buf, n, stop) \<Rightarrow>
            if stop then (Ok (bytes_read + n, buf), s)
            else file_read_loop ops bytes_to_read buf (bytes_read + n) s) s
     else (Ok (bytes_read, buf), s))"
  by pat_completeness auto
termination
  by (relation "measure (\<lambda>(ops, len, buf, n, s). len - n)") (auto dest: file_read_body_progress)

definition read_with_device :: "'d block_device \<Rightarrow> bytes \<Rightarrow> (fat16_file \<times> 'd, fs_error, nat \<times> bytes) prog" where
  "read_with_device ops buf =
    bnd (gets fst) (\<lambda>self.
    if ff_position self \<ge> ff_size self then ret (0, buf)
    else file_read_loop ops (min (length buf) (ff_size self - ff_position self)) buf 0)"

definition write_with_device :: "'d block_device \<Rightarrow> bytes \<Rightarrow> (fat16_file \<times> 'd, fs_error, nat) prog" where
  "write_with_device ops buf =
    bnd (file_write_loop ops buf 0) (\<lambda>bytes_written.
    bnd (gets fst) (\<lambda>self.
    bnd (fdev (file_update_directory_entry ops self (ff_size self))) (\<lambda>_.
    ret bytes_written)))"

text \<open>\<open>checked_sub\<close> with \<open>unsigned_abs\<close>, and \<open>checked_add\<close>.\<close>

definition seek_offset :: "nat \<Rightarrow> int \<Rightarrow> (fs_error, nat) res" where
  "seek_offset base offset =
    (if offset < 0
     then if nat (- offset) \<le> base then Ok (base - nat (- offset)) else Err InvalidOffset
     else if base + nat offset < 2 ^ 64 then Ok (base + nat offset) else Err InvalidOffset)"

definition ff_seek :: "seek_from \<Rightarrow> (fat16_file, fs_error, nat) prog" where
  "ff_seek pos self =
    bnd (lift_res (case pos of
           SeekStart offset \<Rightarrow> Ok offset
         | SeekEnd offset \<Rightarrow> seek_offset (ff_size self) offset
         | SeekCurrent offset \<Rightarrow> seek_offset (ff_position self) offset)) (\<lambda>new_pos.
    if new_pos > ff_size self then raise InvalidOffset
    else bnd (modify_st (\<lambda>f. f\<lparr>ff_position := new_pos\<rparr>)) (\<lambda>_. ret new_pos)) self"

definition ff_flush :: "(fat16_file, fs_error, unit) prog" where
  "ff_flush = ret ()"

section \<open>Descriptor operations of Fat16\<close>

text \<open>\<open>BinaryHeap::pop\<close> takes the greatest element.\<close>

definition heap_pop :: "nat list \<Rightarrow> (nat \<times> nat list) option" where
  "heap_pop h = (if h = [] then None else Some (Max (set h), remove1 (Max (set h)) h))"

definition get_file :: "nat \<Rightarrow> ('d fat16, fs_error, fat16_file) prog" where
  "get_file fd = bnd (gets fs_fd_table) (\<lambda>table. lift_res (index_at table fd))"

definition set_file :: "nat \<Rightarrow> (fat16_file \<Rightarrow> fat16_file) \<Rightarrow> ('d fat16, fs_error, unit) prog" where
  "set_file fd f = modify_st (\<lambda>fs. fs\<lparr>fs_fd_table := (fs_fd_table fs)[fd := f (fs_fd_table fs ! fd)]\<rparr>)"

definition open_file :: "'d block_device \<Rightarrow> bytes \<Rightarrow> ('d fat16, fs_error, nat) prog" where
  "open_file ops path =
    bnd (find_entry ops path) (\<lambda>(entry, entry_pos).
    if de_is_directory entry then raise NotSupported
    else bnd get_st (\<lambda>self.
    let file = \<lparr>ff_valid = True, ff_current_cluster = de_start_cluster entry, ff_position = 0,
                ff_size = unat (de_file_size entry), ff_cluster_size = fs_cluster_size self,
                ff_fat_start = fs_fat_start self, ff_data_start = fs_data_start self,
                ff_entry_position = entry_pos\<rparr>
    in bnd (case heap_pop (fs_reuse_fds self) of
         Some (reused_fd, rest) \<Rightarrow>
           bnd (modify_st (\<lambda>fs. fs\<lparr>fs_reuse_fds := rest\<rparr>)) (\<lambda>_.
           bnd (get_file reused_fd) (\<lambda>old.
           bnd (assert_p (\<not> ff_valid old)) (\<lambda>_.
           bnd (set_file reused_fd (\<lambda>_. file)) (\<lambda>_.
           ret reused_fd))))
       | None \<Rightarrow>
           bnd (gets fs_fd_counter) (\<lambda>new_fd.
           bnd (modify_st (\<lambda>fs. fs\<lparr>fs_fd_table := fs_fd_table fs @ [file]\<rparr>)) (\<lambda>_.
           bnd (lift_res (u64_add new_fd 1)) (\<lambda>next.
           bnd (modify_st (\<lambda>fs. fs\<lparr>fs_fd_counter := next\<rparr>)) (\<lambda>_.
           ret new_fd))))) (\<lambda>fd.
    bnd (assert_p (fd \<noteq> 2 ^ 64 - 1)) (\<lambda>_.
    ret fd))))"

definition close_file :: "nat \<Rightarrow> ('d fat16, fs_error, unit) prog" where
  "close_file fd =
    bnd (get_file fd) (\<lambda>file.
    bnd (assert_p (ff_valid file)) (\<lambda>_.
    bnd (set_file fd (\<lambda>_. \<lparr>ff_valid = False, ff_current_cluster = 0, ff_position = 0, ff_size = 0,
           ff_cluster_size = 0, ff_fat_start = 0, ff_data_start = 0, ff_entry_position = 0\<rparr>)) (\<lambda>_.
    modify_st (\<lambda>fs. fs\<lparr>fs_reuse_fds := fd # fs_reuse_fds fs\<rparr>))))"

definition seek_file :: "nat \<Rightarrow> seek_from \<Rightarrow> ('d fat16, fs_error, nat) prog" where
  "seek_file fd pos =
    bnd (get_file fd) (\<lambda>file.
    bnd (lift_res (case pos of
           SeekStart offset \<Rightarrow> Ok offset
         | SeekEnd offset \<Rightarrow> seek_offset (ff_size file) offset
         | SeekCurrent offset \<Rightarrow> seek_offset (ff_position file) offset)) (\<lambda>new_pos.
    if new_pos > ff_size file then raise InvalidOffset
    else bnd (set_file fd (\<lambda>f. f\<lparr>ff_position := new_pos\<rparr>)) (\<lambda>_. ret new_pos)))"

definition fs_next_write :: "'d block_device \<Rightarrow> nat \<Rightarrow> ('d fat16, fs_error, unit) prog" where
  "fs_next_write ops fd =
    bnd (get_file fd) (\<lambda>file.
    bnd (dev (file_read_fat_entry ops file (ff_current_cluster file))) (\<lambda>fat_entry.
    if fe_is_end_of_chain fat_entry
    then bnd (dev (file_allocate_cluster ops file)) (\<lambda>new_cluster.
         bnd (dev (file_write_fat_entry ops file (ff_current_cluster file) \<lparr>fe_cluster = new_cluster\<rparr>)) (\<lambda>_.
         set_file fd (\<lambda>f. f\<lparr>ff_current_cluster := new_cluster\<rparr>)))
    else set_file fd (\<lambda>f. f\<lparr>ff_current_cluster := fe_cluster fat_entry\<rparr>)))"

definition fs_write_body :: "'d block_device \<Rightarrow> nat \<Rightarrow> bytes \<Rightarrow> nat \<Rightarrow> ('d fat16, fs_error, nat) prog" where
  "fs_write_body ops fd buf bytes_written =
    bnd (get_file fd) (\<lambda>file.
    bnd (lift_res (u64_rem (ff_position file) (ff_cluster_size file))) (\<lambda>cluster_offset.
    let bytes_left_in_cluster = ff_cluster_size file - cluster_offset;
        chunk_size = min bytes_left_in_cluster (length buf - bytes_written)
    in bnd (lift_res (file_cluster_to_sector file (ff_current_cluster file))) (\<lambda>sector.
    let spc = ff_cluster_size file div SECTOR_SIZE
    in bnd (dev (read_sectors ops sector [0..<spc] (replicate (ff_cluster_size file) 0))) (\<lambda>cluster_data.
    bnd (lift_res (sub_slice buf bytes_written chunk_size)) (\<lambda>src.
    bnd (lift_res (copy_slice cluster_data cluster_offset src)) (\<lambda>cluster_data.
    bnd (dev (write_sectors ops sector [0..<spc] cluster_data)) (\<lambda>_.
    bnd (lift_res (u64_add (ff_position file) chunk_size)) (\<lambda>pos.
    bnd (set_file fd (\<lambda>f. f\<lparr>ff_position := pos, ff_size := max (ff_size f) pos\<rparr>)) (\<lambda>_.
    bnd (if cluster_offset + chunk_size = ff_cluster_size file then fs_next_write ops fd else ret ()) (\<lambda>_.
    ret chunk_size))))))))))"

definition fs_read_body :: "'d block_device \<Rightarrow> nat \<Rightarrow> nat \<Rightarrow> bytes \<Rightarrow> nat
    \<Rightarrow> ('d fat16, fs_error, bytes \<times> nat \<times> bool) prog" where
  "fs_read_body ops fd bytes_to_read buf bytes_read =
    bnd (get_file fd) (\<lambda>file.
    bnd (lift_res (u64_rem (ff_position file) (ff_cluster_size file))) (\<lambda>cluster_offset.
    let bytes_left_in_cluster = ff_cluster_size file - cluster_offset;
        chunk_size = min bytes_left_in_cluster (bytes_to_read - bytes_read)
    in bnd (lift_res (file_cluster_to_sector file (ff_current_cluster file))) (\<lambda>sector.
    let spc = ff_cluster_size file div SECTOR_SIZE
    in bnd (dev (read_sectors ops sector [0..<spc] (replicate (ff_cluster_size file) 0))) (\<lambda>cluster_data.
    bnd (lift_res (sub_slice cluster_data cluster_offset chunk_size)) (\<lambda>src.
    bnd (lift_res (copy_slice buf bytes_read src)) (\<lambda>buf.
    bnd (lift_res (u64_add (ff_position file) chunk_size)) (\<lambda>pos.
    bnd (set_file fd (\<lambda>f. f\<lparr>ff_position := pos\<rparr>)) (\<lambda>_.
    if cluster_offset + chunk_size = ff_cluster_size file
    then bnd (dev (file_read_fat_entry ops file (ff_current_cluster file))) (\<lambda>next_cluster.
         if fe_is_end_of_chain next_cluster then ret (buf, chunk_size, True)
         else bnd (set_file fd (\<lambda>f. f\<lparr>ff_current_cluster := fe_cluster next_cluster\<rparr>)) (\<lambda>_.
              ret (buf, chunk_size, False)))
    else ret (buf, chunk_size, False)))))))))"

lemma fs_write_body_progress:
  assumes "fs_write_body ops fd buf n s = (Ok k, s')" "n < length buf"
  shows "0 < k"
  using assms unfolding fs_write_body_def Let_def
  by (elim bnd_Ok_elim) (auto simp: lift_res_apply ret_apply u64_rem_def split: if_splits)

lemma fs_read_body_progress:
  assumes "fs_read_body ops fd len buf n s = (Ok (buf', k, stop), s')" "n < len"
  shows "0 < k"
  using assms unfolding fs_read_body_def Let_def
  by (elim bnd_Ok_elim) (auto simp: lift_res_apply ret_apply u64_rem_def bnd_Ok_iff split: if_splits)

function fs_write_loop :: "'d block_device \<Rightarrow> nat \<Rightarrow> bytes \<Rightarrow> nat \<Rightarrow> ('d fat16, fs_error, nat) prog" where
  "fs_write_loop ops fd buf bytes_written s =
    (if bytes_written < length buf
     then bnd (fs_write_body ops fd buf bytes_written) (\<lambda>n. fs_write_loop ops fd buf (bytes_written + n)) s
     else (Ok bytes_written, s))"
  by pat_completeness auto
termination
  by (relation "measure (\<lambda>(ops, fd, buf, n, s). length buf - n)") (auto dest: fs_write_body_progress)

function fs_read_loop :: "'d block_device \<Rightarrow> nat \<Rightarrow> nat \<Rightarrow> bytes \<Rightarrow> nat \<Rightarrow> ('d fat16, fs_error, nat \<times> bytes) prog" where
  "fs_read_loop ops fd bytes_to_read buf bytes_read s =
    (if bytes_read < bytes_to_read
     then bnd (fs_read_body ops fd bytes_to_read buf bytes_read) (\<lambda>r s. case r of (buf, n, stop) \<Rightarrow>
            if stop then (Ok (bytes_read + n, buf), s)
            else fs_read_loop ops fd bytes_to_read buf (bytes_read + n) s) s
     else (Ok (bytes_read, buf), s))"
  by pat_completeness auto
termination
  by (relation "measure (\<lambda>(ops, fd, len, buf, n, s). len - n)") (auto dest: fs_read_body_progress)

definition write_file :: "'d block_device \<Rightarrow> nat \<Rightarrow> bytes \<Rightarrow> ('d fat16, fs_error, nat) prog" where
  "write_file ops fd buf =
    bnd (get_file fd) (\<lambda>_.
    bnd (fs_write_loop ops fd buf 0) (\<lambda>bytes_written.
    bnd (get_file fd) (\<lambda>file.
    bnd (dev (file_update_directory_entry ops file (ff_size file))) (\<lambda>_.
    ret bytes_written))))"

definition read_file :: "'d block_device \<Rightarrow> nat \<Rightarrow> bytes \<Rightarrow> ('d fat16, fs_error, nat \<times> bytes) prog" where
  "read_file ops fd buf =
    bnd (get_file fd) (\<lambda>file.
    if ff_position file \<ge> ff_size file then ret (0, buf)
    else fs_read_loop ops fd (min (length buf) (ff_size file - ff_position file)) buf 0)"

declare file_write_loop.simps [simp del] file_read_loop.simps [simp del]
  fs_write_loop.simps [simp del] fs_read_loop.simps [simp del]

section \<open>The loops of the driver are the methods of the file\<close>

text \<open>The driver's state in which one descriptor and the device are those of a method call.\<close>

definition slot_put :: "nat \<Rightarrow> 'd fat16 \<Rightarrow> fat16_file \<times> 'd \<Rightarrow> 'd fat16" where
  "slot_put fd fs t = fs\<lparr>fs_device := snd t, fs_fd_table := (fs_fd_table fs)[fd := fst t]\<rparr>"

definition slot_rel :: "nat \<Rightarrow> 'd fat16 \<Rightarrow> 'd fat16 \<Rightarrow> fat16_file \<times> 'd \<Rightarrow> bool" where
  "slot_rel fd fs s t \<longleftrightarrow> fd < length (fs_fd_table fs) \<and> s = slot_put fd fs t"

lemma slot_rel_start: "fd < length (fs_fd_table fs) \<Longrightarrow> slot_rel fd fs fs (fs_fd_table fs ! fd, fs_device fs)"
  by (simp add: slot_rel_def slot_put_def)

lemma sim_slot_dev: "sim (slot_rel fd fs) (dev m) (fdev m)"
  by (simp add: sim_def slot_rel_def slot_put_def dev_def fdev_def zoom_def split: prod.splits)

lemma sim_slot_get: "sim (slot_rel fd fs) (get_file fd) (gets fst)"
  by (simp add: sim_def slot_rel_def slot_put_def get_file_def bnd_def gets_apply lift_res_apply index_at_def)

lemma sim_slot_set: "sim (slot_rel fd fs) (set_file fd f) (fmod f)"
  by (simp add: sim_def slot_rel_def slot_put_def set_file_def fmod_def modify_st_apply)

lemmas slot_rules = sim_rules sim_slot_dev sim_slot_get sim_slot_set

lemma sim_next_write: "sim (slot_rel fd fs) (fs_next_write ops fd) (file_next_write ops)"
  unfolding fs_next_write_def file_next_write_def by (intro slot_rules)

lemma sim_write_body: "sim (slot_rel fd fs) (fs_write_body ops fd buf n) (file_write_body ops buf n)"
  unfolding fs_write_body_def file_write_body_def by (intro slot_rules sim_next_write)

lemma sim_read_body: "sim (slot_rel fd fs) (fs_read_body ops fd len buf n) (file_read_body ops len buf n)"
  unfolding fs_read_body_def file_read_body_def by (intro slot_rules)

text \<open>A loop that makes progress is simulated when its body is.\<close>

lemma sim_write_loop: "sim (slot_rel fd fs) (fs_write_loop ops fd buf n) (file_write_loop ops buf n)"
proof (induction "length buf - n" arbitrary: n rule: less_induct)
  case less
  show ?case
  proof (rule simI)
    fix s t assume R: "slot_rel fd fs s t"
    show "fst (fs_write_loop ops fd buf n s) = fst (file_write_loop ops buf n t)
      \<and> slot_rel fd fs (snd (fs_write_loop ops fd buf n s)) (snd (file_write_loop ops buf n t))"
    proof (cases "n < length buf")
      case True
      obtain r s' where b: "fs_write_body ops fd buf n s = (r, s')" by (meson surj_pair)
      obtain t' where b': "file_write_body ops buf n t = (r, t')" and R': "slot_rel fd fs s' t'"
        using simD [OF sim_write_body R b] by blast
      show ?thesis
      proof (cases r)
        case (Ok k)
        then have "length buf - (n + k) < length buf - n" using fs_write_body_progress b True by fastforce
        then have "sim (slot_rel fd fs) (fs_write_loop ops fd buf (n + k)) (file_write_loop ops buf (n + k))"
          by (rule less)
        from sim_apply [OF this R'] show ?thesis
          using True b b' Ok by (simp add: fs_write_loop.simps [of ops fd buf n] file_write_loop.simps [of ops buf n] bnd_def)
      qed (use True b b' R' in \<open>simp_all add: fs_write_loop.simps [of ops fd buf n] file_write_loop.simps [of ops buf n] bnd_def\<close>)
    qed (use R in \<open>simp add: fs_write_loop.simps [of ops fd buf n] file_write_loop.simps [of ops buf n]\<close>)
  qed
qed

lemma sim_read_loop: "sim (slot_rel fd fs) (fs_read_loop ops fd len buf n) (file_read_loop ops len buf n)"
proof (induction "len - n" arbitrary: n buf rule: less_induct)
  case less
  show ?case
  proof (rule simI)
    fix s t assume R: "slot_rel fd fs s t"
    show "fst (fs_read_loop ops fd len buf n s) = fst (file_read_loop ops len buf n t)
      \<and> slot_rel fd fs (snd (fs_read_loop ops fd len buf n s)) (snd (file_read_loop ops len buf n t))"
    proof (cases "n < len")
      case True
      obtain r s' where b: "fs_read_body ops fd len buf n s = (r, s')" by (meson surj_pair)
      obtain t' where b': "file_read_body ops len buf n t = (r, t')" and R': "slot_rel fd fs s' t'"
        using simD [OF sim_read_body R b] by blast
      show ?thesis
      proof (cases r)
        case (Ok x)
        obtain buf' k stop where x: "x = (buf', k, stop)" by (cases x)
        have "len - (n + k) < len - n" using fs_read_body_progress b Ok x True by fastforce
        then have "sim (slot_rel fd fs) (fs_read_loop ops fd len buf' (n + k)) (file_read_loop ops len buf' (n + k))"
          by (rule less)
        from sim_apply [OF this R'] show ?thesis
          using True b b' Ok x R' by (simp add: fs_read_loop.simps [of ops fd len buf n] file_read_loop.simps [of ops len buf n] bnd_def)
      qed (use True b b' R' in \<open>simp_all add: fs_read_loop.simps [of ops fd len buf n] file_read_loop.simps [of ops len buf n] bnd_def\<close>)
    qed (use R in \<open>simp add: fs_read_loop.simps [of ops fd len buf n] file_read_loop.simps [of ops len buf n]\<close>)
  qed
qed

lemma sim_write_file:
  fixes fs :: "'d fat16"
  shows "sim (slot_rel fd fs) (write_file ops fd buf) (write_with_device ops buf)"
proof -
  have "sim (slot_rel fd fs) (bnd (get_file fd) (\<lambda>_. p)) q" if "sim (slot_rel fd fs) p q"
    for p :: "('d fat16, fs_error, nat) prog" and q
    using that by (simp add: sim_def bnd_def get_file_def gets_apply lift_res_apply index_at_def slot_rel_def slot_put_def)
  note start = this
  show ?thesis
    unfolding write_file_def write_with_device_def by (rule start, intro slot_rules sim_write_loop)
qed

lemma sim_read_file: "sim (slot_rel fd fs) (read_file ops fd buf) (read_with_device ops buf)"
  unfolding read_file_def read_with_device_def by (intro slot_rules sim_read_loop)

lemma slot_sim_result:
  assumes "sim (slot_rel fd fs) p q" "fd < length (fs_fd_table fs)"
  shows "p fs = (case q (fs_fd_table fs ! fd, fs_device fs) of (r, t) \<Rightarrow> (r, slot_put fd fs t))"
proof -
  obtain r s' where p: "p fs = (r, s')" by (meson surj_pair)
  obtain t' where "q (fs_fd_table fs ! fd, fs_device fs) = (r, t')" "slot_rel fd fs s' t'"
    using simD [OF assms(1) slot_rel_start [OF assms(2)] p] by blast
  then show ?thesis using p by (simp add: slot_rel_def)
qed

lemma get_file_bad: "\<not> fd < length (fs_fd_table fs) \<Longrightarrow> bnd (get_file fd) f fs = (Panic, fs)"
  by (simp add: bnd_def get_file_def gets_apply lift_res_apply index_at_def)

section \<open>The descriptor table\<close>

text \<open>The counter is the length of the table, and the pool holds exactly the descriptors of closed files,
  each once.\<close>

definition fd_inv :: "'d fat16 \<Rightarrow> bool" where
  "fd_inv fs \<longleftrightarrow> fs_fd_counter fs = length (fs_fd_table fs) \<and> distinct (fs_reuse_fds fs)
     \<and> set (fs_reuse_fds fs) = {i. i < length (fs_fd_table fs) \<and> \<not> ff_valid (fs_fd_table fs ! i)}"

text \<open>The states that descriptor operations reach from a fresh file system; the other operations change
  the device alone.\<close>

inductive fd_reach :: "'d block_device \<Rightarrow> 'd fat16 \<Rightarrow> bool" for ops where
  fresh: "fs_fd_counter fs = 0 \<Longrightarrow> fs_reuse_fds fs = [] \<Longrightarrow> fs_fd_table fs = [] \<Longrightarrow> fd_reach ops fs"
| opened: "fd_reach ops fs \<Longrightarrow> open_file ops path fs = (r, fs') \<Longrightarrow> r \<noteq> Panic \<Longrightarrow> fd_reach ops fs'"
| closed: "fd_reach ops fs \<Longrightarrow> close_file fd fs = (r, fs') \<Longrightarrow> r \<noteq> Panic \<Longrightarrow> fd_reach ops fs'"
| sought: "fd_reach ops fs \<Longrightarrow> seek_file fd pos fs = (r, fs') \<Longrightarrow> r \<noteq> Panic \<Longrightarrow> fd_reach ops fs'"
| was_read: "fd_reach ops fs \<Longrightarrow> read_file ops fd buf fs = (r', fs') \<Longrightarrow> r' \<noteq> Panic \<Longrightarrow> fd_reach ops fs'"
| written: "fd_reach ops fs \<Longrightarrow> write_file ops fd buf fs = (r, fs') \<Longrightarrow> r \<noteq> Panic \<Longrightarrow> fd_reach ops fs'"
| other: "fd_reach ops fs \<Longrightarrow> fd_reach ops (fs\<lparr>fs_device := d\<rparr>)"

lemma fd_inv_device [simp]: "fd_inv (fs\<lparr>fs_device := d\<rparr>) = fd_inv fs"
  by (simp add: fd_inv_def)

subsection \<open>Transfers keep the validity of the file\<close>

lemma keeps_fdev: "keeps (\<lambda>s. ff_valid (fst s) = v) (fdev m)"
  unfolding fdev_def by (rule keeps_zoom) simp

lemma keeps_fmod: "(\<And>f. ff_valid (g f) = ff_valid f) \<Longrightarrow> keeps (\<lambda>s. ff_valid (fst s) = v) (fmod g)"
  unfolding fmod_def by (rule keeps_modify) simp

lemma keeps_file_write_loop:
  assumes "\<And>n. keeps I (file_write_body ops buf n)"
  shows "keeps I (file_write_loop ops buf n)"
proof -
  have "I s \<Longrightarrow> I (snd (file_write_loop ops buf n s))" for s
  proof (induction "length buf - n" arbitrary: n s rule: less_induct)
    case less
    obtain r s' where b: "file_write_body ops buf n s = (r, s')" by (meson surj_pair)
    have "I s'" using keepsD [OF assms less.prems b] .
    moreover have "I (snd (file_write_loop ops buf (n + k) s'))" if "n < length buf" "r = Ok k" for k
      using less.hyps [of "n + k" s'] file_write_body_progress [of ops buf n s k s'] b that \<open>I s'\<close> by fastforce
    ultimately show ?case
      using less.prems b by (cases r) (simp_all add: file_write_loop.simps [of ops buf n s] bnd_def)
  qed
  then show ?thesis by (simp add: keeps_def)
qed

lemma keeps_file_read_loop:
  assumes "\<And>n buf. keeps I (file_read_body ops len buf n)"
  shows "keeps I (file_read_loop ops len buf n)"
proof -
  have "I s \<Longrightarrow> I (snd (file_read_loop ops len buf n s))" for s
  proof (induction "len - n" arbitrary: n buf s rule: less_induct)
    case less
    obtain r s' where b: "file_read_body ops len buf n s = (r, s')" by (meson surj_pair)
    have "I s'" using keepsD [OF assms less.prems b] .
    moreover have "I (snd (file_read_loop ops len buf' (n + k) s'))" if "n < len" "r = Ok (buf', k, stop)" for buf' k stop
      using less.hyps [of "n + k" s' buf'] file_read_body_progress [of ops len buf n s buf' k stop s'] b that \<open>I s'\<close>
      by fastforce
    ultimately show ?case
      using less.prems b by (cases r) (auto simp: file_read_loop.simps [of ops len buf n s] bnd_def)
  qed
  then show ?thesis by (simp add: keeps_def)
qed

lemma write_keeps_valid: "keeps (\<lambda>s. ff_valid (fst s) = v) (write_with_device ops buf)"
proof -
  have "keeps (\<lambda>s. ff_valid (fst s) = v) (file_write_body ops buf n)" for n
    unfolding file_write_body_def file_next_write_def by (intro keeps_rules keeps_fdev keeps_fmod) simp_all
  then show ?thesis
    unfolding write_with_device_def by (intro keeps_rules keeps_fdev keeps_file_write_loop)
qed

lemma read_keeps_valid: "keeps (\<lambda>s. ff_valid (fst s) = v) (read_with_device ops buf)"
proof -
  have "keeps (\<lambda>s. ff_valid (fst s) = v) (file_read_body ops len buf n)" for len buf n
    unfolding file_read_body_def by (intro keeps_rules keeps_fdev keeps_fmod) simp_all
  then show ?thesis
    unfolding read_with_device_def by (intro keeps_rules keeps_file_read_loop)
qed

lemma fd_inv_slot_put:
  assumes "fd_inv fs" "fd < length (fs_fd_table fs)" "ff_valid (fst t) = ff_valid (fs_fd_table fs ! fd)"
  shows "fd_inv (slot_put fd fs t)"
  using assms by (auto simp: fd_inv_def slot_put_def nth_list_update)

lemma transfer_fd_inv:
  assumes "fd_inv fs" "sim (slot_rel fd fs) p q" "keeps (\<lambda>s. ff_valid (fst s) = ff_valid (fs_fd_table fs ! fd)) q"
    and "p fs = (r, fs')" "fd < length (fs_fd_table fs)"
  shows "fd_inv fs'"
proof -
  obtain t where t: "q (fs_fd_table fs ! fd, fs_device fs) = (r, t)" "fs' = slot_put fd fs t"
    using slot_sim_result [OF assms(2,5)] assms(4) by (auto split: prod.splits)
  have "ff_valid (fst t) = ff_valid (fs_fd_table fs ! fd)"
    using keepsD [OF assms(3) _ t(1)] by simp
  then show ?thesis using t(2) fd_inv_slot_put [OF assms(1,5)] by simp
qed

subsection \<open>Opening and closing\<close>

definition opened_file :: "'d fat16 \<Rightarrow> dir_entry83 \<Rightarrow> nat \<Rightarrow> fat16_file" where
  "opened_file fs entry pos = \<lparr>ff_valid = True, ff_current_cluster = de_start_cluster entry, ff_position = 0,
     ff_size = unat (de_file_size entry), ff_cluster_size = fs_cluster_size fs,
     ff_fat_start = fs_fat_start fs, ff_data_start = fs_data_start fs, ff_entry_position = pos\<rparr>"

text \<open>The descriptor that the next \<open>open_file\<close> uses.\<close>

definition next_fd :: "'d fat16 \<Rightarrow> nat" where
  "next_fd fs = (if fs_reuse_fds fs = [] then length (fs_fd_table fs) else Max (set (fs_reuse_fds fs)))"

definition after_open :: "'d fat16 \<Rightarrow> fat16_file \<Rightarrow> 'd fat16" where
  "after_open fs f =
    (if fs_reuse_fds fs = []
     then fs\<lparr>fs_fd_table := fs_fd_table fs @ [f], fs_fd_counter := fs_fd_counter fs + 1\<rparr>
     else fs\<lparr>fs_fd_table := (fs_fd_table fs)[next_fd fs := f], fs_reuse_fds := remove1 (next_fd fs) (fs_reuse_fds fs)\<rparr>)"

lemma next_fd_closed:
  assumes "fd_inv fs"
  shows "next_fd fs < length (fs_fd_table fs) \<Longrightarrow> \<not> ff_valid (fs_fd_table fs ! next_fd fs)"
    and "fs_reuse_fds fs \<noteq> [] \<Longrightarrow> next_fd fs < length (fs_fd_table fs)"
    and "fs_reuse_fds fs \<noteq> [] \<Longrightarrow> next_fd fs \<in> set (fs_reuse_fds fs)"
proof -
  have eq: "set (fs_reuse_fds fs) = {i. i < length (fs_fd_table fs) \<and> \<not> ff_valid (fs_fd_table fs ! i)}"
    using assms by (simp add: fd_inv_def)
  show m: "fs_reuse_fds fs \<noteq> [] \<Longrightarrow> next_fd fs \<in> set (fs_reuse_fds fs)" by (simp add: next_fd_def)
  show "fs_reuse_fds fs \<noteq> [] \<Longrightarrow> next_fd fs < length (fs_fd_table fs)"
    using m unfolding eq by blast
  show "\<not> ff_valid (fs_fd_table fs ! next_fd fs)" if "next_fd fs < length (fs_fd_table fs)"
  proof (cases "fs_reuse_fds fs = []")
    case True
    then show ?thesis using that by (simp add: next_fd_def)
  next
    case False
    then show ?thesis using m unfolding eq by blast
  qed
qed

lemma open_file_Ok:
  assumes inv: "fd_inv fs" and e: "find_entry ops path fs = (Ok (entry, pos), fs1)" "\<not> de_is_directory entry"
    and room: "length (fs_fd_table fs) < 2 ^ 64 - 1"
  shows "open_file ops path fs = (Ok (next_fd fs), after_open fs1 (opened_file fs entry pos))"
proof -
  have "same_but_device fs fs1" using keepsD [OF keeps_find_entry same_but_device_refl e(1)] .
  then obtain d where d: "fs1 = fs\<lparr>fs_device := d\<rparr>" by (auto simp: same_but_device_def)
  have c: "fs_fd_counter fs = length (fs_fd_table fs)" using inv by (simp add: fd_inv_def)
  show ?thesis
  proof (cases "fs_reuse_fds fs = []")
    case True
    then show ?thesis
      using e room c by (simp add: open_file_def bnd_def d heap_pop_def get_st_def gets_apply modify_st_apply
          lift_res_apply u64_add_def assert_p_apply ret_apply next_fd_def after_open_def opened_file_def Let_def)
  next
    case False
    note n = next_fd_closed [OF inv]
    have "Max (set (fs_reuse_fds fs)) = next_fd fs" using False by (simp add: next_fd_def)
    moreover have "next_fd (fs\<lparr>fs_device := d\<rparr>) = next_fd fs" by (simp add: next_fd_def)
    ultimately show ?thesis
      using False e n room by (simp add: open_file_def bnd_def d heap_pop_def get_st_def gets_apply modify_st_apply
          get_file_def set_file_def index_at_def lift_res_apply assert_p_apply ret_apply after_open_def opened_file_def Let_def)
  qed
qed

lemma fd_inv_after_open:
  assumes "fd_inv fs" "ff_valid f"
  shows "fd_inv (after_open fs f)"
proof (cases "fs_reuse_fds fs = []")
  case True
  then show ?thesis using assms by (auto simp: fd_inv_def after_open_def nth_append less_Suc_eq)
next
  case False
  then show ?thesis
    using assms next_fd_closed [OF assms(1)] by (auto simp: fd_inv_def after_open_def nth_list_update)
qed

lemma open_file_inv:
  assumes "fd_inv fs" "open_file ops path fs = (r, fs')" "r \<noteq> Panic"
  shows "fd_inv fs'"
proof -
  obtain r1 fs1 where e: "find_entry ops path fs = (r1, fs1)" by (meson surj_pair)
  have "same_but_device fs fs1" using keepsD [OF keeps_find_entry same_but_device_refl e] .
  then obtain d where d: "fs1 = fs\<lparr>fs_device := d\<rparr>" by (auto simp: same_but_device_def)
  show ?thesis
  proof (cases "\<exists>entry pos. r1 = Ok (entry, pos) \<and> \<not> de_is_directory entry")
    case False
    then have "fs' = fs1" using assms(2) e by (cases r1) (auto simp: open_file_def bnd_def raise_apply split: prod.splits)
    then show ?thesis using d assms(1) by simp
  next
    case True
    then obtain entry pos where en: "find_entry ops path fs = (Ok (entry, pos), fs1)" "\<not> de_is_directory entry"
      using e by blast
    show ?thesis
    proof (cases "length (fs_fd_table fs) < 2 ^ 64 - 1")
      case True
      then show ?thesis
        using open_file_Ok [OF assms(1) en True] assms(1,2) d fd_inv_after_open [of fs1] by (auto simp: opened_file_def)
    next
      case False
      have c: "fs_fd_counter fs = length (fs_fd_table fs)" using assms(1) by (simp add: fd_inv_def)
      show ?thesis
      proof (cases "fs_reuse_fds fs = []")
        case True
        then have "r = Panic"
          using False assms(2) en c by (auto simp: open_file_def bnd_def d heap_pop_def get_st_def gets_apply modify_st_apply
          lift_res_apply u64_add_def assert_p_apply ret_apply Let_def split: if_splits)
        then show ?thesis using assms(3) by simp
      next
        case ne: False
        note n = next_fd_closed [OF assms(1)]
        have "Max (set (fs_reuse_fds fs)) = next_fd fs" using ne by (simp add: next_fd_def)
        moreover have "next_fd (fs\<lparr>fs_device := d\<rparr>) = next_fd fs" by (simp add: next_fd_def)
        ultimately have "fs' = after_open fs1 (opened_file fs entry pos)"
          using ne en n assms(2,3) by (auto simp: open_file_def bnd_def d heap_pop_def get_st_def gets_apply modify_st_apply
          get_file_def set_file_def index_at_def lift_res_apply assert_p_apply ret_apply after_open_def opened_file_def Let_def
          split: if_splits)
        then show ?thesis using fd_inv_after_open [of fs1] d assms(1) by (simp add: opened_file_def)
      qed
    qed
  qed
qed

lemma close_file_eq:
  "close_file fd fs =
    (if fd < length (fs_fd_table fs) \<and> ff_valid (fs_fd_table fs ! fd)
     then (Ok (), fs\<lparr>fs_fd_table := (fs_fd_table fs)[fd := \<lparr>ff_valid = False, ff_current_cluster = 0, ff_position = 0,
            ff_size = 0, ff_cluster_size = 0, ff_fat_start = 0, ff_data_start = 0, ff_entry_position = 0\<rparr>],
            fs_reuse_fds := fd # fs_reuse_fds fs\<rparr>)
     else (Panic, fs))"
  by (simp add: close_file_def bnd_def get_file_def gets_apply lift_res_apply index_at_def assert_p_apply
      set_file_def modify_st_apply)

lemma fd_inv_close:
  assumes "fd_inv fs" "fd < length (fs_fd_table fs)" "ff_valid (fs_fd_table fs ! fd)" "\<not> ff_valid f"
  shows "fd_inv (fs\<lparr>fs_fd_table := (fs_fd_table fs)[fd := f], fs_reuse_fds := fd # fs_reuse_fds fs\<rparr>)"
proof -
  have eq: "set (fs_reuse_fds fs) = {i. i < length (fs_fd_table fs) \<and> \<not> ff_valid (fs_fd_table fs ! i)}"
    using assms(1) by (simp add: fd_inv_def)
  have "insert fd {i. i < length (fs_fd_table fs) \<and> \<not> ff_valid (fs_fd_table fs ! i)}
      = {i. i < length (fs_fd_table fs) \<and> \<not> ff_valid ((fs_fd_table fs)[fd := f] ! i)}"
    using assms(2-4) by (auto simp: nth_list_update)
  moreover have "fd \<notin> set (fs_reuse_fds fs)" unfolding eq using assms(3) by blast
  ultimately show ?thesis using assms(1) by (simp add: fd_inv_def)
qed

lemma close_file_inv:
  assumes "fd_inv fs" "close_file fd fs = (r, fs')" "r \<noteq> Panic"
  shows "fd_inv fs'"
proof -
  have v: "fd < length (fs_fd_table fs)" "ff_valid (fs_fd_table fs ! fd)"
    using assms(2,3) by (auto simp: close_file_eq split: if_splits)
  show ?thesis
    using assms(2) v fd_inv_close [OF assms(1) v, of "\<lparr>ff_valid = False, ff_current_cluster = 0, ff_position = 0,
            ff_size = 0, ff_cluster_size = 0, ff_fat_start = 0, ff_data_start = 0, ff_entry_position = 0\<rparr>"]
    by (simp add: close_file_eq)
qed

lemma keeps_get_file [keeps_rules]: "keeps I (get_file fd)"
  unfolding get_file_def by (intro keeps_rules)

lemma keeps_set_file:
  assumes "\<And>f. ff_valid (g f) = ff_valid f"
  shows "keeps fd_inv (set_file fd g)"
  unfolding set_file_def
proof (rule keeps_modify)
  fix fs :: "'a fat16" assume inv: "fd_inv fs"
  show "fd_inv (fs\<lparr>fs_fd_table := (fs_fd_table fs)[fd := g (fs_fd_table fs ! fd)]\<rparr>)"
  proof (cases "fd < length (fs_fd_table fs)")
    case True
    then show ?thesis
      using fd_inv_slot_put [OF inv True, of "(g (fs_fd_table fs ! fd), fs_device fs)"] assms
      by (simp add: slot_put_def)
  next
    case False
    then have "(fs_fd_table fs)[fd := g (fs_fd_table fs ! fd)] = fs_fd_table fs" by (simp add: list_update_beyond)
    then show ?thesis using inv by (simp add: fd_inv_def)
  qed
qed

lemma seek_file_inv:
  assumes "fd_inv fs" "seek_file fd pos fs = (r, fs')"
  shows "fd_inv fs'"
proof -
  have "keeps fd_inv (seek_file fd pos)"
    unfolding seek_file_def by (intro keeps_rules keeps_set_file) simp_all
  then show ?thesis using assms by (rule keepsD)
qed

lemma transfer_in_range:
  "read_file ops fd buf fs = (r, fs') \<Longrightarrow> r \<noteq> Panic \<Longrightarrow> fd < length (fs_fd_table fs)"
  "write_file ops fd buf fs = (r', fs') \<Longrightarrow> r' \<noteq> Panic \<Longrightarrow> fd < length (fs_fd_table fs)"
  by (rule ccontr, simp add: read_file_def write_file_def get_file_bad)+

lemma fd_reach_fd_inv: "fd_reach ops fs \<Longrightarrow> fd_inv fs"
proof (induction rule: fd_reach.induct)
  case (fresh fs)
  then show ?case by (simp add: fd_inv_def)
next
  case (opened fs path r fs')
  show ?case by (rule open_file_inv [OF opened.IH opened.hyps(2,3)])
next
  case (closed fs fd r fs')
  show ?case by (rule close_file_inv [OF closed.IH closed.hyps(2,3)])
next
  case (sought fs fd pos r fs')
  show ?case by (rule seek_file_inv [OF sought.IH sought.hyps(2)])
next
  case (was_read fs fd buf r' fs')
  show ?case
    by (rule transfer_fd_inv [OF was_read.IH sim_read_file read_keeps_valid was_read.hyps(2)
          transfer_in_range(1) [OF was_read.hyps(2,3)]])
next
  case (written fs fd buf r fs')
  show ?case
    by (rule transfer_fd_inv [OF written.IH sim_write_file write_keeps_valid written.hyps(2)
          transfer_in_range(2) [OF written.hyps(2,3)]])
next
  case (other fs d)
  then show ?case by simp
qed

section \<open>Properties\<close>

text \<open>C26: The transfer loops that \<open>Fat16::write_file\<close> and \<open>Fat16::read_file\<close> repeat on the descriptor table
  compute exactly what the methods of \<open>Fat16File\<close> compute on the file and the device, on every device and
  for every result, and change nothing else of the driver; a descriptor outside the table panics.\<close>

theorem driver_transfers_are_file_methods:
  "write_file ops fd buf fs =
     (if fd < length (fs_fd_table fs)
      then case write_with_device ops buf (fs_fd_table fs ! fd, fs_device fs) of (r, (f, d)) \<Rightarrow>
             (r, fs\<lparr>fs_device := d, fs_fd_table := (fs_fd_table fs)[fd := f]\<rparr>)
      else (Panic, fs))
   \<and> read_file ops fd buf fs =
     (if fd < length (fs_fd_table fs)
      then case read_with_device ops buf (fs_fd_table fs ! fd, fs_device fs) of (r, (f, d)) \<Rightarrow>
             (r, fs\<lparr>fs_device := d, fs_fd_table := (fs_fd_table fs)[fd := f]\<rparr>)
      else (Panic, fs))"
proof (cases "fd < length (fs_fd_table fs)")
  case True
  then show ?thesis
    using slot_sim_result [OF sim_write_file True, of ops buf] slot_sim_result [OF sim_read_file True, of ops buf]
    by (simp add: slot_put_def split_beta)
next
  case False
  then show ?thesis by (simp add: write_file_def read_file_def get_file_bad)
qed

text \<open>C18: In every state that opening, closing, seeking, reading and writing reach from a fresh file system,
  on any device, the descriptor table is consistent: the counter is the length of the table and the pool of
  reusable descriptors holds exactly the closed ones, each once.\<close>

theorem descriptor_table_invariant:
  assumes "fd_reach ops fs"
  shows "fs_fd_counter fs = length (fs_fd_table fs) \<and> distinct (fs_reuse_fds fs)
    \<and> set (fs_reuse_fds fs) = {i. i < length (fs_fd_table fs) \<and> \<not> ff_valid (fs_fd_table fs ! i)}"
  using fd_reach_fd_inv [OF assms] by (simp add: fd_inv_def)

lemma fs_sample_reach: "fd_reach mem_ops fs_sample"
  by (rule fd_reach.fresh) (simp_all add: fs_sample_def)

theorem descriptor_table_invariant_witness:
  "fd_reach mem_ops fs_sample \<and> fs_fd_counter fs_sample = length (fs_fd_table fs_sample)"
  using descriptor_table_invariant [OF fs_sample_reach] fs_sample_reach by blast

text \<open>C25: Opening an existing file in a reachable state never panics and gives a descriptor that no open file
  has; the new file starts at position 0 with the size and the first cluster of its directory entry, and
  every other descriptor keeps its file.\<close>

theorem open_file_fresh_descriptor:
  assumes "fd_reach ops fs" "length (fs_fd_table fs) < 2 ^ 64 - 1"
    and "find_entry ops path fs = (Ok (entry, pos), fs1)" "\<not> de_is_directory entry"
  shows "\<exists>fd fs'. open_file ops path fs = (Ok fd, fs')
    \<and> (fd < length (fs_fd_table fs) \<longrightarrow> \<not> ff_valid (fs_fd_table fs ! fd))
    \<and> fd < length (fs_fd_table fs') \<and> fs_fd_table fs' ! fd = opened_file fs entry pos
    \<and> (\<forall>i. i \<noteq> fd \<longrightarrow> i < length (fs_fd_table fs) \<longrightarrow> fs_fd_table fs' ! i = fs_fd_table fs ! i)"
proof -
  have inv: "fd_inv fs" using assms(1) by (rule fd_reach_fd_inv)
  have "same_but_device fs fs1" using keepsD [OF keeps_find_entry same_but_device_refl assms(3)] .
  then have t: "fs_fd_table fs1 = fs_fd_table fs" "fs_reuse_fds fs1 = fs_reuse_fds fs"
    by (auto simp: same_but_device_def)
  then have nx: "next_fd fs1 = next_fd fs" by (simp add: next_fd_def)
  let ?f = "opened_file fs entry pos"
  have "next_fd fs < length (fs_fd_table (after_open fs1 ?f)) \<and> fs_fd_table (after_open fs1 ?f) ! next_fd fs = ?f
    \<and> (\<forall>i. i \<noteq> next_fd fs \<longrightarrow> i < length (fs_fd_table fs) \<longrightarrow> fs_fd_table (after_open fs1 ?f) ! i = fs_fd_table fs ! i)"
  proof (cases "fs_reuse_fds fs = []")
    case True
    then show ?thesis using t by (simp add: after_open_def next_fd_def nth_append)
  next
    case False
    then show ?thesis using t nx next_fd_closed(2) [OF inv False] by (simp add: after_open_def)
  qed
  then show ?thesis
    using open_file_Ok [OF inv assms(3,4,2)] next_fd_closed(1) [OF inv]
    by (intro exI [of _ "next_fd fs"] exI [of _ "after_open fs1 ?f"]) blast
qed

text \<open>A path of one component, and the sample file system with one file in its root.\<close>

definition path_sample :: bytes where
  "path_sample = [0x54, 0x41, 0x4F, 0x53, 0x2E, 0x54, 0x58, 0x54]"

lemma path_sample_name: "de_get_name entry_sample = path_sample" "path_components path_sample = [path_sample]"
proof -
  have "utf8_valid [0x54, 0x41, 0x4F, 0x53]" "utf8_valid [0x54, 0x58, 0x54]"
    by (rule utf8_valid_ascii, simp)+
  then show "de_get_name entry_sample = path_sample"
    using de_get_name_new_file [of "[0x54, 0x41, 0x4F, 0x53]" "[0x54, 0x58, 0x54]" 2]
    by (simp add: entry_sample_def path_sample_def)
  show "path_components path_sample = [path_sample]"
    by (simp add: path_components_def path_sample_def)
qed

lemma sample_with_file:
  obtains fs pos where "find_entry mem_ops path_sample fs = (Ok (entry_sample, pos), fs)" "fd_reach mem_ops fs"
    "fs_fd_table fs = []" "fs_wf fs"
proof -
  obtain fs' where w: "write_dir_entry mem_ops 0 entry_sample fs_sample = (Ok (), fs')"
    using fs_sample_insert(2) by blast
  obtain k i where fs': "fs' = fs_set_sec (dir_start fs_sample 0 + k) (put_entry (fs_secs fs_sample ! (dir_start fs_sample 0 + k)) (i * 32) entry_sample) fs_sample"
    and wf: "fs_wf fs'"
    using fs_sample_wf(1) fs_sample_root(1) entry_sample_ok(1) w by (rule write_dir_entry_Ok)
  obtain pos where "dir_find (fs_secs fs') (de_get_name entry_sample) (dir_start fs_sample 0) [0..<dir_len fs_sample 0]
      = Some (entry_sample, pos)"
    using insert_lookup [OF fs_sample_wf(1) fs_sample_root(1) entry_sample_ok dir_blank_props(3) [OF fs_sample_root(2)] w]
    by blast
  then have "find_entry_in_dir mem_ops (unat (0 :: u16)) path_sample fs' = (Ok (entry_sample, pos), fs')"
    using find_entry_in_dir_mem [OF wf, of 0 path_sample] fs' fs_sample_root(1) by (simp add: path_sample_name)
  then have "find_entry mem_ops path_sample fs' = (Ok (entry_sample, pos), fs')"
    by (simp add: find_entry_def path_sample_name)
  moreover have "fd_reach mem_ops fs'" "fs_fd_table fs' = []"
    using fs' by (auto simp: fs_sample_def intro!: fd_reach.fresh)
  ultimately show ?thesis using wf by (rule that)
qed

theorem open_file_fresh_descriptor_witness:
  "\<exists>fs fs' fd. fd_reach mem_ops fs \<and> open_file mem_ops path_sample fs = (Ok fd, fs')
     \<and> fd < length (fs_fd_table fs')"
proof -
  obtain fs pos where h: "find_entry mem_ops path_sample fs = (Ok (entry_sample, pos), fs)" "fd_reach mem_ops fs"
    "fs_fd_table fs = []"
    by (rule sample_with_file)
  have "length (fs_fd_table fs) < 2 ^ 64 - 1" "\<not> de_is_directory entry_sample"
    using h(3) by (simp_all add: entry_sample_def)
  then show ?thesis using open_file_fresh_descriptor [OF h(2) _ h(1)] h(2) by blast
qed

text \<open>\<open>close_file\<close> accepts exactly the descriptors of open files: it then invalidates that one file and
  makes its descriptor reusable, and a second close is refused; on any other descriptor it panics without
  changing the driver.\<close>

theorem close_file_releases:
  "if fd < length (fs_fd_table fs) \<and> ff_valid (fs_fd_table fs ! fd)
   then \<exists>fs'. close_file fd fs = (Ok (), fs') \<and> fs_reuse_fds fs' = fd # fs_reuse_fds fs
     \<and> (\<exists>f. \<not> ff_valid f \<and> fs_fd_table fs' = (fs_fd_table fs)[fd := f])
     \<and> fs_device fs' = fs_device fs \<and> close_file fd fs' = (Panic, fs')
   else close_file fd fs = (Panic, fs)"
  by (auto simp: close_file_eq intro!: exI [of _ "\<lparr>ff_valid = False, ff_current_cluster = 0, ff_position = 0,
      ff_size = 0, ff_cluster_size = 0, ff_fat_start = 0, ff_data_start = 0, ff_entry_position = 0\<rparr>"])

definition seek_base :: "seek_from \<Rightarrow> fat16_file \<Rightarrow> int" where
  "seek_base pos f = (case pos of SeekStart n \<Rightarrow> int n | SeekCurrent k \<Rightarrow> int (ff_position f) + k
     | SeekEnd k \<Rightarrow> int (ff_size f) + k)"

lemma seek_offset_eq:
  assumes "n < 2 ^ 64"
  shows "seek_offset base k = (if 0 \<le> int base + k \<and> int base + k < 2 ^ 64 then Ok (nat (int base + k)) else Err InvalidOffset)
    \<or> \<not> (0 \<le> int base + k \<and> int base + k \<le> int n) \<and> (seek_offset base k = Err InvalidOffset
        \<or> (\<exists>m. seek_offset base k = Ok m \<and> n < m))"
  using assms by (auto simp: seek_offset_def)

lemma ff_seek_eq:
  assumes "ff_size f < 2 ^ 64"
  shows "ff_seek pos f =
    (if 0 \<le> seek_base pos f \<and> seek_base pos f \<le> int (ff_size f)
     then (Ok (nat (seek_base pos f)), f\<lparr>ff_position := nat (seek_base pos f)\<rparr>)
     else (Err InvalidOffset, f))"
proof (cases pos)
  case (SeekStart n)
  then show ?thesis by (simp add: ff_seek_def seek_base_def bnd_def lift_res_apply raise_apply modify_st_apply ret_apply)
next
  case (SeekCurrent k)
  then show ?thesis using assms seek_offset_eq [OF assms, of "ff_position f" k]
    by (auto simp: ff_seek_def seek_base_def bnd_def lift_res_apply raise_apply modify_st_apply ret_apply nat_less_iff
        nat_le_iff split: if_splits)
next
  case (SeekEnd k)
  then show ?thesis using assms seek_offset_eq [OF assms, of "ff_size f" k]
    by (auto simp: ff_seek_def seek_base_def bnd_def lift_res_apply raise_apply modify_st_apply ret_apply nat_less_iff
        nat_le_iff split: if_splits)
qed

lemma seek_file_eq:
  "seek_file fd pos fs =
    (if fd < length (fs_fd_table fs)
     then case ff_seek pos (fs_fd_table fs ! fd) of (r, g) \<Rightarrow> (r, fs\<lparr>fs_fd_table := (fs_fd_table fs)[fd := g]\<rparr>)
     else (Panic, fs))"
proof (cases "fd < length (fs_fd_table fs)")
  case True
  then show ?thesis
    by (simp add: seek_file_def ff_seek_def bnd_def get_file_def gets_apply lift_res_apply index_at_def
        set_file_def modify_st_apply raise_apply ret_apply split: res.splits)
next
  case False
  then show ?thesis by (simp add: seek_file_def get_file_bad)
qed

text \<open>C19: \<open>seek\<close> moves to the requested offset from the start, the position or the end, computed without
  overflow, exactly when it lies within the file; otherwise it reports \<open>InvalidOffset\<close> and leaves the file.
  \<open>seek_file\<close> does the same on the descriptor.\<close>

theorem seek_functional:
  assumes "ff_size f < 2 ^ 64"
  shows "ff_seek pos f =
      (if 0 \<le> seek_base pos f \<and> seek_base pos f \<le> int (ff_size f)
       then (Ok (nat (seek_base pos f)), f\<lparr>ff_position := nat (seek_base pos f)\<rparr>)
       else (Err InvalidOffset, f))
    \<and> seek_file fd pos fs =
      (if fd < length (fs_fd_table fs)
       then case ff_seek pos (fs_fd_table fs ! fd) of (r, g) \<Rightarrow> (r, fs\<lparr>fs_fd_table := (fs_fd_table fs)[fd := g]\<rparr>)
       else (Panic, fs))"
  by (intro conjI ff_seek_eq [OF assms] seek_file_eq)

theorem seek_functional_witness:
  "ff_seek (SeekEnd (-2)) (opened_file fs_sample (entry_sample\<lparr>de_file_size := 10\<rparr>) 0)
     = (Ok 8, (opened_file fs_sample (entry_sample\<lparr>de_file_size := 10\<rparr>) 0)\<lparr>ff_position := 8\<rparr>)"
proof -
  have s: "ff_size (opened_file fs_sample (entry_sample\<lparr>de_file_size := 10\<rparr>) 0) = 10"
    by (simp add: opened_file_def)
  then have "ff_size (opened_file fs_sample (entry_sample\<lparr>de_file_size := 10\<rparr>) 0) < 2 ^ 64" by simp
  from conjunct1 [OF seek_functional [OF this, where pos = "SeekEnd (-2)" and fd = 0 and fs = fs_sample]] show ?thesis by (simp add: seek_base_def s)
qed

end
