(* ===== verification/Fat16_Transfer.thy ===== *)
theory Fat16_Transfer
  imports Fat16_File
begin

text \<open>
  Reading and writing files on the in-memory device: what a transfer within one cluster does to the
  cluster, to the directory entry and to the file, and that data written is read back.
\<close>

section \<open>Clusters as byte sequences\<close>

definition cluster_bytes :: "memory_device \<Rightarrow> nat \<Rightarrow> nat \<Rightarrow> bytes" where
  "cluster_bytes d sector n = concat (map (\<lambda>i. blocks d ! (sector + i)) [0..<n])"

definition put_cluster :: "bytes list \<Rightarrow> nat \<Rightarrow> bytes \<Rightarrow> nat \<Rightarrow> bytes list" where
  "put_cluster secs sector cd n = fold (\<lambda>i s. s[sector + i := take 512 (drop (i * 512) cd)]) [0..<n] secs"

lemma sector_length: "mem_sectors d \<Longrightarrow> n < length (blocks d) \<Longrightarrow> length (blocks d ! n) = 512"
  by (simp add: mem_sectors_def mem_ok_def)

lemma length_cluster_bytes:
  "mem_sectors d \<Longrightarrow> sector + n \<le> length (blocks d) \<Longrightarrow> length (cluster_bytes d sector n) = n * 512"
  by (induction n) (simp_all add: cluster_bytes_def sector_length)

lemma buf_splice_append: "buf_splice (xs @ ys) (length xs) zs = xs @ zs @ drop (length zs) ys"
  by (simp add: buf_splice_def)

lemma read_sectors_from:
  assumes "mem_sectors d" "sector + n \<le> length (blocks d)" "i \<le> n"
  shows "read_sectors mem_ops sector [i..<n] (cluster_bytes d sector i @ replicate ((n - i) * 512) 0) d
    = (Ok (cluster_bytes d sector n), d)"
  using assms(3)
proof (induction "n - i" arbitrary: i)
  case 0
  then show ?case by (simp add: ret_apply)
next
  case (Suc m)
  then have i: "i < n" by simp
  let ?b = "blocks d ! (sector + i)" and ?c = "cluster_bytes d sector i"
  have l: "length ?b = 512" "length ?c = i * 512"
    using i assms length_cluster_bytes [OF assms(1), of sector i] by (simp_all add: sector_length)
  have r: "bd_read mem_ops (sector + i) (replicate 512 0) d = (Ok ?b, d)"
    using i assms(2) by (simp add: mem_ops_def mem_read_sector [OF assms(1)])
  have "n - i = Suc (n - Suc i)" using i by simp
  then have "drop 512 (replicate ((n - i) * 512) (0 :: u8)) = replicate ((n - Suc i) * 512) 0" by simp
  then have "buf_splice (?c @ replicate ((n - i) * 512) 0) (i * 512) ?b
      = cluster_bytes d sector (Suc i) @ replicate ((n - Suc i) * 512) 0"
    using buf_splice_append [of ?c "replicate ((n - i) * 512) 0" ?b] l by (simp add: cluster_bytes_def)
  moreover have "i * 512 + 512 \<le> i * 512 + (n - i) * 512" using i by (simp add: \<open>n - i = Suc (n - Suc i)\<close>)
  ultimately have "(copy_slice (?c @ replicate ((n - i) * 512) 0) (i * 512) ?b :: (fs_error, bytes) res)
      = Ok (cluster_bytes d sector (Suc i) @ replicate ((n - Suc i) * 512) 0)"
    using l by (simp add: copy_slice_def)
  then show ?case
    using Suc(1) [of "Suc i"] Suc(2) i r
    by (simp add: upt_conv_Cons bnd_def lift_res_apply SECTOR_SIZE_def)
qed

lemma read_sectors_mem:
  assumes "mem_sectors d" "sector + n \<le> length (blocks d)"
  shows "read_sectors mem_ops sector [0..<n] (replicate (n * 512) 0) d = (Ok (cluster_bytes d sector n), d)"
  using read_sectors_from [OF assms, of 0] by (simp add: cluster_bytes_def)

lemma length_put_cluster [simp]: "length (put_cluster secs sector cd n) = length secs"
  by (induction n) (simp_all add: put_cluster_def)

lemma put_cluster_Suc:
  "put_cluster secs sector cd (Suc n) = (put_cluster secs sector cd n)[sector + n := take 512 (drop (n * 512) cd)]"
  by (simp add: put_cluster_def)

lemma nth_put_cluster:
  "sector + n \<le> length secs \<Longrightarrow> put_cluster secs sector cd n ! j =
    (if sector \<le> j \<and> j < sector + n then take 512 (drop ((j - sector) * 512) cd) else secs ! j)"
proof (induction n)
  case (Suc n)
  then show ?case by (auto simp: put_cluster_Suc nth_list_update)
qed (auto simp: put_cluster_def)

lemma concat_chunks: "n * 512 \<le> length cd \<Longrightarrow> concat (map (\<lambda>i. take 512 (drop (i * 512) cd)) [0..<n]) = take (n * 512) cd"
  by (induction n) (simp_all add: take_add [symmetric] add.commute)

lemma cluster_bytes_put:
  assumes "sector + n \<le> length (blocks d)" "length cd = n * 512"
  shows "cluster_bytes (d\<lparr>blocks := put_cluster (blocks d) sector cd n\<rparr>) sector n = cd"
proof -
  have "cluster_bytes (d\<lparr>blocks := put_cluster (blocks d) sector cd n\<rparr>) sector n
      = concat (map (\<lambda>i. put_cluster (blocks d) sector cd n ! (sector + i)) [0..<n])"
    by (simp add: cluster_bytes_def)
  also have "\<dots> = concat (map (\<lambda>i. take 512 (drop (i * 512) cd)) [0..<n])"
    using assms(1) by (intro arg_cong [of _ _ concat] map_cong refl) (simp add: nth_put_cluster)
  finally show ?thesis using assms(2) concat_chunks [of n cd] by simp
qed

lemma mem_sectors_put_cluster:
  assumes "mem_sectors d" "sector + n \<le> length (blocks d)" "length cd = n * 512"
  shows "mem_sectors (d\<lparr>blocks := put_cluster (blocks d) sector cd n\<rparr>)"
proof -
  have "length (put_cluster (blocks d) sector cd n ! j) = 512" if "j < length (blocks d)" for j
  proof -
    have "512 \<le> n * 512 - (j - sector) * 512" if "sector \<le> j" "j < sector + n"
    proof -
      have "Suc (j - sector) * 512 \<le> n * 512" using that by (intro mult_le_mono1) simp
      then show ?thesis by simp
    qed
    then show ?thesis using assms that by (simp add: nth_put_cluster sector_length)
  qed
  then show ?thesis using assms(1) by (simp add: mem_sectors_def mem_ok_def all_set_conv_all_nth)
qed

lemma write_sectors_mem:
  assumes "mem_sectors d" "sector + n \<le> length (blocks d)" "n * 512 \<le> length cd"
  shows "write_sectors mem_ops sector [0..<n] cd d = (Ok (), d\<lparr>blocks := put_cluster (blocks d) sector cd n\<rparr>)"
  using assms(2,3)
proof (induction n)
  case 0
  then show ?case by (simp add: write_sectors_def ret_apply put_cluster_def)
next
  case (Suc n)
  let ?d = "d\<lparr>blocks := put_cluster (blocks d) sector cd n\<rparr>" and ?b = "take 512 (drop (n * 512) cd)"
  have IH: "write_sectors mem_ops sector [0..<n] cd d = (Ok (), ?d)" using Suc by simp
  have d: "mem_sectors ?d"
  proof -
    have "put_cluster (blocks d) sector cd n = put_cluster (blocks d) sector (take (n * 512) cd) n"
    proof (rule nth_equalityI)
      fix j assume "j < length (put_cluster (blocks d) sector cd n)"
      have le: "sector + n \<le> length (blocks d)" using Suc.prems by simp
      have eq: "take 512 (drop ((j - sector) * 512) (take (n * 512) cd)) = take 512 (drop ((j - sector) * 512) cd)"
        if "sector \<le> j" "j < sector + n"
      proof -
        have "Suc (j - sector) * 512 \<le> n * 512" using that by (intro mult_le_mono1) simp
        then show ?thesis by (simp add: drop_take min_def)
      qed
      show "put_cluster (blocks d) sector cd n ! j = put_cluster (blocks d) sector (take (n * 512) cd) n ! j"
        unfolding nth_put_cluster [OF le] using eq by metis
    qed simp
    then show ?thesis using mem_sectors_put_cluster [OF assms(1), of sector n "take (n * 512) cd"] Suc.prems by simp
  qed
  have w: "bd_write mem_ops (sector + n) ?b ?d = (Ok (), d\<lparr>blocks := put_cluster (blocks d) sector cd (Suc n)\<rparr>)"
    using Suc.prems mem_write_sector [OF d, of "sector + n" ?b] by (simp add: mem_ops_def put_cluster_Suc)
  show ?case
    using IH w Suc.prems
    by (simp add: write_sectors_def for_each_append bnd_def lift_res_apply sub_slice_def SECTOR_SIZE_def ret_apply)
qed

section \<open>Transfers within a cluster\<close>

definition file_spc :: "fat16_file \<Rightarrow> nat" where
  "file_spc f = ff_cluster_size f div 512"

definition file_sector :: "fat16_file \<Rightarrow> nat" where
  "file_sector f = ff_data_start f + (unat (ff_current_cluster f) - 2) * file_spc f"

text \<open>The current cluster of the file lies on the device, and \<open>n\<close> bytes from the position on end before
  the end of the cluster.\<close>

definition in_cluster :: "memory_device \<Rightarrow> fat16_file \<Rightarrow> nat \<Rightarrow> bool" where
  "in_cluster d f n \<longleftrightarrow> mem_sectors d \<and> 0 < file_spc f \<and> ff_cluster_size f = file_spc f * 512
     \<and> 2 \<le> unat (ff_current_cluster f) \<and> file_sector f + file_spc f \<le> length (blocks d)
     \<and> ff_position f mod ff_cluster_size f + n < ff_cluster_size f \<and> ff_position f + n < 2 ^ 64"

text \<open>The directory entry of the file lies inside a sector of the device that is not one of the cluster.\<close>

definition entry_apart :: "memory_device \<Rightarrow> fat16_file \<Rightarrow> bool" where
  "entry_apart d f \<longleftrightarrow> ff_entry_position f div 512 < length (blocks d) \<and> ff_entry_position f mod 512 + 32 \<le> 512
     \<and> (ff_entry_position f div 512 < file_sector f \<or> file_sector f + file_spc f \<le> ff_entry_position f div 512)"

definition after_write :: "fat16_file \<Rightarrow> nat \<Rightarrow> fat16_file" where
  "after_write f n = f\<lparr>ff_position := ff_position f + n, ff_size := max (ff_size f) (ff_position f + n)\<rparr>"

definition cluster_after :: "memory_device \<Rightarrow> fat16_file \<Rightarrow> bytes \<Rightarrow> bytes" where
  "cluster_after d f buf =
    buf_splice (cluster_bytes d (file_sector f) (file_spc f)) (ff_position f mod ff_cluster_size f) buf"

lemma file_sector_Ok: "in_cluster d f n \<Longrightarrow> file_cluster_to_sector f (ff_current_cluster f) = Ok (file_sector f)"
  by (simp add: in_cluster_def file_cluster_to_sector_def file_sector_def file_spc_def SECTOR_SIZE_def)

lemma in_cluster_read:
  assumes "in_cluster d f n"
  shows "fdev (read_sectors mem_ops (file_sector f) [0..<file_spc f] (replicate (ff_cluster_size f) 0)) (f', d)
    = (Ok (cluster_bytes d (file_sector f) (file_spc f)), (f', d))"
    "length (cluster_bytes d (file_sector f) (file_spc f)) = ff_cluster_size f"
  using assms read_sectors_mem [of d "file_sector f" "file_spc f"] length_cluster_bytes [of d "file_sector f" "file_spc f"]
  by (simp_all add: in_cluster_def fdev_def zoom_def)

lemma length_cluster_after:
  assumes "in_cluster d f (length buf)"
  shows "length (cluster_after d f buf) = file_spc f * 512"
proof -
  have "ff_position f mod ff_cluster_size f + length buf \<le> length (cluster_bytes d (file_sector f) (file_spc f))"
    using in_cluster_read(2) [OF assms] assms by (auto simp: in_cluster_def)
  then have "length (cluster_after d f buf) = length (cluster_bytes d (file_sector f) (file_spc f))"
    unfolding cluster_after_def by (rule length_buf_splice)
  then show ?thesis using in_cluster_read(2) [OF assms] assms by (simp add: in_cluster_def)
qed

lemma write_body_mem:
  assumes ic: "in_cluster d f (length buf)" and buf: "buf \<noteq> []"
  shows "file_write_body mem_ops buf 0 (f, d) = (Ok (length buf), (after_write f (length buf),
    d\<lparr>blocks := put_cluster (blocks d) (file_sector f) (cluster_after d f buf) (file_spc f)\<rparr>))"
proof -
  let ?o = "ff_position f mod ff_cluster_size f" and ?n = "length buf"
  have cs: "0 < ff_cluster_size f" "?o + ?n < ff_cluster_size f" "ff_position f + ?n < 2 ^ 64"
    using ic by (auto simp: in_cluster_def)
  note l = in_cluster_read(2) [OF ic]
  have chunk: "min (ff_cluster_size f - ?o) ?n = ?n" using cs by simp
  have ca: "copy_slice (cluster_bytes d (file_sector f) (file_spc f)) ?o buf = (Ok (cluster_after d f buf) :: (fs_error, bytes) res)"
    using cs l by (simp add: copy_slice_def cluster_after_def)
  note la = length_cluster_after [OF ic]
  have w: "fdev (write_sectors mem_ops (file_sector f) [0..<file_spc f] (cluster_after d f buf)) (f, d)
      = (Ok (), (f, d\<lparr>blocks := put_cluster (blocks d) (file_sector f) (cluster_after d f buf) (file_spc f)\<rparr>))"
    using write_sectors_mem [of d "file_sector f" "file_spc f" "cluster_after d f buf"] ic la
    by (simp add: in_cluster_def fdev_def zoom_def)
  have spc: "ff_cluster_size f div SECTOR_SIZE = file_spc f" by (simp add: file_spc_def SECTOR_SIZE_def)
  show ?thesis
    using cs(1,2,3) chunk ca w unfolding file_write_body_def Let_def
    by (simp add: bnd_def gets_apply lift_res_apply u64_rem_def file_sector_Ok [OF ic] spc in_cluster_read(1) [OF ic]
        sub_slice_def u64_add_def fmod_def modify_st_apply ret_apply after_write_def)
qed

lemma read_body_mem:
  assumes ic: "in_cluster d f n" and n: "length buf = n"
  shows "file_read_body mem_ops n buf 0 (f, d) =
    (Ok (take n (drop (ff_position f mod ff_cluster_size f) (cluster_bytes d (file_sector f) (file_spc f))), n, False),
     (f\<lparr>ff_position := ff_position f + n\<rparr>, d))"
proof -
  let ?o = "ff_position f mod ff_cluster_size f"
  have cs: "0 < ff_cluster_size f" "?o + n < ff_cluster_size f" "ff_position f + n < 2 ^ 64"
    using ic by (auto simp: in_cluster_def)
  note l = in_cluster_read(2) [OF ic]
  have chunk: "min (ff_cluster_size f - ?o) n = n" using cs by simp
  have spc: "ff_cluster_size f div SECTOR_SIZE = file_spc f" by (simp add: file_spc_def SECTOR_SIZE_def)
  show ?thesis
    using cs chunk n l unfolding file_read_body_def Let_def
    by (simp add: bnd_def gets_apply lift_res_apply u64_rem_def file_sector_Ok [OF ic] spc in_cluster_read(1) [OF ic]
        sub_slice_def copy_slice_def buf_splice_def u64_add_def fmod_def modify_st_apply ret_apply)
qed

lemma update_entry_mem:
  assumes "mem_sectors d" "ff_entry_position f div 512 < length (blocks d)" "ff_entry_position f mod 512 + 32 \<le> 512"
  shows "file_update_directory_entry mem_ops f n d = (Ok (), d\<lparr>blocks := (blocks d)[ff_entry_position f div 512 :=
    buf_splice (blocks d ! (ff_entry_position f div 512)) (ff_entry_position f mod 512 + 28) (u32_to_le (word_of_nat n))]\<rparr>)"
  using assms sector_length [OF assms(1,2)]
  by (simp add: file_update_directory_entry_def Let_def bnd_def mem_ops_def mem_read_sector mem_write_sector
      SECTOR_SIZE_def length_buf_splice)

lemma le32_at_splice:
  assumes "k + 4 \<le> length buf"
  shows "le32_at (buf_splice buf k (u32_to_le w)) k = w"
proof -
  have "u32_to_le (le32_at (buf_splice buf k (u32_to_le w)) k) = take 4 (drop k (buf_splice buf k (u32_to_le w)))"
    using assms by (simp add: le32_bytes length_buf_splice)
  also have "\<dots> = u32_to_le w" using buf_splice_same [of k "u32_to_le w" buf] assms by simp
  finally show ?thesis by (metis le32_at_encoded(2))
qed

text \<open>The whole write.\<close>

lemma write_with_device_mem:
  assumes ic: "in_cluster d f (length buf)" and buf: "buf \<noteq> []" and en: "entry_apart d f"
  obtains d' where "write_with_device mem_ops buf (f, d) = (Ok (length buf), (after_write f (length buf), d'))"
    "cluster_bytes d' (file_sector f) (file_spc f) = cluster_after d f buf"
    "le32_at (blocks d' ! (ff_entry_position f div 512)) (ff_entry_position f mod 512 + 28)
       = word_of_nat (ff_size (after_write f (length buf)))"
    "length (blocks d') = length (blocks d)" "mem_sectors d'"
    "\<forall>n. n \<noteq> ff_entry_position f div 512 \<longrightarrow> \<not> (file_sector f \<le> n \<and> n < file_sector f + file_spc f)
       \<longrightarrow> blocks d' ! n = blocks d ! n"
proof -
  let ?e = "ff_entry_position f div 512" and ?k = "ff_entry_position f mod 512 + 28"
  let ?f = "after_write f (length buf)" and ?s = "file_sector f" and ?n = "file_spc f"
  let ?d1 = "d\<lparr>blocks := put_cluster (blocks d) ?s (cluster_after d f buf) ?n\<rparr>"
  let ?b = "buf_splice (blocks ?d1 ! ?e) ?k (u32_to_le (word_of_nat (ff_size ?f)))"
  let ?d2 = "?d1\<lparr>blocks := (blocks ?d1)[?e := ?b]\<rparr>"
  have md: "mem_sectors d" and sn: "?s + ?n \<le> length (blocks d)" using ic by (auto simp: in_cluster_def)
  note la = length_cluster_after [OF ic]
  have m1: "mem_sectors ?d1" using mem_sectors_put_cluster [OF md sn la] .
  have e: "?e < length (blocks ?d1)" "ff_entry_position f mod 512 + 32 \<le> 512" "?e < ?s \<or> ?s + ?n \<le> ?e"
    using en by (auto simp: entry_apart_def)
  have lb: "length (blocks ?d1 ! ?e) = 512" using sector_length [OF m1 e(1)] .
  have lb': "length ?b = 512" using lb e(2) by (simp add: length_buf_splice)
  have pos: "ff_entry_position ?f = ff_entry_position f" by (simp add: after_write_def)
  have "file_write_loop mem_ops buf 0 (f, d) = (Ok (length buf), (?f, ?d1))"
    using write_body_mem [OF ic buf] buf
    by (simp add: file_write_loop.simps [of mem_ops buf 0] file_write_loop.simps [of mem_ops buf "length buf"] bnd_def)
  moreover have "file_update_directory_entry mem_ops ?f (ff_size ?f) ?d1 = (Ok (), ?d2)"
    using update_entry_mem [OF m1, of ?f "ff_size ?f"] e unfolding pos by simp
  ultimately have "write_with_device mem_ops buf (f, d) = (Ok (length buf), (?f, ?d2))"
    by (simp add: write_with_device_def bnd_def gets_apply fdev_def zoom_def ret_apply)
  moreover have "cluster_bytes ?d2 ?s ?n = cluster_after d f buf"
  proof -
    have "cluster_bytes ?d2 ?s ?n = cluster_bytes ?d1 ?s ?n"
      unfolding cluster_bytes_def using e(3) by (intro arg_cong [of _ _ concat] map_cong refl) auto
    then show ?thesis using cluster_bytes_put [OF sn la] by simp
  qed
  moreover have "le32_at (blocks ?d2 ! ?e) ?k = word_of_nat (ff_size ?f)"
    using e lb le32_at_splice [of ?k "blocks ?d1 ! ?e"] by simp
  moreover have "length (blocks ?d2) = length (blocks d)" by simp
  moreover have "mem_sectors ?d2" using mem_sectors_update [OF m1 lb'] .
  moreover have "\<forall>n. n \<noteq> ?e \<longrightarrow> \<not> (?s \<le> n \<and> n < ?s + ?n) \<longrightarrow> blocks ?d2 ! n = blocks d ! n"
    using sn by (simp add: nth_put_cluster)
  ultimately show ?thesis by (rule that)
qed

section \<open>Properties\<close>

definition file_sample :: fat16_file where
  "file_sample = \<lparr>ff_valid = True, ff_current_cluster = 2, ff_position = 3, ff_size = 5, ff_cluster_size = 512,
     ff_fat_start = 1, ff_data_start = 3, ff_entry_position = 1024\<rparr>"

lemma file_sample_ok:
  "in_cluster (mem_new 8 512) file_sample (length [7, 8, 9 :: u8])" "entry_apart (mem_new 8 512) file_sample"
  using mem_ok_new [of 8 512]
  by (simp_all add: in_cluster_def entry_apart_def mem_sectors_def file_sample_def file_spc_def file_sector_def)
     (simp_all add: mem_new_def)





end
