(* ===== verification/Fat16_Fs.thy ===== *)
theory Fat16_Fs
  imports Fat16_Transfer
begin

text \<open>
  The remaining operations of the \<open>FileSystem\<close> trait for \<open>Fat16\<close> (\<open>filesys/fat16/mod.rs\<close>): formatting,
  creation, removal, listing, metadata and renaming.  The walk over a cluster chain in \<open>remove_entry\<close> may
  not end, so it is a \<open>partial_function\<close> into \<open>option\<close>, and with it the removals: \<open>None\<close> is a call that
  never returns.
\<close>

section \<open>Operations\<close>

subsection \<open>Formatting\<close>

definition format_boot_sector :: "nat \<Rightarrow> nat \<Rightarrow> nat \<Rightarrow> boot_sector" where
  "format_boot_sector total_blocks bsize spf = \<lparr>
     jump_boot = [0xEB, 0x3C, 0x90],
     oem_name = [0x55, 0x54, 0x54, 0x41, 0x4F, 0x53, 0x2E, 0x30],
     bytes_per_sector = word_of_nat bsize,
     sectors_per_cluster = 4,
     reserved_sectors = 1,
     fat_count = 2,
     root_dir_entries = word_of_nat ROOT_DIR_ENTRIES,
     total_sectors_16 = (if total_blocks < 65536 then word_of_nat total_blocks else 0),
     media_type = 0xF8,
     sectors_per_fat = word_of_nat spf,
     sectors_per_track = 63,
     head_count = 255,
     hidden_sectors = 0,
     total_sectors_32 = (if total_blocks \<ge> 65536 then word_of_nat total_blocks else 0),
     drive_number = 0x80,
     reserved1 = 0,
     boot_signature = 0x29,
     volume_id = 0x12345678,
     volume_label = [0x4E, 0x4F, 0x20, 0x4E, 0x41, 0x4D, 0x45, 0x20, 0x20, 0x20, 0x20],
     fs_type = [0x46, 0x41, 0x54, 0x31, 0x36, 0x20, 0x20, 0x20]\<rparr>"

text \<open>\<open>total_blocks - reserved_sectors - root_dir_sectors\<close>, divided into clusters of 4 sectors, 2 bytes of the
  table per cluster; \<open>usize::div_ceil\<close> panics on a zero divisor.\<close>

definition format_sectors_per_fat :: "nat \<Rightarrow> nat \<Rightarrow> (fs_error, nat) res" where
  "format_sectors_per_fat total_blocks bsize =
    (if bsize = 0 then Panic
     else let root_dir_sectors = div_ceil (ROOT_DIR_ENTRIES * 32) bsize
     in if total_blocks < 1 + root_dir_sectors then Panic
     else Ok (div_ceil ((total_blocks - 1 - root_dir_sectors) div 4 * 2) bsize))"

definition fat_format :: "'d block_device \<Rightarrow> ('d, fs_error, 'd fat16) prog" where
  "fat_format ops =
    bnd (gets (bd_total_blocks ops)) (\<lambda>total_blocks.
    bnd (gets (bd_block_size ops)) (\<lambda>bsize.
    bnd (lift_res (format_sectors_per_fat total_blocks bsize)) (\<lambda>spf.
    let root_dir_sectors = div_ceil (ROOT_DIR_ENTRIES * 32) bsize;
        bs = format_boot_sector total_blocks bsize spf
    in bnd (lift_res (copy_slice (replicate bsize 0) 0 (encode_boot_sector bs))) (\<lambda>block_buf.
    bnd (lift_res (store_at block_buf 510 0x55)) (\<lambda>block_buf.
    bnd (lift_res (store_at block_buf 511 0xAA)) (\<lambda>block_buf.
    bnd (bd_write ops 0 block_buf) (\<lambda>_.
    bnd (lift_res (store_at (replicate bsize 0) 0 (media_type bs))) (\<lambda>fat_block.
    bnd (lift_res (store_at fat_block 1 0xFF)) (\<lambda>fat_block.
    bnd (lift_res (store_at fat_block 2 0xFF)) (\<lambda>fat_block.
    bnd (lift_res (store_at fat_block 3 0xFF)) (\<lambda>fat_block.
    bnd (for_each [0..<2] (\<lambda>i. bd_write ops (1 + i * spf) fat_block)) (\<lambda>_.
    let zero_block = replicate bsize 0
    in bnd (for_each [0..<2] (\<lambda>i. for_each [1..<spf] (\<lambda>j. bd_write ops (1 + i * spf + j) zero_block))) (\<lambda>_.
    bnd (for_each [0..<root_dir_sectors] (\<lambda>i. bd_write ops (1 + 2 * spf + i) zero_block)) (\<lambda>_.
    fat_new ops))))))))))))))"

subsection \<open>Creation\<close>

text \<open>The directory cluster of the parent path.\<close>

definition parent_dir :: "'d block_device \<Rightarrow> bytes \<Rightarrow> ('d fat16, fs_error, u16) prog" where
  "parent_dir ops parent_path =
    (if parent_path = [] \<or> parent_path = [0x2F] then ret 0
     else bnd (find_entry ops parent_path) (\<lambda>(e, _). ret (de_start_cluster e)))"

definition create_file :: "'d block_device \<Rightarrow> bytes \<Rightarrow> ('d fat16, fs_error, unit) prog" where
  "create_file ops path =
    (case split_parent path of (parent_path, name) \<Rightarrow>
     if length name > MAX_FILENAME_LENGTH + MAX_EXTENSION_LENGTH + 1 then raise InvalidName
     else case split_extension name of (base_name, extension) \<Rightarrow>
     bnd (try_p (find_entry ops path)) (\<lambda>found.
     case found of
       Inr _ \<Rightarrow> raise AlreadyExists
     | Inl _ \<Rightarrow>
         bnd (allocate_cluster ops) (\<lambda>cluster.
         let entry = de_new_file base_name extension cluster
         in bnd (parent_dir ops parent_path) (\<lambda>parent_cluster.
         write_dir_entry ops parent_cluster entry))))"

definition create_dir :: "'d block_device \<Rightarrow> bytes \<Rightarrow> ('d fat16, fs_error, unit) prog" where
  "create_dir ops path =
    (case split_parent path of (parent_path, name) \<Rightarrow>
     if length name > MAX_FILENAME_LENGTH then raise InvalidName
     else bnd (try_p (find_entry ops path)) (\<lambda>found.
     case found of
       Inr _ \<Rightarrow> raise AlreadyExists
     | Inl _ \<Rightarrow>
         bnd (allocate_cluster ops) (\<lambda>cluster.
         let entry = de_new_directory name cluster
         in bnd (parent_dir ops parent_path) (\<lambda>parent_cluster.
         bnd (init_directory ops cluster parent_cluster) (\<lambda>_.
         write_dir_entry ops parent_cluster entry)))))"

subsection \<open>Removal\<close>

text \<open>\<open>while !self.read_fat_entry(cluster)?.is_end_of_chain()\<close>: the entry is read twice per pass.\<close>

partial_function (option) free_chain ::
  "'d block_device \<Rightarrow> u16 \<Rightarrow> 'd fat16 \<Rightarrow> ((fs_error, unit) res \<times> 'd fat16) option" where
  "free_chain ops cluster fs =
    (case read_fat_entry ops cluster fs of
       (Err e, fs1) \<Rightarrow> Some (Err e, fs1)
     | (Panic, fs1) \<Rightarrow> Some (Panic, fs1)
     | (Ok entry, fs1) \<Rightarrow>
         if fe_is_end_of_chain entry then Some (write_fat_entry ops cluster \<lparr>fe_cluster = 0\<rparr> fs1)
         else (case read_fat_entry ops cluster fs1 of
           (Err e, fs2) \<Rightarrow> Some (Err e, fs2)
         | (Panic, fs2) \<Rightarrow> Some (Panic, fs2)
         | (Ok next, fs2) \<Rightarrow>
             (case write_fat_entry ops cluster \<lparr>fe_cluster = 0\<rparr> fs2 of
                (Err e, fs3) \<Rightarrow> Some (Err e, fs3)
              | (Panic, fs3) \<Rightarrow> Some (Panic, fs3)
              | (Ok _, fs3) \<Rightarrow> free_chain ops (fe_cluster next) fs3)))"

definition mark_deleted :: "'d block_device \<Rightarrow> nat \<Rightarrow> ('d fat16, fs_error, unit) prog" where
  "mark_deleted ops entry_pos =
    (let sector = entry_pos div SECTOR_SIZE; offset = entry_pos mod SECTOR_SIZE
     in bnd (dev (bd_read ops sector (replicate SECTOR_SIZE 0))) (\<lambda>sector_buffer.
     bnd (lift_res (store_at sector_buffer offset DELETED_ENTRY_MARKER)) (\<lambda>sector_buffer.
     dev (bd_write ops sector sector_buffer))))"

definition remove_entry :: "'d block_device \<Rightarrow> bytes \<Rightarrow> bool \<Rightarrow> 'd fat16 \<Rightarrow> ((fs_error, unit) res \<times> 'd fat16) option" where
  "remove_entry ops path is_dir fs =
    (case bnd (find_entry ops path) (\<lambda>(entry, entry_pos).
            if de_is_directory entry \<noteq> is_dir then raise NotSupported
            else bnd (mark_deleted ops entry_pos) (\<lambda>_. ret (de_start_cluster entry))) fs of
       (Ok cluster, fs1) \<Rightarrow> free_chain ops cluster fs1
     | (Err e, fs1) \<Rightarrow> Some (Err e, fs1)
     | (Panic, fs1) \<Rightarrow> Some (Panic, fs1))"

definition remove_file :: "'d block_device \<Rightarrow> bytes \<Rightarrow> 'd fat16 \<Rightarrow> ((fs_error, unit) res \<times> 'd fat16) option" where
  "remove_file ops path = remove_entry ops path False"

definition remove_dir :: "'d block_device \<Rightarrow> bytes \<Rightarrow> 'd fat16 \<Rightarrow> ((fs_error, unit) res \<times> 'd fat16) option" where
  "remove_dir ops path fs =
    (case bnd (find_entry ops path) (\<lambda>(entry, _).
            if \<not> de_is_directory entry then raise NotSupported
            else bnd (is_directory_empty ops (de_start_cluster entry)) (\<lambda>empty.
            if \<not> empty then raise DirectoryNotEmpty else ret ())) fs of
       (Ok _, fs1) \<Rightarrow> remove_entry ops path True fs1
     | (Err e, fs1) \<Rightarrow> Some (Err e, fs1)
     | (Panic, fs1) \<Rightarrow> Some (Panic, fs1))"

subsection \<open>Listing and metadata\<close>

record file_permissions =
  fp_readable :: bool
  fp_writable :: bool
  fp_executable :: bool

record file_metadata =
  fm_size :: nat
  fm_is_dir :: bool
  fm_created :: u64
  fm_modified :: u64
  fm_permissions :: file_permissions

record dir_listing_entry =
  dl_name :: bytes
  dl_metadata :: file_metadata

definition entry_modified :: "dir_entry83 \<Rightarrow> u64" where
  "entry_modified e = push_bit 16 (ucast (de_date e)) OR ucast (de_time e)"

definition entry_permissions :: "dir_entry83 \<Rightarrow> file_permissions" where
  "entry_permissions e = \<lparr>fp_readable = True, fp_writable = (de_attributes e AND ATTR_READ_ONLY = 0),
     fp_executable = False\<rparr>"

text \<open>The inner loop of \<open>read_dir\<close>; the modification stamp is that of the listed directory.\<close>

fun list_sector :: "dir_entry83 \<Rightarrow> bytes \<Rightarrow> nat list \<Rightarrow> dir_listing_entry list" where
  "list_sector entry buf [] = []"
| "list_sector entry buf (i # is) =
    (let fat_entry = entry_at buf i
     in if de_is_free fat_entry then []
     else if \<not> de_is_deleted fat_entry \<and> de_name fat_entry ! 0 \<noteq> 0x2E
     then \<lparr>dl_name = de_get_name fat_entry,
           dl_metadata = \<lparr>fm_size = unat (de_file_size fat_entry), fm_is_dir = de_is_directory fat_entry,
             fm_created = 0, fm_modified = entry_modified entry,
             fm_permissions = entry_permissions fat_entry\<rparr>\<rparr> # list_sector entry buf is
     else list_sector entry buf is)"

fun list_sectors :: "'d block_device \<Rightarrow> dir_entry83 \<Rightarrow> nat \<Rightarrow> nat list \<Rightarrow> bytes
    \<Rightarrow> ('d fat16, fs_error, dir_listing_entry list) prog" where
  "list_sectors ops entry start_sector [] buf = ret []"
| "list_sectors ops entry start_sector (k # ks) buf =
    bnd (dev (bd_read ops (start_sector + k) buf)) (\<lambda>buf.
    bnd (list_sectors ops entry start_sector ks buf) (\<lambda>rest.
    ret (list_sector entry buf [0..<ENTRIES_PER_SECTOR] @ rest)))"

definition root_entry :: dir_entry83 where
  "root_entry = \<lparr>de_name = replicate 8 0x20, de_ext = replicate 3 0x20, de_attributes = ATTR_DIRECTORY,
     de_reserved = replicate 10 0, de_time = 0, de_date = 0, de_start_cluster = 0, de_file_size = 0\<rparr>"

definition read_dir :: "'d block_device \<Rightarrow> bytes \<Rightarrow> ('d fat16, fs_error, dir_listing_entry list) prog" where
  "read_dir ops path =
    bnd (if path = [] \<or> path = [0x2F] then ret (root_entry, 0) else find_entry ops path) (\<lambda>(entry, _).
    if \<not> de_is_directory entry then raise NotSupported
    else bnd (dir_extent (unat (de_start_cluster entry))) (\<lambda>(start_sector, num_sectors).
    list_sectors ops entry start_sector [0..<num_sectors] (replicate SECTOR_SIZE 0)))"

definition metadata :: "'d block_device \<Rightarrow> bytes \<Rightarrow> ('d fat16, fs_error, file_metadata) prog" where
  "metadata ops path =
    bnd (find_entry ops path) (\<lambda>(entry, _).
    ret \<lparr>fm_size = unat (de_file_size entry), fm_is_dir = de_is_directory entry, fm_created = 0,
         fm_modified = entry_modified entry, fm_permissions = entry_permissions entry\<rparr>)"

subsection \<open>Renaming\<close>

definition renamed_entry :: "dir_entry83 \<Rightarrow> bytes \<Rightarrow> bytes \<Rightarrow> dir_entry83" where
  "renamed_entry src_entry base_name extension = src_entry\<lparr>
     de_name := buf_splice (replicate 8 0x20) 0 (take (min (length base_name) 8) base_name),
     de_ext := (if extension \<noteq> [] then buf_splice (replicate 3 0x20) 0 (take (min (length extension) 3) extension)
                else replicate 3 0x20)\<rparr>"

text \<open>The labelled loop: the sector and the byte offset of the first slot, and the sector buffer it leaves.\<close>

fun slot_search :: "'d block_device \<Rightarrow> nat \<Rightarrow> nat list \<Rightarrow> bytes \<Rightarrow> ('d fat16, fs_error, (nat \<times> nat) option \<times> bytes) prog" where
  "slot_search ops start_sector [] buf = ret (None, buf)"
| "slot_search ops start_sector (k # ks) buf =
    bnd (dev (bd_read ops (start_sector + k) buf)) (\<lambda>buf.
    case free_slot buf of
      Some i \<Rightarrow> ret (Some (start_sector + k, i * DIR_ENTRY_BYTES), buf)
    | None \<Rightarrow> slot_search ops start_sector ks buf)"

definition rename_entry :: "'d block_device \<Rightarrow> bytes \<Rightarrow> bytes \<Rightarrow> ('d fat16, fs_error, unit) prog" where
  "rename_entry ops from to =
    bnd (find_entry ops from) (\<lambda>(src_entry, src_pos).
    bnd (try_p (find_entry ops to)) (\<lambda>found.
    case found of
      Inr _ \<Rightarrow> raise AlreadyExists
    | Inl _ \<Rightarrow>
        (case split_parent to of (parent_path, new_name) \<Rightarrow>
         case split_extension new_name of (base_name, extension) \<Rightarrow>
         let new_entry = renamed_entry src_entry base_name extension
         in bnd (parent_dir ops parent_path) (\<lambda>dest_dir_cluster.
         bnd (dir_extent (unat dest_dir_cluster)) (\<lambda>(start_sector, num_sectors).
         bnd (slot_search ops start_sector [0..<num_sectors] (replicate SECTOR_SIZE 0)) (\<lambda>(found_pos, buf).
         case found_pos of
           None \<Rightarrow> raise NotSupported
         | Some (dest_sector, dest_offset) \<Rightarrow>
             bnd (dev (bd_read ops dest_sector buf)) (\<lambda>buf.
             let buf = put_entry buf dest_offset new_entry
             in bnd (dev (bd_write ops dest_sector buf)) (\<lambda>_.
             bnd (dev (bd_read ops (src_pos div SECTOR_SIZE) buf)) (\<lambda>buf.
             bnd (lift_res (store_at buf (src_pos mod SECTOR_SIZE) DELETED_ENTRY_MARKER)) (\<lambda>buf.
             dev (bd_write ops (src_pos div SECTOR_SIZE) buf))))))))))) "

end
