(* ===== verification/Fat16_Remove.thy ===== *)
theory Fat16_Remove
  imports Fat16_Create
begin

text \<open>
  Removal on the in-memory device: the loop that frees a cluster chain, when it returns and when it does
  not, and what a path resolves to once its file was removed.
\<close>

section \<open>Cluster chains\<close>

text \<open>The clusters visited from \<open>c\<close> by following the table, the last one being an end-of-chain entry.\<close>

fun fat_chain :: "mem_fs \<Rightarrow> u16 \<Rightarrow> u16 list \<Rightarrow> bool" where
  "fat_chain fs c [] = False"
| "fat_chain fs c (d # ds) \<longleftrightarrow> d = c \<and> fat_has fs c
     \<and> (if fe_is_end_of_chain \<lparr>fe_cluster = fat_get fs c\<rparr> then ds = [] else fat_chain fs (fat_get fs c) ds)"

text \<open>The table is a function of the cluster, so a chain that ends has no repetition.\<close>

lemma fat_chain_unique: "fat_chain fs c cs \<Longrightarrow> fat_chain fs c ds \<Longrightarrow> cs = ds"
proof (induction cs arbitrary: c ds)
  case (Cons x xs)
  then show ?case by (cases ds) (auto split: if_splits)
qed simp

lemma fat_chain_suffix: "fat_chain fs c (xs @ d # ds) \<Longrightarrow> fat_chain fs d (d # ds)"
proof (induction xs arbitrary: c)
  case (Cons x xs)
  then have "fat_chain fs (fat_get fs c) (xs @ d # ds)" by (simp split: if_splits)
  then show ?case by (rule Cons.IH)
qed simp

lemma fat_chain_distinct: "fat_chain fs c cs \<Longrightarrow> distinct cs"
proof (induction cs arbitrary: c)
  case (Cons x xs)
  have x: "x = c" using Cons.prems by simp
  have "x \<notin> set xs"
  proof
    assume "x \<in> set xs"
    then obtain ys zs where "xs = ys @ x # zs" by (metis split_list)
    then have "fat_chain fs c (x # zs)"
      using Cons.prems x fat_chain_suffix [of fs c "x # ys" x zs] by simp
    then show False using fat_chain_unique [OF Cons.prems] \<open>xs = ys @ x # zs\<close> by fastforce
  qed
  then show ?case using Cons by (auto split: if_splits)
qed simp

lemma fat_chain_has: "fat_chain fs c cs \<Longrightarrow> d \<in> set cs \<Longrightarrow> fat_has fs d"
  by (induction cs arbitrary: c) (auto split: if_splits)

lemma fat_chain_agree:
  assumes "\<And>d. d \<in> set cs \<Longrightarrow> fat_get fs' d = fat_get fs d" "\<And>d. fat_has fs' d = fat_has fs d"
  shows "fat_chain fs c cs \<Longrightarrow> fat_chain fs' c cs"
  using assms(1)
proof (induction cs arbitrary: c)
  case (Cons x xs)
  then show ?case by (auto simp: assms(2) split: if_splits)
qed simp

section \<open>Freeing a chain\<close>

text \<open>One pass of the loop.\<close>

lemma free_chain_step:
  assumes "fs_wf fs" "fat_has fs c"
  shows "free_chain mem_ops c fs =
    (if fe_is_end_of_chain \<lparr>fe_cluster = fat_get fs c\<rparr> then Some (Ok (), fat_put c 0 fs)
     else free_chain mem_ops (fat_get fs c) (fat_put c 0 fs))"
  by (subst free_chain.simps) (simp add: read_fat_entry_mem [OF assms] write_fat_entry_mem [OF assms])

definition outside_fat :: "mem_fs \<Rightarrow> mem_fs \<Rightarrow> bool" where
  "outside_fat fs fs' \<longleftrightarrow> same_layout fs fs' \<and> fs_clusters fs' = fs_clusters fs
     \<and> length (fs_secs fs') = length (fs_secs fs) \<and> (\<forall>n \<ge> fs_root_dir_start fs. fs_secs fs' ! n = fs_secs fs ! n)"

lemma outside_fat_put:
  assumes "fs_wf fs" "fat_has fs c"
  shows "outside_fat fs (fat_put c w fs)"
proof -
  have "fs_secs (fat_put c w fs) ! n = fs_secs fs ! n" if "fs_root_dir_start fs \<le> n" for n
  proof (cases "n < length (fs_secs fs)")
    case True
    then show ?thesis using fat_put_outside [OF assms True] that by simp
  next
    case False
    then show ?thesis
      using fat_sector_bounds(2,4) [OF assms] by (auto simp: fat_put_def Let_def nth_list_update)
  qed
  then show ?thesis by (simp add: outside_fat_def same_layout_def)
qed

lemma outside_fat_trans: "outside_fat fs fs1 \<Longrightarrow> outside_fat fs1 fs2 \<Longrightarrow> outside_fat fs fs2"
  by (auto simp: outside_fat_def same_layout_def)

lemma free_chain_mem:
  assumes "fs_wf fs" "fat_chain fs c cs"
  obtains fs' where "free_chain mem_ops c fs = Some (Ok (), fs')" "fs_wf fs'" "outside_fat fs fs'"
    "\<And>d. fat_has fs' d = fat_has fs d" "\<And>d. fat_has fs d \<Longrightarrow> fat_get fs' d = (if d \<in> set cs then 0 else fat_get fs d)"
proof -
  have "\<exists>fs'. free_chain mem_ops c fs = Some (Ok (), fs') \<and> fs_wf fs' \<and> outside_fat fs fs'
      \<and> (\<forall>d. fat_has fs' d = fat_has fs d)
      \<and> (\<forall>d. fat_has fs d \<longrightarrow> fat_get fs' d = (if d \<in> set cs then 0 else fat_get fs d))"
    using assms
  proof (induction cs arbitrary: c fs)
    case (Cons x xs)
    let ?fs1 = "fat_put c 0 fs"
    have x: "x = c" "fat_has fs c" using Cons.prems(2) by simp_all
    note step = free_chain_step [OF Cons.prems(1) x(2)] and wf1 = fs_wf_fat_put [OF Cons.prems(1) x(2), of 0]
      and g1 = fat_get_put [OF Cons.prems(1) x(2), of _ 0] and o1 = outside_fat_put [OF Cons.prems(1) x(2), of 0]
    show ?case
    proof (cases "fe_is_end_of_chain \<lparr>fe_cluster = fat_get fs c\<rparr>")
      case True
      then show ?thesis using step wf1 g1 o1 x Cons.prems(2) by auto
    next
      case False
      have "distinct (x # xs)" using fat_chain_distinct [OF Cons.prems(2)] .
      then have "c \<notin> set xs" using x(1) by simp
      moreover have ch: "fat_chain fs (fat_get fs c) xs" using Cons.prems(2) False by simp
      ultimately have "fat_chain ?fs1 (fat_get fs c) xs"
        using g1 fat_chain_has [OF ch] by (intro fat_chain_agree [OF _ _ ch]) auto
      then obtain fs' where fs': "free_chain mem_ops (fat_get fs c) ?fs1 = Some (Ok (), fs')" "fs_wf fs'"
        "outside_fat ?fs1 fs'" "\<forall>d. fat_has fs' d = fat_has ?fs1 d"
        "\<forall>d. fat_has ?fs1 d \<longrightarrow> fat_get fs' d = (if d \<in> set xs then 0 else fat_get ?fs1 d)"
        using Cons.IH [OF wf1] by blast
      show ?thesis
        using fs' step False x(1) g1 outside_fat_trans [OF o1 fs'(3)] by (intro exI [of _ fs']) auto
    qed
  qed simp
  then show ?thesis using that by blast
qed

text \<open>Once the entry of cluster 0 is zero the loop never leaves it.\<close>

lemma free_chain_stuck:
  assumes "fs_wf fs" "fat_has fs 0" "fat_get fs 0 = 0"
  shows "free_chain mem_ops 0 fs = None"
proof -
  have "\<not> (ops = mem_ops \<and> c = 0 \<and> fs_wf fs \<and> fat_has fs 0 \<and> fat_get fs 0 = 0)"
    if "free_chain ops c fs = Some y" for ops c fs y
  proof (rule free_chain.raw_induct [OF _ that,
        where P = "\<lambda>ops c fs y. \<not> (ops = mem_ops \<and> c = 0 \<and> fs_wf fs \<and> fat_has fs 0 \<and> fat_get fs 0 = 0)"], rule notI)
    fix f ops c fs y
    assume IH: "\<And>ops c fs y. f ops c fs = Some y
        \<Longrightarrow> \<not> (ops = mem_ops \<and> c = 0 \<and> fs_wf fs \<and> fat_has fs 0 \<and> fat_get fs 0 = 0)"
      and r: "(case read_fat_entry ops c fs of
         (Ok entry, fs1) \<Rightarrow>
           if fe_is_end_of_chain entry then Some (write_fat_entry ops c \<lparr>fe_cluster = 0\<rparr> fs1)
           else (case read_fat_entry ops c fs1 of
             (Ok next, fs2) \<Rightarrow>
               (case write_fat_entry ops c \<lparr>fe_cluster = 0\<rparr> fs2 of
                  (Ok x, fs3) \<Rightarrow> f ops (fe_cluster next) fs3
                | (Err e, fs3) \<Rightarrow> Some (Err e, fs3) | (Panic, fs3) \<Rightarrow> Some (Panic, fs3))
             | (Err e, fs2) \<Rightarrow> Some (Err e, fs2) | (Panic, fs2) \<Rightarrow> Some (Panic, fs2))
       | (Err e, fs1) \<Rightarrow> Some (Err e, fs1) | (Panic, fs1) \<Rightarrow> Some (Panic, fs1)) = Some y"
      and h: "ops = mem_ops \<and> c = 0 \<and> fs_wf fs \<and> fat_has fs 0 \<and> fat_get fs 0 = 0"
    then have wf: "fs_wf fs" and has: "fat_has fs 0" by simp_all
    have "f mem_ops 0 (fat_put 0 0 fs) = Some y"
      using r h by (simp add: read_fat_entry_mem [OF wf has] write_fat_entry_mem [OF wf has] fe_is_end_of_chain_def)
    then show False
      using IH [of mem_ops 0 "fat_put 0 0 fs" y] fs_wf_fat_put [OF wf has, of 0] fat_get_put [OF wf has has, of 0] has by simp
  qed
  then show ?thesis using assms by (cases "free_chain mem_ops 0 fs") auto
qed

section \<open>Removing a file\<close>

text \<open>The marker hides the visible entry found at a position, and only that entry.\<close>

definition mark_at :: "nat \<Rightarrow> mem_fs \<Rightarrow> mem_fs" where
  "mark_at pos fs = fs_set_sec (pos div 512) ((fs_secs fs ! (pos div 512))[pos mod 512 := DELETED_ENTRY_MARKER]) fs"

lemma mark_deleted_mem:
  assumes "fs_wf fs" "pos div 512 < length (fs_secs fs)"
  shows "mark_deleted mem_ops pos fs = (Ok (), mark_at pos fs)"
proof -
  have "length (fs_secs fs ! (pos div 512)) = 512" using fs_sec_length [OF fs_wf_mem [OF assms(1)] assms(2)] .
  then show ?thesis
    using assms(2)
    by (simp add: mark_deleted_def mark_at_def Let_def bnd_def dev_read_mem [OF fs_wf_mem [OF assms(1)]]
        dev_write_mem [OF fs_wf_mem [OF assms(1)]] lift_res_apply store_at_def fat_consts)
qed

lemma dir_find_mark:
  assumes wf: "fs_wf fs" and c: "dir_ok fs c" and u: "dir_unique fs c"
    and f: "dir_find (fs_secs fs) name (dir_start fs c) [0..<dir_len fs c] = Some (e, pos)"
  shows "dir_find (fs_secs (mark_at pos fs)) name (dir_start fs c) [0..<dir_len fs c] = None"
    "name' \<noteq> name \<Longrightarrow> dir_find (fs_secs (mark_at pos fs)) name' (dir_start fs c) [0..<dir_len fs c]
      = dir_find (fs_secs fs) name' (dir_start fs c) [0..<dir_len fs c]"
    "\<exists>k < dir_len fs c. pos div 512 = dir_start fs c + k"
    "fs_wf (mark_at pos fs)"
proof -
  obtain pre k post i where k: "[0..<dir_len fs c] = pre @ k # post" "pos = (dir_start fs c + k) * 512 + i * 32"
    "find_in_sector name (fs_secs fs ! (dir_start fs c + k)) [0..<16] = Some (i, e)"
    using f by (rule dir_find_Some)
  let ?s = "dir_start fs c" let ?b = "fs_secs fs ! (?s + k)"
  note v = find_in_sector_vis [OF k(3)]
  have i: "i < 16" using v(1) by (simp add: vis_def)
  have kl: "k < dir_len fs c" using k(1) by (metis atLeastLessThan_iff in_set_conv_decomp set_upt)
  have pos: "pos div 512 = ?s + k" "pos mod 512 = i * 32"
    using i unfolding k(2) by (simp, simp only: mod_mult_self3, simp)
  note ins = dir_inside(1) [OF wf c kl]
  have lb: "length ?b = 512" using fs_sec_length [OF fs_wf_mem [OF wf] ins] .
  have sec: "fs_secs (mark_at pos fs) ! (?s + j) = (if j = k then ?b[i * 32 := DELETED_ENTRY_MARKER] else fs_secs fs ! (?s + j))" for j
    using ins by (simp add: mark_at_def pos)
  show "dir_find (fs_secs (mark_at pos fs)) name ?s [0..<dir_len fs c] = None"
    unfolding dir_find_None find_in_sector_None_iff
  proof (intro ballI allI impI)
    fix j i' assume j: "j \<in> set [0..<dir_len fs c]" and vj: "vis (fs_secs (mark_at pos fs) ! (?s + j)) i'"
    have vj': "vis (fs_secs fs ! (?s + j)) i'" "j = k \<longrightarrow> i' \<noteq> i"
      using vj vis_mark [OF lb v(1)] by (auto simp: sec split: if_splits)
    then have i': "i' < 16" by (simp add: vis_def)
    have "entry_at (fs_secs (mark_at pos fs) ! (?s + j)) i' = entry_at (fs_secs fs ! (?s + j)) i'"
      using vj'(2) entry_at_mark [OF lb i' i] by (simp add: sec)
    moreover have "de_get_name (entry_at (fs_secs fs ! (?s + j)) i') \<noteq> name"
      using u [unfolded dir_unique_def, rule_format, of j k i' i] j kl vj' v by auto
    ultimately show "de_get_name (entry_at (fs_secs (mark_at pos fs) ! (?s + j)) i') \<noteq> name" by simp
  qed
  show "dir_find (fs_secs (mark_at pos fs)) name' ?s [0..<dir_len fs c] = dir_find (fs_secs fs) name' ?s [0..<dir_len fs c]"
    if "name' \<noteq> name"
    using find_in_sector_mark_other [OF lb k(3) that] by (intro dir_find_cong) (simp add: sec)
  show "\<exists>k < dir_len fs c. pos div 512 = dir_start fs c + k" using kl pos(1) by blast
  show "fs_wf (mark_at pos fs)" using fs_wf_set_sec [OF wf] lb by (simp add: mark_at_def pos)
qed

text \<open>Hiding an entry that is not a directory leaves the resolution of every directory as it is.\<close>

lemma look_same_mark:
  assumes wf: "fs_wf fs" and c: "dir_ok fs c" and u: "dir_unique fs c"
    and f: "dir_find (fs_secs fs) name (dir_start fs c) [0..<dir_len fs c] = Some (e, pos)" and e: "\<not> D e"
  shows "look_same D fs (mark_at pos fs)"
  unfolding look_same_def
proof (intro allI impI)
  fix q :: u16 and name' r
  assume g: "find_entry_in_dir mem_ops (unat q) name' fs = (Ok r, fs)" and d: "D (fst r)"
  note m = dir_find_mark [OF wf c u f]
  obtain k where k: "k < dir_len fs c" "pos div 512 = dir_start fs c + k" using m(3) by blast
  have "fst (find_entry_in_dir mem_ops (unat q) name' (mark_at pos fs)) = fst (find_entry_in_dir mem_ops (unat q) name' fs)"
  proof (cases "q = c")
    case True
    have "name' \<noteq> name" using g d e f True by (auto simp: find_entry_in_dir_mem [OF wf c])
    moreover have "dir_ok (mark_at pos fs) c" "dir_start (mark_at pos fs) c = dir_start fs c"
      "dir_len (mark_at pos fs) c = dir_len fs c" using c by (simp_all add: mark_at_def)
    ultimately show ?thesis
      using m(2) True by (simp add: find_entry_in_dir_mem [OF wf c] find_entry_in_dir_mem [OF m(4)])
  next
    case False
    show ?thesis
    proof (rule find_in_dir_agree [OF fs_wf_mem [OF wf] fs_wf_mem [OF m(4)]])
      show "fs_secs (mark_at pos fs) ! (dir_start fs q + j) = fs_secs fs ! (dir_start fs q + j)"
        if "q \<noteq> 1" "j < dir_len fs q" for j
        using dir_disjoint [OF wf False that(1) dir_ok_not_1 [OF c] that(2) k(1)] k(2) by (simp add: mark_at_def)
    qed (simp_all add: same_layout_def mark_at_def)
  qed
  then show "find_entry_in_dir mem_ops (unat q) name' (mark_at pos fs) = (Ok r, mark_at pos fs)"
    using g find_in_dir_state [OF fs_wf_mem [OF m(4)], of "unat q" name'] by simp
qed

lemma look_same_outside:
  assumes "fs_wf fs" "fs_wf fs'" "outside_fat fs fs'"
  shows "look_same D fs fs'"
  using assms by (intro look_same_agree fs_wf_mem) (auto simp: outside_fat_def fs_wf_def)

lemma dir_find_outside:
  assumes "fs_wf fs" "outside_fat fs fs'"
  shows "dir_find (fs_secs fs') name (dir_start fs c) [0..<dir_len fs c]
    = dir_find (fs_secs fs) name (dir_start fs c) [0..<dir_len fs c]"
  using assms by (intro dir_find_cong) (auto simp: outside_fat_def dir_start_def fs_wf_def)

text \<open>C9: Removing a regular file whose cluster chain ends succeeds: the loop over the chain returns, the path no
  longer resolves, exactly the clusters of the chain become free, and every path to a directory resolves as
  before.\<close>

theorem remove_file_frees:
  assumes wf: "fs_wf fs" and p: "split_parent path = (parent, name)" "name \<noteq> []"
    and c: "dir_at fs parent c" "dir_ok fs c" "dir_unique fs c"
    and f: "find_entry mem_ops path fs = (Ok (e, pos), fs)" and e: "\<not> de_is_directory e"
    and ch: "fat_chain fs (de_start_cluster e) cs"
  shows "\<exists>fs'. remove_file mem_ops path fs = Some (Ok (), fs') \<and> fs_wf fs' \<and> find_entry mem_ops path fs' = (Err NotFound, fs')
    \<and> (\<forall>d. fat_has fs d \<longrightarrow> fat_get fs' d = (if d \<in> set cs then 0 else fat_get fs d))
    \<and> (\<forall>path' r. find_entry mem_ops path' fs = (Ok r, fs) \<longrightarrow> de_is_directory (fst r)
         \<longrightarrow> find_entry mem_ops path' fs' = (Ok r, fs'))"
proof -
  let ?fs1 = "mark_at pos fs"
  have df: "dir_find (fs_secs fs) name (dir_start fs c) [0..<dir_len fs c] = Some (e, pos)"
    using f unfolding find_entry_child [OF p c(1)] find_entry_in_dir_mem [OF wf c(2)] by (simp split: option.splits)
  note m = dir_find_mark [OF wf c(2,3) df]
  obtain k where k: "k < dir_len fs c" "pos div 512 = dir_start fs c + k" using m(3) by blast
  have has1: "fat_has ?fs1 d = fat_has fs d" for d by (simp add: mark_at_def)
  have get1: "fat_get ?fs1 d = fat_get fs d" if "fat_has fs d" for d
    using fat_get_set_sec [OF wf that dir_inside(2) [OF wf c(2) k(1)]] k(2) by (simp add: mark_at_def)
  have "fat_chain ?fs1 (de_start_cluster e) cs"
    using get1 fat_chain_has [OF ch] has1 by (intro fat_chain_agree [OF _ _ ch]) auto
  then obtain fs' where fs': "free_chain mem_ops (de_start_cluster e) ?fs1 = Some (Ok (), fs')" "fs_wf fs'" "outside_fat ?fs1 fs'"
    "\<And>d. fat_has fs' d = fat_has ?fs1 d" "\<And>d. fat_has ?fs1 d \<Longrightarrow> fat_get fs' d = (if d \<in> set cs then 0 else fat_get ?fs1 d)"
    using free_chain_mem [OF m(4)] by metis
  have "remove_file mem_ops path fs = Some (Ok (), fs')"
    using f e fs'(1) mark_deleted_mem [OF wf] k(2) dir_inside(1) [OF wf c(2) k(1)]
    by (simp add: remove_file_def remove_entry_def bnd_def ret_apply)
  moreover have ls: "look_same de_is_directory fs fs'"
    using look_same_trans [OF look_same_mark [where D = de_is_directory, OF wf c(2,3) df e] look_same_outside [OF m(4) fs'(2,3)]] .
  moreover have "find_entry mem_ops path fs' = (Err NotFound, fs')"
  proof -
    have l: "dir_start fs' c = dir_start fs c" "dir_len fs' c = dir_len fs c" "dir_ok fs' c"
      using fs'(3) c(2) by (simp_all add: outside_fat_def same_layout_def dir_start_def dir_len_def dir_ok_def mark_at_def)
    have "dir_start ?fs1 c = dir_start fs c" "dir_len ?fs1 c = dir_len fs c" by (simp_all add: mark_at_def)
    then show ?thesis
      using m(1) dir_find_outside [OF m(4) fs'(3), of name c] l
      unfolding find_entry_child [OF p dir_at_same [OF c(1) ls fs_wf_mem [OF wf]]]
      by (simp add: find_entry_in_dir_mem [OF fs'(2)])
  qed
  ultimately show ?thesis
    using fs'(2,5) has1 get1 find_entry_same [OF ls fs_wf_mem [OF wf]] by auto
qed

text \<open>An entry stored in the empty root directory of a state.\<close>

lemma stored_in_root:
  assumes wf: "fs_wf fs" and b: "dir_blank fs 0"
    and e: "dir_entry_wf e" "\<not> de_is_free e" "\<not> de_is_deleted e" "de_get_name e = path_sample"
  obtains fs' pos where "find_entry mem_ops path_sample fs' = (Ok (e, pos), fs')" "fs_wf fs'" "dir_unique fs' 0" "dir_ok fs' 0"
    "\<And>c. fat_has fs' c = fat_has fs c" "\<And>c. fat_has fs c \<Longrightarrow> fat_get fs' c = fat_get fs c"
proof -
  have c: "dir_ok fs 0" by (simp add: dir_ok_def)
  have "0 < dir_len fs 0" by (simp add: dir_len_def)
  then obtain fs' where w: "write_dir_entry mem_ops 0 e fs = (Ok (), fs')"
    using write_dir_entry_mem [OF wf c e(1)] dir_blank_slot [OF b] by simp
  obtain k i where fs': "fs' = fs_set_sec (dir_start fs 0 + k) (put_entry (fs_secs fs ! (dir_start fs 0 + k)) (i * 32) e) fs"
    "k < dir_len fs 0" "fs_wf fs'"
    using wf c e(1) w by (rule write_dir_entry_Ok)
  note nf = dir_blank_props(3) [OF b, of "de_get_name e"]
  obtain pos where "dir_find (fs_secs fs') path_sample (dir_start fs 0) [0..<dir_len fs 0] = Some (e, pos)"
    using insert_lookup [OF wf c e(1-3) nf w] e(4) by auto
  then have "find_entry_in_dir mem_ops (unat (0 :: u16)) path_sample fs' = (Ok (e, pos), fs')"
    using find_entry_in_dir_mem [OF fs'(3), of 0 path_sample] fs'(1) c by simp
  then have f: "find_entry mem_ops path_sample fs' = (Ok (e, pos), fs')"
    by (simp add: find_entry_def path_sample_name)
  show ?thesis
    using that [OF f fs'(3) insert_unique [OF wf c e(1-3) nf dir_blank_props(1,2) [OF b] w]]
      fs'(1) c fat_get_set_sec [OF wf _ dir_inside(2) [OF wf c fs'(2)]] by simp
qed

theorem remove_file_frees_witness:
  "\<exists>fs fs'. fat_get fs 2 = 0xFFFF \<and> remove_file mem_ops path_sample fs = Some (Ok (), fs') \<and> fat_get fs' 2 = 0
     \<and> find_entry mem_ops path_sample fs' = (Err NotFound, fs')"
proof -
  have has: "fat_has fs_sample 2" by (simp add: fat_has_def fs_sample_def boot_sector_sample_def)
  note wf = fs_wf_fat_put [OF fs_sample_wf(1) has, of "0xFFFF"]
  have "dir_blank (fat_put 2 0xFFFF fs_sample) 0"
    using fs_sample_root(2) fat_put_outside [OF fs_sample_wf(1) has] dir_inside [OF fs_sample_wf(1) fs_sample_root(1)]
    by (simp add: dir_blank_def)
  then obtain fs pos where fs: "find_entry mem_ops path_sample fs = (Ok (entry_sample, pos), fs)" "fs_wf fs" "dir_unique fs 0" "dir_ok fs 0"
    "fat_has fs 2" "fat_get fs 2 = 0xFFFF"
    using wf entry_sample_ok path_sample_name(1) has fat_get_put [OF fs_sample_wf(1) has has, of "0xFFFF"]
    by (elim stored_in_root [of "fat_put 2 0xFFFF fs_sample" entry_sample]) auto
  have "fat_chain fs (de_start_cluster entry_sample) [2]"
    using fs(5,6) by (simp add: entry_sample_def fe_is_end_of_chain_def de_new_file_def)
  moreover have "\<not> de_is_directory entry_sample" by (simp add: entry_sample_def)
  ultimately show ?thesis
    using remove_file_frees [OF fs(2) path_sample_83(1,3) _ fs(4,3,1)] fs(5,6) by (fastforce simp: dir_at_def)
qed

text \<open>C32: Removing a file whose entry has no cluster (first cluster 0, as other implementations store empty files)
  never returns when the table's entry 0 is zero.  The first such removal on a fresh volume is what zeroes
  it: the chain loop frees entry 0 like any other cluster.\<close>

theorem remove_clusterless_file_hangs:
  assumes wf: "fs_wf fs" and p: "split_parent path = (parent, name)" "name \<noteq> []"
    and c: "dir_at fs parent c" "dir_ok fs c" "dir_unique fs c"
    and f: "find_entry mem_ops path fs = (Ok (e, pos), fs)" and e: "\<not> de_is_directory e" "de_start_cluster e = 0"
    and z: "fat_has fs 0"
  shows "if fat_get fs 0 = 0 then remove_file mem_ops path fs = None
    else if fat_get fs 0 \<ge> 0xFFF8 then \<exists>fs'. remove_file mem_ops path fs = Some (Ok (), fs') \<and> fat_get fs' 0 = 0
    else True"
proof -
  let ?fs1 = "mark_at pos fs"
  have df: "dir_find (fs_secs fs) name (dir_start fs c) [0..<dir_len fs c] = Some (e, pos)"
    using f unfolding find_entry_child [OF p c(1)] find_entry_in_dir_mem [OF wf c(2)] by (simp split: option.splits)
  note m = dir_find_mark [OF wf c(2,3) df]
  obtain k where k: "k < dir_len fs c" "pos div 512 = dir_start fs c + k" using m(3) by blast
  have r: "remove_file mem_ops path fs = free_chain mem_ops 0 ?fs1"
    using f e mark_deleted_mem [OF wf] k(2) dir_inside(1) [OF wf c(2) k(1)]
    by (simp add: remove_file_def remove_entry_def bnd_def ret_apply)
  have z1: "fat_has ?fs1 0" "fat_get ?fs1 0 = fat_get fs 0"
    using z fat_get_set_sec [OF wf z dir_inside(2) [OF wf c(2) k(1)]] k(2) by (simp_all add: mark_at_def)
  show ?thesis
    using r z1 free_chain_stuck [OF m(4) z1(1)] free_chain_step [OF m(4) z1(1)] fat_get_put [OF m(4) z1(1,1), of 0]
    by (simp add: fe_is_end_of_chain_def)
qed

theorem remove_clusterless_file_hangs_witness:
  "\<exists>fs. fs_wf fs \<and> remove_file mem_ops path_sample fs = None"
proof -
  let ?e = "entry_sample\<lparr>de_start_cluster := 0\<rparr>"
  have has: "fat_has fs_sample 0" by (simp add: fat_has_def fs_sample_def boot_sector_sample_def)
  have "dir_entry_wf ?e" "\<not> de_is_free ?e" "\<not> de_is_deleted ?e" "de_get_name ?e = path_sample"
    using entry_sample_ok path_sample_name(1)
    by (simp_all add: dir_entry_wf_def de_is_free_def de_is_deleted_def de_get_name_def)
  then obtain fs pos where fs: "find_entry mem_ops path_sample fs = (Ok (?e, pos), fs)" "fs_wf fs" "dir_unique fs 0" "dir_ok fs 0"
    "fat_has fs 0" "fat_get fs 0 = 0"
    using has fs_sample_fat [OF has] by (elim stored_in_root [OF fs_sample_wf(1) fs_sample_root(2)]) auto
  moreover have "\<not> de_is_directory ?e" by (simp add: entry_sample_def de_is_directory_def ATTR_ARCHIVE_def ATTR_DIRECTORY_def)
  ultimately show ?thesis
    using remove_clusterless_file_hangs [OF fs(2) path_sample_83(1,3) _ fs(4,3,1) _ _ fs(5)] by (auto simp: dir_at_def)
qed

end
