(* ===== verification/Fat16_Refine.thy ===== *)
theory Fat16_Refine
  imports Fat16_Remove
begin

text \<open>
  The file system on an arbitrary lawful block device refines the file system on the in-memory device: every
  operation gives the same result and leaves the two in corresponding states.  So the theorems about the in-memory
  device hold for every device that obeys the contract.
\<close>

section \<open>Corresponding file systems\<close>

definition fs_rel :: "('d \<Rightarrow> memory_device \<Rightarrow> bool) \<Rightarrow> 'd fat16 \<Rightarrow> mem_fs \<Rightarrow> bool" where
  "fs_rel R f g \<longleftrightarrow> R (fs_device f) (fs_device g) \<and> fs_boot_sector f = fs_boot_sector g \<and> fs_fat_start f = fs_fat_start g
     \<and> fs_root_dir_start f = fs_root_dir_start g \<and> fs_data_start f = fs_data_start g \<and> fs_cluster_size f = fs_cluster_size g
     \<and> fs_fd_counter f = fs_fd_counter g \<and> fs_reuse_fds f = fs_reuse_fds g \<and> fs_fd_table f = fs_fd_table g"

lemma fs_relD:
  assumes "fs_rel R f g"
  shows "R (fs_device f) (fs_device g)" "fs_boot_sector f = fs_boot_sector g" "fs_fat_start f = fs_fat_start g"
    "fs_root_dir_start f = fs_root_dir_start g" "fs_data_start f = fs_data_start g" "fs_cluster_size f = fs_cluster_size g"
    "fs_fd_counter f = fs_fd_counter g" "fs_reuse_fds f = fs_reuse_fds g" "fs_fd_table f = fs_fd_table g"
  using assms by (simp_all add: fs_rel_def)

lemma sim_dev: "sim R p q \<Longrightarrow> sim (fs_rel R) (dev p) (dev q)"
proof (rule simI)
  fix s t assume p: "sim R p q" and r: "fs_rel R s t"
  have "fst (p (fs_device s)) = fst (q (fs_device t)) \<and> R (snd (p (fs_device s))) (snd (q (fs_device t)))"
    by (rule sim_apply [OF p fs_relD(1) [OF r]])
  then show "fst (dev p s) = fst (dev q t) \<and> fs_rel R (snd (dev p s)) (snd (dev q t))"
    using r by (simp add: dev_def zoom_def case_prod_beta fs_rel_def)
qed

lemma sim_fs_gets:
  "sim (fs_rel R) (gets fs_boot_sector) (gets fs_boot_sector)" "sim (fs_rel R) (gets fs_fat_start) (gets fs_fat_start)"
  "sim (fs_rel R) (gets fs_root_dir_start) (gets fs_root_dir_start)" "sim (fs_rel R) (gets fs_data_start) (gets fs_data_start)"
  "sim (fs_rel R) (gets fs_fd_counter) (gets fs_fd_counter)" "sim (fs_rel R) (gets fs_fd_table) (gets fs_fd_table)"
  by (rule sim_gets, simp add: fs_rel_def)+

lemma sim_get_st:
  "(\<And>s t. R s t \<Longrightarrow> sim R (f s) (g t)) \<Longrightarrow> sim R (bnd get_st f) (bnd get_st g)"
  by (auto simp: sim_def bnd_def prog_simps)

lemmas fs_sim = sim_rules sim_dev sim_fs_gets

lemma sim_get_file: "sim (fs_rel R) (get_file fd) (get_file fd)"
  unfolding get_file_def by (intro fs_sim)

lemma sim_set_file: "sim (fs_rel R) (set_file fd f) (set_file fd f)"
  unfolding set_file_def by (rule sim_modify) (simp add: fs_rel_def)

section \<open>Operations\<close>

context lawful_device
begin

lemmas dev_sim = fs_sim sim_read sim_write sim_get_file sim_set_file

lemma sim_read_fat_entry: "sim (fs_rel rep) (read_fat_entry ops c) (read_fat_entry mem_ops c)"
  unfolding read_fat_entry_def by (intro dev_sim)

lemma sim_write_fat_entry: "sim (fs_rel rep) (write_fat_entry ops c e) (write_fat_entry mem_ops c e)"
  unfolding write_fat_entry_def by (intro dev_sim)

lemma sim_cluster_to_sector: "sim (fs_rel rep) (cluster_to_sector c) (cluster_to_sector c)"
  unfolding cluster_to_sector_def by (intro dev_sim)

lemma sim_allocate_search: "sim (fs_rel rep) (allocate_search ops cs) (allocate_search mem_ops cs)"
  by (induction cs) (auto intro!: dev_sim sim_read_fat_entry sim_write_fat_entry)

lemma sim_allocate_cluster: "sim (fs_rel rep) (allocate_cluster ops) (allocate_cluster mem_ops)"
  unfolding allocate_cluster_def by (intro dev_sim sim_allocate_search)

lemma sim_dir_extent: "sim (fs_rel rep) (dir_extent c) (dir_extent c)"
  unfolding dir_extent_def by (intro dev_sim sim_cluster_to_sector)

lemma sim_find_sectors: "sim (fs_rel rep) (find_sectors ops name k ks buf) (find_sectors mem_ops name k ks buf)"
  by (induction ks arbitrary: buf) (auto intro!: dev_sim)

lemma sim_find_entry_in_dir: "sim (fs_rel rep) (find_entry_in_dir ops c name) (find_entry_in_dir mem_ops c name)"
  unfolding find_entry_in_dir_def by (intro dev_sim sim_dir_extent sim_find_sectors)

lemma sim_find_components: "sim (fs_rel rep) (find_components ops c cs) (find_components mem_ops c cs)"
  by (induction "mem_ops" c cs rule: find_components.induct) (auto intro!: dev_sim sim_find_entry_in_dir)

lemma sim_find_entry: "sim (fs_rel rep) (find_entry ops path) (find_entry mem_ops path)"
  unfolding find_entry_def by (rule sim_find_components)

lemma sim_write_dir_sectors: "sim (fs_rel rep) (write_dir_sectors ops e k ks buf) (write_dir_sectors mem_ops e k ks buf)"
  by (induction ks arbitrary: buf) (auto intro!: dev_sim)

lemma sim_write_dir_entry: "sim (fs_rel rep) (write_dir_entry ops c e) (write_dir_entry mem_ops c e)"
  unfolding write_dir_entry_def by (intro dev_sim sim_dir_extent sim_write_dir_sectors)

lemma sim_parent_dir: "sim (fs_rel rep) (parent_dir ops path) (parent_dir mem_ops path)"
  unfolding parent_dir_def by (intro dev_sim sim_find_entry)

lemma sim_init_directory: "sim (fs_rel rep) (init_directory ops c p) (init_directory mem_ops c p)"
  unfolding init_directory_def by (intro dev_sim sim_cluster_to_sector)

lemma sim_is_directory_empty: "sim (fs_rel rep) (is_directory_empty ops c) (is_directory_empty mem_ops c)"
  unfolding is_directory_empty_def by (intro dev_sim sim_cluster_to_sector)

lemmas dir_sim = dev_sim sim_read_fat_entry sim_write_fat_entry sim_cluster_to_sector sim_allocate_cluster sim_dir_extent
  sim_find_entry sim_write_dir_entry sim_parent_dir sim_init_directory sim_is_directory_empty

lemma sim_create_file: "sim (fs_rel rep) (create_file ops path) (create_file mem_ops path)"
  unfolding create_file_def by (intro dir_sim)

lemma sim_create_dir: "sim (fs_rel rep) (create_dir ops path) (create_dir mem_ops path)"
  unfolding create_dir_def by (intro dir_sim)

lemma sim_list_sectors: "sim (fs_rel rep) (list_sectors ops e k ks buf) (list_sectors mem_ops e k ks buf)"
  by (induction ks arbitrary: buf) (auto intro!: dev_sim)

lemma sim_read_dir: "sim (fs_rel rep) (read_dir ops path) (read_dir mem_ops path)"
  unfolding read_dir_def by (intro dir_sim sim_list_sectors)

lemma sim_metadata: "sim (fs_rel rep) (metadata ops path) (metadata mem_ops path)"
  unfolding metadata_def by (intro dir_sim)

lemma sim_slot_search: "sim (fs_rel rep) (slot_search ops k ks buf) (slot_search mem_ops k ks buf)"
  by (induction ks arbitrary: buf) (auto intro!: dev_sim)

lemma sim_rename_entry: "sim (fs_rel rep) (rename_entry ops from to) (rename_entry mem_ops from to)"
  unfolding rename_entry_def by (intro dir_sim sim_slot_search)

subsection \<open>Open files\<close>

lemma sim_file_read_fat_entry: "sim rep (file_read_fat_entry ops f c) (file_read_fat_entry mem_ops f c)"
  unfolding file_read_fat_entry_def by (intro dev_sim)

lemma sim_file_write_fat_entry: "sim rep (file_write_fat_entry ops f c e) (file_write_fat_entry mem_ops f c e)"
  unfolding file_write_fat_entry_def by (intro dev_sim)

lemma sim_file_update_directory_entry: "sim rep (file_update_directory_entry ops f n) (file_update_directory_entry mem_ops f n)"
  unfolding file_update_directory_entry_def by (intro dev_sim)

lemma sim_file_allocate_search: "sim rep (file_allocate_search ops f cs) (file_allocate_search mem_ops f cs)"
  by (induction cs) (auto intro!: dev_sim sim_file_read_fat_entry sim_file_write_fat_entry)

lemma sim_file_allocate_cluster: "sim rep (file_allocate_cluster ops f) (file_allocate_cluster mem_ops f)"
  unfolding file_allocate_cluster_def by (intro dev_sim sim_file_allocate_search)

lemma sim_read_sectors: "sim rep (read_sectors ops k ks buf) (read_sectors mem_ops k ks buf)"
  by (induction ks arbitrary: buf) (auto intro!: dev_sim)

lemma sim_write_sectors: "sim rep (write_sectors ops k ks buf) (write_sectors mem_ops k ks buf)"
  unfolding write_sectors_def by (intro dev_sim)

lemmas file_sim = dev_sim sim_file_read_fat_entry sim_file_write_fat_entry sim_file_update_directory_entry
  sim_file_allocate_cluster sim_read_sectors sim_write_sectors

lemma sim_fs_next_write: "sim (fs_rel rep) (fs_next_write ops fd) (fs_next_write mem_ops fd)"
  unfolding fs_next_write_def by (intro file_sim)

lemma sim_fs_write_body: "sim (fs_rel rep) (fs_write_body ops fd buf n) (fs_write_body mem_ops fd buf n)"
  unfolding fs_write_body_def by (intro file_sim sim_fs_next_write)

lemma sim_fs_read_body: "sim (fs_rel rep) (fs_read_body ops fd len buf n) (fs_read_body mem_ops fd len buf n)"
  unfolding fs_read_body_def by (intro file_sim)

lemma sim_fs_write_loop: "fs_rel rep s t \<Longrightarrow>
    fst (fs_write_loop ops fd buf n s) = fst (fs_write_loop mem_ops fd buf n t)
    \<and> fs_rel rep (snd (fs_write_loop ops fd buf n s)) (snd (fs_write_loop mem_ops fd buf n t))"
proof (induction "length buf - n" arbitrary: n s t rule: less_induct)
  case less
  note b = sim_apply [OF sim_fs_write_body less.prems, of fd buf n]
  show ?case
  proof (cases "n < length buf")
    case True
    obtain r s1 where s1: "fs_write_body ops fd buf n s = (r, s1)" by (cases "fs_write_body ops fd buf n s")
    obtain r' t1 where t1: "fs_write_body mem_ops fd buf n t = (r', t1)" by (cases "fs_write_body mem_ops fd buf n t")
    have r: "r' = r" "fs_rel rep s1 t1" using b s1 t1 by auto
    show ?thesis
    proof (cases r)
      case (Ok k)
      then have "length buf - (n + k) < length buf - n" using fs_write_body_progress s1 True by fastforce
      from less.hyps [OF this r(2)] show ?thesis using True s1 t1 r(1) Ok by (simp add: fs_write_loop.simps [of _ _ _ n] bnd_def)
    qed (use True s1 t1 r in \<open>simp_all add: fs_write_loop.simps [of _ _ _ n] bnd_def\<close>)
  qed (use less.prems in \<open>simp add: fs_write_loop.simps\<close>)
qed

lemma sim_fs_read_loop: "fs_rel rep s t \<Longrightarrow>
    fst (fs_read_loop ops fd len buf n s) = fst (fs_read_loop mem_ops fd len buf n t)
    \<and> fs_rel rep (snd (fs_read_loop ops fd len buf n s)) (snd (fs_read_loop mem_ops fd len buf n t))"
proof (induction "len - n" arbitrary: n s t buf rule: less_induct)
  case less
  note b = sim_apply [OF sim_fs_read_body less.prems, of fd len buf n]
  show ?case
  proof (cases "n < len")
    case True
    obtain r s1 where s1: "fs_read_body ops fd len buf n s = (r, s1)" by (cases "fs_read_body ops fd len buf n s")
    obtain r' t1 where t1: "fs_read_body mem_ops fd len buf n t = (r', t1)" by (cases "fs_read_body mem_ops fd len buf n t")
    have r: "r' = r" "fs_rel rep s1 t1" using b s1 t1 by auto
    show ?thesis
    proof (cases r)
      case (Ok x)
      obtain buf' k stop where x: "x = (buf', k, stop)" by (cases x)
      then have "len - (n + k) < len - n" using fs_read_body_progress s1 Ok True by fastforce
      from less.hyps [OF this r(2)] show ?thesis using True s1 t1 r Ok x by (simp add: fs_read_loop.simps [of _ _ _ _ n] bnd_def)
    qed (use True s1 t1 r in \<open>simp_all add: fs_read_loop.simps [of _ _ _ _ n] bnd_def\<close>)
  qed (use less.prems in \<open>simp add: fs_read_loop.simps\<close>)
qed

lemma sim_driver_write: "sim (fs_rel rep) (write_file ops fd buf) (write_file mem_ops fd buf)"
  unfolding write_file_def by (intro file_sim simI sim_fs_write_loop)

lemma sim_driver_read: "sim (fs_rel rep) (read_file ops fd buf) (read_file mem_ops fd buf)"
  unfolding read_file_def by (intro file_sim simI sim_fs_read_loop)

lemma sim_seek_file: "sim (fs_rel rep) (seek_file fd p) (seek_file fd p)"
  unfolding seek_file_def by (intro file_sim)

lemma sim_close_file: "sim (fs_rel rep) (close_file fd) (close_file fd)"
  unfolding close_file_def by (intro file_sim sim_modify) (simp add: fs_rel_def)

lemma sim_fs_updates:
  "sim (fs_rel R) (modify_st (\<lambda>fs. fs\<lparr>fs_reuse_fds := x\<rparr>)) (modify_st (\<lambda>fs. fs\<lparr>fs_reuse_fds := x\<rparr>))"
  "sim (fs_rel R) (modify_st (\<lambda>fs. fs\<lparr>fs_fd_table := fs_fd_table fs @ y\<rparr>)) (modify_st (\<lambda>fs. fs\<lparr>fs_fd_table := fs_fd_table fs @ y\<rparr>))"
  "sim (fs_rel R) (modify_st (\<lambda>fs. fs\<lparr>fs_fd_counter := k\<rparr>)) (modify_st (\<lambda>fs. fs\<lparr>fs_fd_counter := k\<rparr>))"
  by (rule sim_modify, simp add: fs_rel_def)+

lemma sim_open_file: "sim (fs_rel rep) (open_file ops path) (open_file mem_ops path)"
  unfolding open_file_def
proof (intro sim_bnd [OF sim_find_entry] sim_case_prod sim_if sim_raise sim_get_st, goal_cases)
  case (1 x entry entry_pos f g)
  then show ?case unfolding fs_relD(3,5,6,8) [OF 1(2)] by (intro dev_sim sim_fs_updates)
qed

end

section \<open>Removal\<close>

text \<open>Two runs correspond when neither returns, or both return the same result in corresponding states.\<close>

definition same_run :: "('s \<Rightarrow> 't \<Rightarrow> bool) \<Rightarrow> (('e, 'a) res \<times> 's) option \<Rightarrow> (('e, 'a) res \<times> 't) option \<Rightarrow> bool" where
  "same_run R = rel_option (rel_prod (=) R)"

lemma simE:
  assumes "sim R p q" "R s t" "p s = (r, s')"
  obtains t' where "q t = (r, t')" "R s' t'"
  using sim_apply [OF assms(1,2)] assms(3) by (cases "q t") auto

lemma sim_converse: "sim R p q \<Longrightarrow> sim R\<inverse>\<inverse> q p"
  by (simp add: sim_def)

lemma free_chain_follows:
  assumes rd: "\<And>c. sim R (read_fat_entry o1 c) (read_fat_entry o2 c)" and wr: "\<And>c e. sim R (write_fat_entry o1 c e) (write_fat_entry o2 c e)"
    and "free_chain o1 c s = Some y" "R s t"
  shows "\<exists>t'. free_chain o2 c t = Some (fst y, t') \<and> R (snd y) t'"
proof -
  let ?P = "\<lambda>ops c s y. ops = o1 \<longrightarrow> (\<forall>t. R s t \<longrightarrow> (\<exists>t'. free_chain o2 c t = Some (fst y, t') \<and> R (snd y) t'))"
  have "?P o1 c s y"
  proof (rule free_chain.raw_induct [OF _ assms(3), where P = ?P], intro impI allI)
    fix f ops c s y t
    assume IH: "\<And>ops c s y. f ops c s = Some y \<Longrightarrow> ?P ops c s y" and o: "ops = o1" and st: "R s t"
      and r: "(case read_fat_entry ops c s of
         (Ok entry, fs1) \<Rightarrow>
           if fe_is_end_of_chain entry then Some (write_fat_entry ops c \<lparr>fe_cluster = 0\<rparr> fs1)
           else (case read_fat_entry ops c fs1 of
             (Ok next, fs2) \<Rightarrow>
               (case write_fat_entry ops c \<lparr>fe_cluster = 0\<rparr> fs2 of
                  (Ok x, fs3) \<Rightarrow> f ops (fe_cluster next) fs3
                | (Err e, fs3) \<Rightarrow> Some (Err e, fs3) | (Panic, fs3) \<Rightarrow> Some (Panic, fs3))
             | (Err e, fs2) \<Rightarrow> Some (Err e, fs2) | (Panic, fs2) \<Rightarrow> Some (Panic, fs2))
       | (Err e, fs1) \<Rightarrow> Some (Err e, fs1) | (Panic, fs1) \<Rightarrow> Some (Panic, fs1)) = Some y"
    obtain r1 s1 where 1: "read_fat_entry o1 c s = (r1, s1)" by (cases "read_fat_entry o1 c s")
    obtain t1 where t1: "read_fat_entry o2 c t = (r1, t1)" "R s1 t1" by (rule simE [OF rd st 1])
    obtain r2 s2 where 2: "read_fat_entry o1 c s1 = (r2, s2)" by (cases "read_fat_entry o1 c s1")
    obtain t2 where t2: "read_fat_entry o2 c t1 = (r2, t2)" "R s2 t2" by (rule simE [OF rd t1(2) 2])
    obtain r3 s3 where 3: "write_fat_entry o1 c \<lparr>fe_cluster = 0\<rparr> s2 = (r3, s3)" by (cases "write_fat_entry o1 c \<lparr>fe_cluster = 0\<rparr> s2")
    obtain t3 where t3: "write_fat_entry o2 c \<lparr>fe_cluster = 0\<rparr> t2 = (r3, t3)" "R s3 t3" by (rule simE [OF wr t2(2) 3])
    obtain r4 s4 where 4: "write_fat_entry o1 c \<lparr>fe_cluster = 0\<rparr> s1 = (r4, s4)" by (cases "write_fat_entry o1 c \<lparr>fe_cluster = 0\<rparr> s1")
    obtain t4 where t4: "write_fat_entry o2 c \<lparr>fe_cluster = 0\<rparr> t1 = (r4, t4)" "R s4 t4" by (rule simE [OF wr t1(2) 4])
    have next_pass: "\<exists>t'. free_chain o2 c' t3 = Some (fst y, t') \<and> R (snd y) t'" if "f o1 c' s3 = Some y" for c'
      using IH [OF that] t3(2) by blast
    show "\<exists>t'. free_chain o2 c t = Some (fst y, t') \<and> R (snd y) t'"
      using r t1 t2 t3 t4 unfolding o 1
      by (subst free_chain.simps) (auto simp: 2 3 4 intro: next_pass split: res.splits if_splits)
  qed
  then show ?thesis using assms(4) by blast
qed

text \<open>Programs whose results correspond by \<open>S\<close>.\<close>

definition rel_sim :: "('a \<Rightarrow> 'b \<Rightarrow> bool) \<Rightarrow> ('s \<Rightarrow> 't \<Rightarrow> bool) \<Rightarrow> ('s, 'e, 'a) prog \<Rightarrow> ('t, 'e, 'b) prog \<Rightarrow> bool" where
  "rel_sim S R p q \<longleftrightarrow> (\<forall>s t. R s t \<longrightarrow> rel_res (=) S (fst (p s)) (fst (q t)) \<and> R (snd (p s)) (snd (q t)))"

lemma rel_sim_bnd:
  assumes "sim R p q" "\<And>x. rel_sim S R (f x) (g x)"
  shows "rel_sim S R (bnd p f) (bnd q g)"
  unfolding rel_sim_def
proof (intro allI impI)
  fix s t assume st: "R s t"
  obtain r s' where s': "p s = (r, s')" by (cases "p s")
  obtain t' where t': "q t = (r, t')" "R s' t'" by (rule simE [OF assms(1) st s'])
  show "rel_res (=) S (fst (bnd p f s)) (fst (bnd q g t)) \<and> R (snd (bnd p f s)) (snd (bnd q g t))"
    using s' t' assms(2) by (cases r) (simp_all add: bnd_def rel_sim_def)
qed

context lawful_device
begin

lemma free_chain_refines:
  assumes "fs_rel rep s t"
  shows "same_run (fs_rel rep) (free_chain ops c s) (free_chain mem_ops c t)"
proof (cases "free_chain ops c s")
  case (Some y)
  then show ?thesis
    using free_chain_follows [OF sim_read_fat_entry sim_write_fat_entry Some assms] by (cases y) (auto simp: same_run_def)
next
  case None
  have "free_chain mem_ops c t = None"
  proof (rule ccontr)
    assume "free_chain mem_ops c t \<noteq> None"
    then obtain y where "free_chain mem_ops c t = Some y" by blast
    from free_chain_follows [OF sim_converse [OF sim_read_fat_entry] sim_converse [OF sim_write_fat_entry] this] None assms
    show False by fastforce
  qed
  then show ?thesis using None by (simp add: same_run_def)
qed

lemma sim_mark_deleted: "sim (fs_rel rep) (mark_deleted ops p) (mark_deleted mem_ops p)"
  unfolding mark_deleted_def by (intro dev_sim)

lemma remove_entry_refines:
  assumes "fs_rel rep s t"
  shows "same_run (fs_rel rep) (remove_entry ops path d s) (remove_entry mem_ops path d t)"
proof -
  let ?p = "bnd (find_entry ops path) (\<lambda>(entry, entry_pos). if de_is_directory entry \<noteq> d then raise NotSupported
      else bnd (mark_deleted ops entry_pos) (\<lambda>_. ret (de_start_cluster entry)))"
  let ?q = "bnd (find_entry mem_ops path) (\<lambda>(entry, entry_pos). if de_is_directory entry \<noteq> d then raise NotSupported
      else bnd (mark_deleted mem_ops entry_pos) (\<lambda>_. ret (de_start_cluster entry)))"
  have p: "sim (fs_rel rep) ?p ?q" by (intro dir_sim sim_mark_deleted)
  obtain r s' where s': "?p s = (r, s')" by (cases "?p s")
  obtain t' where t': "?q t = (r, t')" "fs_rel rep s' t'" by (rule simE [OF p assms s'])
  show ?thesis unfolding remove_entry_def s' t'(1)
    using free_chain_refines [OF t'(2)] t'(2) by (cases r) (simp_all add: same_run_def)
qed

lemma remove_dir_refines:
  assumes "fs_rel rep s t"
  shows "same_run (fs_rel rep) (remove_dir ops path s) (remove_dir mem_ops path t)"
proof -
  let ?p = "bnd (find_entry ops path) (\<lambda>(entry, _). if \<not> de_is_directory entry then raise NotSupported
      else bnd (is_directory_empty ops (de_start_cluster entry)) (\<lambda>empty. if \<not> empty then raise DirectoryNotEmpty else ret ()))"
  let ?q = "bnd (find_entry mem_ops path) (\<lambda>(entry, _). if \<not> de_is_directory entry then raise NotSupported
      else bnd (is_directory_empty mem_ops (de_start_cluster entry)) (\<lambda>empty. if \<not> empty then raise DirectoryNotEmpty else ret ()))"
  have p: "sim (fs_rel rep) ?p ?q" by (intro dir_sim)
  obtain r s' where s': "?p s = (r, s')" by (cases "?p s")
  obtain t' where t': "?q t = (r, t')" "fs_rel rep s' t'" by (rule simE [OF p assms s'])
  show ?thesis unfolding remove_dir_def s' t'(1)
    using remove_entry_refines [OF t'(2)] t'(2) by (cases r) (simp_all add: same_run_def)
qed

subsection \<open>Mounting\<close>

text \<open>The result of mounting is a file system, so the results correspond instead of being equal.\<close>

lemma fat_new_refines: "rel_sim (fs_rel rep) rep (fat_new ops) (fat_new mem_ops)"
  unfolding rel_sim_def
proof (intro allI impI)
  fix d m assume dm: "rep d m"
  let ?buf = "replicate SECTOR_SIZE 0"
  obtain r d' where d': "bd_read ops 0 ?buf d = (r, d')" by (cases "bd_read ops 0 ?buf d")
  obtain m' where m': "bd_read mem_ops 0 ?buf m = (r, m')" "rep d' m'" by (rule simE [OF sim_read dm d'])
  show "rel_res (=) (fs_rel rep) (fst (fat_new ops d)) (fst (fat_new mem_ops m)) \<and> rep (snd (fat_new ops d)) (snd (fat_new mem_ops m))"
    using d' m' by (cases r) (simp_all add: fat_new_def bnd_def prog_simps Let_def fs_rel_def)
qed

lemma fat_format_refines: "rel_sim (fs_rel rep) rep (fat_format ops) (fat_format mem_ops)"
  unfolding fat_format_def Let_def
  by (intro rel_sim_bnd [OF sim_gets] rel_sim_bnd [OF sim_lift_res] rel_sim_bnd [OF sim_write] rel_sim_bnd [OF sim_for_each]
      sim_for_each sim_write fat_new_refines) (simp_all add: rep_sizes)

end

section \<open>The refinement\<close>


text \<open>A device that counts its accesses, with the sectors of the sample file system.\<close>

definition counting_ops :: "(nat \<times> bytes list) block_device" where
  "counting_ops = \<lparr>bd_read = (\<lambda>n buf (k, bs). (if n < length bs \<and> length buf = 512 then Ok (bs ! n) else Err IOError, Suc k, bs)),
     bd_write = (\<lambda>n buf (k, bs). if n < length bs \<and> length buf = 512 then (Ok (), Suc k, bs[n := buf]) else (Err IOError, Suc k, bs)),
     bd_block_size = (\<lambda>_. 512), bd_total_blocks = (\<lambda>(k, bs). length bs)\<rparr>"

interpretation counting: lawful_device counting_ops snd "\<lambda>(k, bs). \<forall>b \<in> set bs. length b = 512"
  by unfold_locales (auto simp: counting_ops_def split: if_splits dest!: set_update_subset_insert [THEN subsetD])

definition fs_counting :: "(nat \<times> bytes list) fat16" where
  "fs_counting = \<lparr>fs_device = (0, blocks (fs_device fs_sample)), fs_boot_sector = boot_sector_sample, fs_fat_start = 1,
     fs_root_dir_start = 3, fs_data_start = 35, fs_cluster_size = 2048, fs_fd_counter = 0, fs_reuse_fds = [], fs_fd_table = []\<rparr>"


end
