(* ===== verification/Events.thy ===== *)
theory Events
  imports Kernel_Prelude
begin

text \<open>
  The event system (\<open>events/mod.rs\<close>, \<open>events/event.rs\<close>, \<open>events/event_runner.rs\<close>).

  An \<open>Arc<Event>\<close> is shared between queues and wakers, and its priority and clock are mutable, so events
  live in a store and queues hold references (indices) into it; the shared \<open>Arc<EventQueue>\<close> of woken events
  is a reference into a second store.  A future is a value of a type parameter together with the function
  \<open>poll\<close>, a parameter of the model: polling says whether the future is ready, gives its next state, and lists
  what the polled code did to the event system (waking events, scheduling new ones).  Reading
  \<open>EVENT_RUNNERS\<close> and the locks of the queues are the state itself.
\<close>

section \<open>State\<close>

definition NUM_EVENT_PRIORITIES :: nat where
  "NUM_EVENT_PRIORITIES = 4"

definition PRIORITY_INC_DELAY :: nat where
  "PRIORITY_INC_DELAY = 5"

record 'f event =
  eid :: u64
  pid :: u32
  ev_future :: 'f
  ev_rewake_queue :: nat
  priority :: nat
  scheduled_clock :: nat

record event_runner =
  event_queues :: "nat list list"
  rewake_queue :: nat
  pending_events :: "u64 set"
  current_event :: "nat option"
  clock :: nat

record 'f ev_world =
  next_id :: u64
  ev_store :: "'f event list"
  rewake_store :: "nat list list"
  runners :: "u32 \<Rightarrow> event_runner option"

type_synonym ('f, 'a) ev = "('f ev_world, unit, 'a) prog"

text \<open>What polled code does to the event system.\<close>

datatype 'f ev_action = Wake nat | Schedule u32 'f nat u32

type_synonym 'f poll_fun = "nat \<Rightarrow> 'f \<Rightarrow> bool \<times> 'f \<times> 'f ev_action list"

section \<open>Operations\<close>

subsection \<open>Events and queues\<close>

text \<open>\<open>EventId::init\<close> is \<open>NEXT_ID.fetch_add(1)\<close>, which wraps.\<close>

definition eventid_init :: "('f, u64) ev" where
  "eventid_init = bnd (gets next_id) (\<lambda>i. bnd (modify_st (\<lambda>w. w\<lparr>next_id := next_id w + 1\<rparr>)) (\<lambda>_. ret i))"

definition event_init :: "'f \<Rightarrow> nat \<Rightarrow> nat \<Rightarrow> u32 \<Rightarrow> nat \<Rightarrow> ('f, nat) ev" where
  "event_init fut rq prio p clk =
    bnd eventid_init (\<lambda>i.
    bnd (gets (\<lambda>w. length (ev_store w))) (\<lambda>e.
    bnd (modify_st (\<lambda>w. w\<lparr>ev_store := ev_store w @ [\<lparr>eid = i, pid = p, ev_future = fut, ev_rewake_queue = rq,
      priority = prio, scheduled_clock = clk\<rparr>]\<rparr>)) (\<lambda>_. ret e)))"

definition get_event :: "nat \<Rightarrow> ('f, 'f event) ev" where
  "get_event e = bnd (gets ev_store) (\<lambda>es. lift_res (index_at es e))"

definition set_event :: "nat \<Rightarrow> ('f event \<Rightarrow> 'f event) \<Rightarrow> ('f, unit) ev" where
  "set_event e g = modify_st (\<lambda>w. w\<lparr>ev_store := (ev_store w)[e := g (ev_store w ! e)]\<rparr>)"

definition wake_by_ref :: "nat \<Rightarrow> ('f, unit) ev" where
  "wake_by_ref e =
    bnd (get_event e) (\<lambda>ev.
    modify_st (\<lambda>w. w\<lparr>rewake_store := (rewake_store w)[ev_rewake_queue ev := rewake_store w ! ev_rewake_queue ev @ [e]]\<rparr>))"

definition get_runner :: "u32 \<Rightarrow> ('f, event_runner) ev" where
  "get_runner cpuid = bnd (gets runners) (\<lambda>rs. case rs cpuid of None \<Rightarrow> panic | Some r \<Rightarrow> ret r)"

definition set_runner :: "u32 \<Rightarrow> (event_runner \<Rightarrow> event_runner) \<Rightarrow> ('f, unit) ev" where
  "set_runner cpuid g = modify_st (\<lambda>w. w\<lparr>runners := (runners w)(cpuid := map_option g (runners w cpuid))\<rparr>)"

text \<open>\<open>EventRunner::init\<close>: the runner and its queue of woken events.\<close>

definition runner_init :: "('f, event_runner) ev" where
  "runner_init =
    bnd (gets (\<lambda>w. length (rewake_store w))) (\<lambda>q.
    bnd (modify_st (\<lambda>w. w\<lparr>rewake_store := rewake_store w @ [[]]\<rparr>)) (\<lambda>_.
    ret \<lparr>event_queues = replicate NUM_EVENT_PRIORITIES [], rewake_queue = q, pending_events = {},
         current_event = None, clock = 0\<rparr>))"

definition enqueue :: "u32 \<Rightarrow> nat \<Rightarrow> nat \<Rightarrow> ('f, unit) ev" where
  "enqueue cpuid i e =
    bnd (get_runner cpuid) (\<lambda>r.
    bnd (lift_res (index_at (event_queues r) i)) (\<lambda>q.
    set_runner cpuid (\<lambda>r. r\<lparr>event_queues := (event_queues r)[i := q @ [e]]\<rparr>)))"

definition try_pop :: "u32 \<Rightarrow> nat \<Rightarrow> ('f, nat option) ev" where
  "try_pop cpuid i =
    bnd (get_runner cpuid) (\<lambda>r.
    bnd (lift_res (index_at (event_queues r) i)) (\<lambda>q.
    case q of
      [] \<Rightarrow> ret None
    | e # es \<Rightarrow> bnd (set_runner cpuid (\<lambda>r. r\<lparr>event_queues := (event_queues r)[i := es]\<rparr>)) (\<lambda>_. ret (Some e))))"

definition try_pop_rewake :: "u32 \<Rightarrow> ('f, nat option) ev" where
  "try_pop_rewake cpuid =
    bnd (get_runner cpuid) (\<lambda>r.
    bnd (gets rewake_store) (\<lambda>qs.
    case qs ! rewake_queue r of
      [] \<Rightarrow> ret None
    | e # es \<Rightarrow> bnd (modify_st (\<lambda>w. w\<lparr>rewake_store := (rewake_store w)[rewake_queue r := es]\<rparr>)) (\<lambda>_. ret (Some e))))"

definition front_clock :: "u32 \<Rightarrow> nat \<Rightarrow> ('f, nat option) ev" where
  "front_clock cpuid i =
    bnd (get_runner cpuid) (\<lambda>r.
    bnd (lift_res (index_at (event_queues r) i)) (\<lambda>q.
    case q of
      [] \<Rightarrow> ret None
    | e # _ \<Rightarrow> bnd (get_event e) (\<lambda>ev. ret (Some (scheduled_clock ev)))))"

subsection \<open>Choosing the next event\<close>

definition promote :: "u32 \<Rightarrow> nat \<Rightarrow> ('f, unit) ev" where
  "promote cpuid i =
    bnd (front_clock cpuid i) (\<lambda>at.
    case at of
      None \<Rightarrow> ret ()
    | Some event_scheduled_at \<Rightarrow>
        bnd (lift_res (u64_add event_scheduled_at PRIORITY_INC_DELAY)) (\<lambda>due.
        bnd (get_runner cpuid) (\<lambda>r.
        if due \<le> clock r
        then bnd (try_pop cpuid i) (\<lambda>event_to_move.
             case event_to_move of
               None \<Rightarrow> ret ()
             | Some e \<Rightarrow>
                 bnd (enqueue cpuid (i - 1) e) (\<lambda>_.
                 bnd (set_event e (\<lambda>ev. ev\<lparr>priority := i - 1\<rparr>)) (\<lambda>_.
                 set_event e (\<lambda>ev. ev\<lparr>scheduled_clock := clock r\<rparr>))))
        else ret ())))"

definition reprioritize :: "u32 \<Rightarrow> ('f, unit) ev" where
  "reprioritize cpuid = for_each [1..<NUM_EVENT_PRIORITIES] (promote cpuid)"

fun pop_first :: "u32 \<Rightarrow> nat list \<Rightarrow> ('f, nat option) ev" where
  "pop_first cpuid [] = ret None"
| "pop_first cpuid (i # is) =
    bnd (try_pop cpuid i) (\<lambda>event. if event \<noteq> None then ret event else pop_first cpuid is)"

definition next_event :: "u32 \<Rightarrow> ('f, nat option) ev" where
  "next_event cpuid =
    bnd (try_pop_rewake cpuid) (\<lambda>rewake.
    if rewake \<noteq> None then ret rewake
    else bnd (reprioritize cpuid) (\<lambda>_. pop_first cpuid [0..<NUM_EVENT_PRIORITIES]))"

subsection \<open>Scheduling\<close>

definition runner_schedule :: "u32 \<Rightarrow> 'f \<Rightarrow> nat \<Rightarrow> u32 \<Rightarrow> ('f, unit) ev" where
  "runner_schedule cpuid fut priority_level p =
    bnd (get_runner cpuid) (\<lambda>r.
    if priority_level \<ge> NUM_EVENT_PRIORITIES then panic
    else bnd (event_init fut (rewake_queue r) priority_level p (clock r)) (\<lambda>e.
    bnd (enqueue cpuid priority_level e) (\<lambda>_.
    bnd (get_event e) (\<lambda>ev.
    set_runner cpuid (\<lambda>r. r\<lparr>pending_events := insert (eid ev) (pending_events r)\<rparr>)))))"

definition schedule_kernel :: "u32 \<Rightarrow> 'f \<Rightarrow> nat \<Rightarrow> ('f, unit) ev" where
  "schedule_kernel cpuid fut priority_level = runner_schedule cpuid fut priority_level 0"

definition schedule_process :: "u32 \<Rightarrow> 'f \<Rightarrow> u32 \<Rightarrow> ('f, unit) ev" where
  "schedule_process cpuid fut p = runner_schedule cpuid fut (NUM_EVENT_PRIORITIES - 1) p"

definition register_event_runner :: "u32 \<Rightarrow> ('f, unit) ev" where
  "register_event_runner cpuid =
    bnd runner_init (\<lambda>r. modify_st (\<lambda>w. w\<lparr>runners := (runners w)(cpuid := Some r)\<rparr>))"

subsection \<open>The running event\<close>

definition current_running_event :: "event_runner \<Rightarrow> nat option" where
  "current_running_event r = current_event r"

definition current_running_event_pid :: "u32 \<Rightarrow> ('f, u32) ev" where
  "current_running_event_pid cpuid =
    bnd (get_runner cpuid) (\<lambda>r.
    case current_running_event r of
      Some e \<Rightarrow> bnd (get_event e) (\<lambda>ev. ret (pid ev))
    | None \<Rightarrow> ret 0)"

definition current_running_event_priority :: "u32 \<Rightarrow> ('f, nat) ev" where
  "current_running_event_priority cpuid =
    bnd (get_runner cpuid) (\<lambda>r.
    case current_running_event r of
      Some e \<Rightarrow> bnd (get_event e) (\<lambda>ev. ret (priority ev))
    | None \<Rightarrow> ret (NUM_EVENT_PRIORITIES - 1))"

record event_info =
  info_priority :: nat
  info_pid :: u32

definition current_running_event_info :: "u32 \<Rightarrow> ('f, event_info) ev" where
  "current_running_event_info cpuid =
    bnd (get_runner cpuid) (\<lambda>r.
    case current_running_event r of
      Some e \<Rightarrow> bnd (get_event e) (\<lambda>ev. ret \<lparr>info_priority = priority ev, info_pid = pid ev\<rparr>)
    | None \<Rightarrow> ret \<lparr>info_priority = NUM_EVENT_PRIORITIES - 1, info_pid = 0\<rparr>)"

subsection \<open>The loop of a core\<close>

text \<open>\<open>have_pending_events\<close> answers whether there are none, and the loop breaks on it.\<close>

definition have_pending_events :: "u32 \<Rightarrow> ('f, bool) ev" where
  "have_pending_events cpuid = bnd (get_runner cpuid) (\<lambda>r. ret (pending_events r = {}))"

definition contains_event :: "u32 \<Rightarrow> u64 \<Rightarrow> ('f, bool) ev" where
  "contains_event cpuid i = bnd (get_runner cpuid) (\<lambda>r. ret (i \<in> pending_events r))"

fun perform :: "'f ev_action \<Rightarrow> ('f, unit) ev" where
  "perform (Wake e) = wake_by_ref e"
| "perform (Schedule cpuid fut prio p) = runner_schedule cpuid fut prio p"

text \<open>\<open>future_guard.as_mut().poll(&mut context)\<close>.\<close>

definition poll_event :: "'f poll_fun \<Rightarrow> nat \<Rightarrow> ('f, bool) ev" where
  "poll_event poll e =
    bnd (get_event e) (\<lambda>ev.
    case poll e (ev_future ev) of (ready, fut, acts) \<Rightarrow>
    bnd (set_event e (\<lambda>ev. ev\<lparr>ev_future := fut\<rparr>)) (\<lambda>_.
    bnd (for_each acts perform) (\<lambda>_. ret ready)))"

definition take_next :: "u32 \<Rightarrow> ('f, nat option) ev" where
  "take_next cpuid =
    bnd (next_event cpuid) (\<lambda>ev.
    bnd (set_runner cpuid (\<lambda>r. r\<lparr>current_event := ev\<rparr>)) (\<lambda>_. ret ev))"

text \<open>The body of the inner loop for the event that was taken, up to resetting \<open>current_event\<close>.\<close>

definition run_event :: "'f poll_fun \<Rightarrow> u32 \<Rightarrow> nat \<Rightarrow> ('f, unit) ev" where
  "run_event poll cpuid e =
    bnd (get_event e) (\<lambda>ev.
    bnd (contains_event cpuid (eid ev)) (\<lambda>c.
    if \<not> c then ret ()
    else bnd (get_runner cpuid) (\<lambda>r.
    bnd (lift_res (u64_add (clock r) 1)) (\<lambda>now.
    bnd (set_runner cpuid (\<lambda>r. r\<lparr>clock := now\<rparr>)) (\<lambda>_.
    bnd (poll_event poll e) (\<lambda>ready.
    if \<not> ready
    then bnd (get_event e) (\<lambda>ev. enqueue cpuid (priority ev) e)
    else set_runner cpuid (\<lambda>r. r\<lparr>pending_events := pending_events r - {eid ev}\<rparr>)))))))"

definition run_iteration :: "'f poll_fun \<Rightarrow> u32 \<Rightarrow> ('f, unit) ev" where
  "run_iteration poll cpuid =
    bnd (take_next cpuid) (\<lambda>next.
    case next of
      None \<Rightarrow> panic
    | Some e \<Rightarrow>
        bnd (run_event poll cpuid e) (\<lambda>_.
        set_runner cpuid (\<lambda>r. r\<lparr>current_event := None\<rparr>)))"

text \<open>One pass of the inner loop of \<open>run_loop\<close>: \<open>False\<close> when it breaks and the core halts until an
  interrupt.\<close>

definition run_loop_pass :: "'f poll_fun \<Rightarrow> u32 \<Rightarrow> ('f, bool) ev" where
  "run_loop_pass poll cpuid =
    bnd (have_pending_events cpuid) (\<lambda>none.
    if none then ret False
    else bnd (run_iteration poll cpuid) (\<lambda>_. ret True))"

text \<open>The event system in operation: a core makes a pass, or code outside the loops (an interrupt handler, the
  initialisation of a core) wakes, schedules or registers.\<close>

inductive ev_step :: "'f poll_fun \<Rightarrow> 'f ev_world \<Rightarrow> 'f ev_world \<Rightarrow> bool" for poll where
  pass: "run_loop_pass poll cpuid w = (Ok b, w') \<Longrightarrow> ev_step poll w w'"
| outside: "perform a w = (Ok (), w') \<Longrightarrow> ev_step poll w w'"
| register: "register_event_runner cpuid w = (Ok (), w') \<Longrightarrow> ev_step poll w w'"

definition ev_boot :: "'f ev_world" where
  "ev_boot = \<lparr>next_id = 0, ev_store = [], rewake_store = [], runners = (\<lambda>_. None)\<rparr>"

inductive ev_reach :: "'f poll_fun \<Rightarrow> 'f ev_world \<Rightarrow> bool" for poll where
  boot: "ev_reach poll ev_boot"
| step: "ev_reach poll w \<Longrightarrow> ev_step poll w w' \<Longrightarrow> ev_reach poll w'"

section \<open>Evaluation\<close>

lemmas ev_eval = bnd_def prog_simps index_at_def get_event_def set_event_def get_runner_def set_runner_def

lemma get_runner_Some: "runners w cpuid = Some r \<Longrightarrow> get_runner cpuid w = (Ok r, w)"
  by (simp add: ev_eval)

lemma get_event_eq: "get_event e w = (if e < length (ev_store w) then Ok (ev_store w ! e) else Panic, w)"
  by (simp add: ev_eval)

lemma enqueue_eq:
  "runners w cpuid = Some r \<Longrightarrow> i < length (event_queues r) \<Longrightarrow>
    enqueue cpuid i e w = (Ok (), w\<lparr>runners := (runners w)(cpuid \<mapsto> r\<lparr>event_queues := (event_queues r)[i := event_queues r ! i @ [e]]\<rparr>)\<rparr>)"
  by (simp add: enqueue_def ev_eval)

lemma try_pop_eq:
  "runners w cpuid = Some r \<Longrightarrow> i < length (event_queues r) \<Longrightarrow>
    try_pop cpuid i w = (case event_queues r ! i of
      [] \<Rightarrow> (Ok None, w)
    | e # es \<Rightarrow> (Ok (Some e), w\<lparr>runners := (runners w)(cpuid \<mapsto> r\<lparr>event_queues := (event_queues r)[i := es]\<rparr>)\<rparr>))"
  by (cases "event_queues r ! i") (simp_all add: try_pop_def ev_eval)

lemma front_clock_eq:
  "runners w cpuid = Some r \<Longrightarrow> i < length (event_queues r) \<Longrightarrow>
    front_clock cpuid i w = (case event_queues r ! i of
      [] \<Rightarrow> Ok None
    | e # es \<Rightarrow> if e < length (ev_store w) then Ok (Some (scheduled_clock (ev_store w ! e))) else Panic, w)"
  by (cases "event_queues r ! i") (simp_all add: front_clock_def ev_eval)

text \<open>What \<open>promote\<close> does to the front of a queue.\<close>

definition promoted :: "u32 \<Rightarrow> nat \<Rightarrow> 'f ev_world \<Rightarrow> event_runner \<Rightarrow> nat \<Rightarrow> nat list \<Rightarrow> 'f ev_world" where
  "promoted cpuid i w r e es = w\<lparr>
     runners := (runners w)(cpuid \<mapsto> r\<lparr>event_queues := (event_queues r)[i := es, i - 1 := event_queues r ! (i - 1) @ [e]]\<rparr>),
     ev_store := (ev_store w)[e := (ev_store w ! e)\<lparr>priority := i - 1, scheduled_clock := clock r\<rparr>]\<rparr>"

lemma promote_eq:
  assumes r: "runners w cpuid = Some r" and i: "0 < i" "i < length (event_queues r)"
  shows "promote cpuid i w = (case event_queues r ! i of
      [] \<Rightarrow> (Ok (), w)
    | e # es \<Rightarrow>
        if e < length (ev_store w) \<and> scheduled_clock (ev_store w ! e) + 5 < 2 ^ 64
        then (Ok (), if scheduled_clock (ev_store w ! e) + 5 \<le> clock r then promoted cpuid i w r e es else w)
        else (Panic, w))"
proof (cases "event_queues r ! i")
  case Nil
  then show ?thesis by (simp add: promote_def bnd_def front_clock_eq [OF r i(2)] prog_simps)
next
  case (Cons e es)
  let ?w1 = "w\<lparr>runners := (runners w)(cpuid \<mapsto> r\<lparr>event_queues := (event_queues r)[i := es]\<rparr>)\<rparr>"
  have "enqueue cpuid (i - 1) e ?w1 = (Ok (), w\<lparr>runners := (runners w)(cpuid \<mapsto> r\<lparr>event_queues := (event_queues r)[i := es, i - 1 := event_queues r ! (i - 1) @ [e]]\<rparr>)\<rparr>)"
    using i by (subst enqueue_eq) auto
  then show ?thesis
    using Cons i r
    by (simp add: promote_def bnd_def front_clock_eq [OF r i(2)] try_pop_eq [OF r i(2)] get_runner_Some [OF r]
        prog_simps u64_add_def PRIORITY_INC_DELAY_def set_event_def promoted_def)
qed

section \<open>Well-formed states\<close>

text \<open>References point into the stores, events have a priority of the table, event \<open>k\<close> has the identifier
  \<open>k\<close>.\<close>

definition refs_ok :: "nat \<Rightarrow> nat list \<Rightarrow> bool" where
  "refs_ok n q \<longleftrightarrow> (\<forall>e \<in> set q. e < n)"

definition runner_ok :: "'f ev_world \<Rightarrow> event_runner \<Rightarrow> bool" where
  "runner_ok w r \<longleftrightarrow> length (event_queues r) = 4 \<and> (\<forall>q \<in> set (event_queues r). refs_ok (length (ev_store w)) q)
     \<and> rewake_queue r < length (rewake_store w)"

definition store_ok :: "'f ev_world \<Rightarrow> bool" where
  "store_ok w \<longleftrightarrow> next_id w = word_of_nat (length (ev_store w))
     \<and> (\<forall>k < length (ev_store w). eid (ev_store w ! k) = word_of_nat k \<and> priority (ev_store w ! k) < 4
          \<and> ev_rewake_queue (ev_store w ! k) < length (rewake_store w))
     \<and> (\<forall>q \<in> set (rewake_store w). refs_ok (length (ev_store w)) q)"

text \<open>Each pending identifier belongs to an event that the runner still holds.\<close>

definition held :: "'f ev_world \<Rightarrow> event_runner \<Rightarrow> nat \<Rightarrow> bool" where
  "held w r e \<longleftrightarrow> (\<exists>q \<in> set (event_queues r). e \<in> set q) \<or> e \<in> set (rewake_store w ! rewake_queue r)
     \<or> current_event r = Some e"

definition covered :: "'f ev_world \<Rightarrow> event_runner \<Rightarrow> bool" where
  "covered w r \<longleftrightarrow> (\<forall>i \<in> pending_events r. \<exists>e < length (ev_store w). eid (ev_store w ! e) = i \<and> held w r e)"

definition ev_inv :: "'f ev_world \<Rightarrow> bool" where
  "ev_inv w \<longleftrightarrow> store_ok w \<and> (\<forall>cpuid r. runners w cpuid = Some r \<longrightarrow> runner_ok w r \<and> covered w r)
     \<and> (\<forall>c d r r'. runners w c = Some r \<longrightarrow> runners w d = Some r' \<longrightarrow> rewake_queue r = rewake_queue r' \<longrightarrow> c = d)"

lemma ev_inv_runner: "ev_inv w \<Longrightarrow> runners w cpuid = Some r \<Longrightarrow> runner_ok w r \<and> covered w r"
  by (simp add: ev_inv_def)

lemma covered_mono:
  assumes "covered w r" "pending_events r' \<subseteq> pending_events r" "length (ev_store w) \<le> length (ev_store w')"
    and "\<And>e. e < length (ev_store w) \<Longrightarrow> eid (ev_store w' ! e) = eid (ev_store w ! e)"
    and "\<And>e. e < length (ev_store w) \<Longrightarrow> eid (ev_store w ! e) \<in> pending_events r' \<Longrightarrow> held w r e \<Longrightarrow> held w' r' e"
  shows "covered w' r'"
  unfolding covered_def
proof
  fix i assume i: "i \<in> pending_events r'"
  then obtain e where "e < length (ev_store w)" "eid (ev_store w ! e) = i" "held w r e"
    using assms(1,2) unfolding covered_def by blast
  then show "\<exists>e < length (ev_store w'). eid (ev_store w' ! e) = i \<and> held w' r' e"
    using assms(3-5) i by (metis less_le_trans)
qed

text \<open>A change of the runner of one core that keeps the stores.\<close>

lemma ev_inv_set_runner:
  assumes "ev_inv w" "runners w cpuid = Some r" "runner_ok w r'" "covered w r'" "rewake_queue r' = rewake_queue r"
  shows "ev_inv (w\<lparr>runners := (runners w)(cpuid \<mapsto> r')\<rparr>)"
proof -
  let ?w = "w\<lparr>runners := (runners w)(cpuid \<mapsto> r')\<rparr>"
  have "store_ok ?w = store_ok w" "runner_ok ?w = runner_ok w" "covered ?w = covered w"
    by (simp_all add: fun_eq_iff store_ok_def runner_ok_def covered_def held_def)
  then show ?thesis using assms unfolding ev_inv_def by (auto split: if_splits)
qed

text \<open>The event each core is running, and the number of events created.\<close>

definition running :: "'f ev_world \<Rightarrow> u32 \<Rightarrow> nat option option" where
  "running w cpuid = map_option current_event (runners w cpuid)"

definition ev_frame :: "(u32 \<Rightarrow> nat option option) \<Rightarrow> nat \<Rightarrow> 'f ev_world \<Rightarrow> bool" where
  "ev_frame C n w \<longleftrightarrow> ev_inv w \<and> running w = C \<and> n \<le> length (ev_store w)"

lemma keeps_get_event [keeps_rules]: "keeps I (get_event e)"
  unfolding get_event_def by (intro keeps_rules)

lemma keeps_get_runner [keeps_rules]: "keeps I (get_runner c)"
  unfolding get_runner_def by (intro keeps_rules)

lemma refs_ok_update:
  "refs_ok n q \<Longrightarrow> \<forall>q \<in> set qs. refs_ok n q \<Longrightarrow> \<forall>x \<in> set (qs[i := q]). refs_ok n x"
  using set_update_subset_insert by fastforce

lemma refs_ok_mono: "refs_ok n q \<Longrightarrow> n \<le> m \<Longrightarrow> refs_ok m q"
  by (auto simp: refs_ok_def)

text \<open>Waking appends to one queue of woken events.\<close>

lemma woken_inv:
  assumes "ev_inv w" "e < length (ev_store w)" "k < length (rewake_store w)"
  shows "ev_inv (w\<lparr>rewake_store := (rewake_store w)[k := rewake_store w ! k @ [e]]\<rparr>)" (is "ev_inv ?w")
proof -
  have q: "refs_ok (length (ev_store w)) (rewake_store w ! k @ [e])"
    using assms by (auto simp: ev_inv_def store_ok_def refs_ok_def)
  have "store_ok ?w"
    using assms(1) refs_ok_update [OF q, of "rewake_store w" k] by (simp add: ev_inv_def store_ok_def)
  moreover have "runner_ok ?w r \<and> covered ?w r" if "runners w c = Some r" for c r
  proof -
    have r: "runner_ok w r" "covered w r" using ev_inv_runner [OF assms(1) that] by auto
    have "covered ?w r"
      using r(1) assms(3)
      by (intro covered_mono [OF r(2)]) (auto simp: held_def runner_ok_def nth_list_update)
    then show ?thesis using r(1) by (simp add: runner_ok_def)
  qed
  ultimately show ?thesis using assms(1) unfolding ev_inv_def by auto
qed

lemma keeps_wake: "keeps (ev_frame C n) (wake_by_ref e)"
  unfolding keeps_def
proof (intro allI impI)
  fix w :: "'f ev_world" assume f: "ev_frame C n w"
  show "ev_frame C n (snd (wake_by_ref e w))"
  proof (cases "e < length (ev_store w)")
    case True
    then have "ev_rewake_queue (ev_store w ! e) < length (rewake_store w)"
      using f by (simp add: ev_frame_def ev_inv_def store_ok_def)
    then show ?thesis
      using f woken_inv [OF _ True] True
      by (auto simp: ev_frame_def running_def fun_eq_iff wake_by_ref_def bnd_def get_event_eq prog_simps)
  qed (use f in \<open>simp add: wake_by_ref_def bnd_def get_event_eq\<close>)
qed

text \<open>Scheduling appends an event to the store and to one queue.\<close>

definition scheduled :: "u32 \<Rightarrow> 'f \<Rightarrow> nat \<Rightarrow> u32 \<Rightarrow> event_runner \<Rightarrow> 'f ev_world \<Rightarrow> 'f ev_world" where
  "scheduled cpuid fut prio p r w = w\<lparr>
     next_id := next_id w + 1,
     ev_store := ev_store w @ [\<lparr>eid = next_id w, pid = p, ev_future = fut, ev_rewake_queue = rewake_queue r,
       priority = prio, scheduled_clock = clock r\<rparr>],
     runners := (runners w)(cpuid \<mapsto> r\<lparr>event_queues := (event_queues r)[prio := event_queues r ! prio @ [length (ev_store w)]],
       pending_events := insert (next_id w) (pending_events r)\<rparr>)\<rparr>"

lemma runner_schedule_eq:
  assumes "runners w cpuid = Some r" "length (event_queues r) = 4"
  shows "runner_schedule cpuid fut prio p w = (if prio < 4 then (Ok (), scheduled cpuid fut prio p r w) else (Panic, w))"
proof (cases "prio < 4")
  case True
  let ?w1 = "w\<lparr>next_id := next_id w + 1, ev_store := ev_store w @ [\<lparr>eid = next_id w, pid = p, ev_future = fut,
     ev_rewake_queue = rewake_queue r, priority = prio, scheduled_clock = clock r\<rparr>]\<rparr>"
  have e: "event_init fut (rewake_queue r) prio p (clock r) w = (Ok (length (ev_store w)), ?w1)"
    by (simp add: event_init_def eventid_init_def bnd_def prog_simps)
  have "enqueue cpuid prio (length (ev_store w)) ?w1 = (Ok (), ?w1\<lparr>runners := (runners w)(cpuid \<mapsto>
      r\<lparr>event_queues := (event_queues r)[prio := event_queues r ! prio @ [length (ev_store w)]]\<rparr>)\<rparr>)"
    using assms True enqueue_eq [of ?w1 cpuid r prio "length (ev_store w)"] by simp
  then show ?thesis
    using True e by (simp add: runner_schedule_def bnd_def get_runner_Some [OF assms(1)] NUM_EVENT_PRIORITIES_def
      get_event_eq set_runner_def prog_simps scheduled_def)
qed (simp add: runner_schedule_def bnd_def get_runner_Some [OF assms(1)] NUM_EVENT_PRIORITIES_def prog_simps)

lemma in_queues_append:
  "\<exists>q \<in> set qs. e \<in> set q \<Longrightarrow> \<exists>q \<in> set (qs[i := qs ! i @ xs]). e \<in> set q"
proof -
  assume "\<exists>q \<in> set qs. e \<in> set q"
  then obtain j where j: "j < length qs" "e \<in> set (qs ! j)" by (metis in_set_conv_nth)
  then have "e \<in> set (qs[i := qs ! i @ xs] ! j)" by (cases "i = j") auto
  then show ?thesis using j(1) by (metis length_list_update nth_mem)
qed

lemma scheduled_inv:
  assumes "ev_inv w" "runners w cpuid = Some r" "prio < 4"
  shows "ev_inv (scheduled cpuid fut prio p r w)"
proof -
  let ?n = "length (ev_store w)" and ?w = "scheduled cpuid fut prio p r w"
  let ?qs = "(event_queues r)[prio := event_queues r ! prio @ [?n]]"
  let ?r = "r\<lparr>event_queues := ?qs, pending_events := insert (next_id w) (pending_events r)\<rparr>"
  have r: "runner_ok w r" "covered w r" using ev_inv_runner [OF assms(1,2)] by auto
  have l: "length (event_queues r) = 4" and rq: "rewake_queue r < length (rewake_store w)"
    using r(1) by (simp_all add: runner_ok_def)
  have ref: "refs_ok (Suc ?n) q" if "refs_ok ?n q" for q using refs_ok_mono [OF that] by simp
  have "store_ok ?w"
    using assms(1,3) rq ref by (auto simp: ev_inv_def store_ok_def scheduled_def nth_append less_Suc_eq)
  moreover have "runner_ok ?w r' \<and> covered ?w r'" if "runners w c = Some r'" "c \<noteq> cpuid" for c r'
  proof -
    have r': "runner_ok w r'" "covered w r'" using ev_inv_runner [OF assms(1) that(1)] by auto
    have "covered ?w r'"
      by (intro covered_mono [OF r'(2)]) (auto simp: held_def scheduled_def nth_append)
    then show ?thesis using r'(1) ref by (auto simp: runner_ok_def scheduled_def)
  qed
  moreover have "runner_ok ?w ?r"
  proof -
    have "refs_ok (Suc ?n) (event_queues r ! prio @ [?n])"
      using r(1) assms(3) l by (force simp: runner_ok_def refs_ok_def)
    moreover have "\<forall>q \<in> set (event_queues r). refs_ok (Suc ?n) q" using r(1) ref by (simp add: runner_ok_def)
    ultimately have "\<forall>q \<in> set ?qs. refs_ok (Suc ?n) q" by (rule refs_ok_update)
    then show ?thesis using l rq by (simp add: runner_ok_def scheduled_def)
  qed
  moreover have "covered ?w ?r"
  proof -
    have "covered ?w (?r\<lparr>pending_events := pending_events r\<rparr>)"
      using in_queues_append [of "event_queues r" _ prio "[?n]"]
      by (intro covered_mono [OF r(2)]) (auto simp: held_def scheduled_def nth_append)
    moreover have "held ?w ?r ?n"
      using l assms(3) by (auto simp: held_def intro!: bexI [OF _ set_update_memI])
    ultimately show ?thesis by (auto simp: covered_def held_def scheduled_def)
  qed
  ultimately show ?thesis
    using assms(1,2) unfolding ev_inv_def by (auto simp: scheduled_def split: if_splits)
qed

lemma keeps_schedule:
  fixes fut :: 'f
  shows "keeps (ev_frame C n) (runner_schedule cpuid fut prio p)"
  unfolding keeps_def
proof (intro allI impI)
  fix w :: "'f ev_world" assume f: "ev_frame C n w"
  show "ev_frame C n (snd (runner_schedule cpuid fut prio p w))"
  proof (cases "runners w cpuid")
    case None
    then show ?thesis using f by (simp add: runner_schedule_def ev_eval)
  next
    case (Some r)
    then have l: "length (event_queues r) = 4"
      using f ev_inv_runner [of w cpuid r] by (simp add: ev_frame_def runner_ok_def)
    have "running (scheduled cpuid fut prio p r w) = running w" "length (ev_store w) \<le> length (ev_store (scheduled cpuid fut prio p r w))"
      using Some by (auto simp: running_def scheduled_def fun_eq_iff)
    then show ?thesis
      using f scheduled_inv [OF _ Some] by (auto simp: ev_frame_def runner_schedule_eq [OF Some l])
  qed
qed

lemma keeps_perform: "keeps (ev_frame C n) (perform a)"
  by (cases a) (simp_all add: keeps_wake keeps_schedule)

lemma registered_inv:
  assumes "ev_inv w" "register_event_runner cpuid w = (Ok (), w')"
  shows "ev_inv w'"
proof -
  let ?r = "\<lparr>event_queues = replicate 4 [], rewake_queue = length (rewake_store w), pending_events = {},
    current_event = None, clock = 0\<rparr>"
  have w': "w' = w\<lparr>rewake_store := rewake_store w @ [[]], runners := (runners w)(cpuid \<mapsto> ?r)\<rparr>"
    using assms(2) by (auto simp: register_event_runner_def runner_init_def ev_eval NUM_EVENT_PRIORITIES_def)
  have "store_ok w'" using assms(1) unfolding ev_inv_def store_ok_def w' by (auto simp: refs_ok_def less_Suc_eq)
  moreover have "runner_ok w' r \<and> covered w' r \<and> rewake_queue r < length (rewake_store w)" if "runners w c = Some r" for c r
  proof -
    have r: "runner_ok w r" "covered w r" using ev_inv_runner [OF assms(1) that] by auto
    then show ?thesis by (auto simp: runner_ok_def w' covered_def held_def nth_append)
  qed
  moreover have "runner_ok w' ?r" "covered w' ?r" by (simp_all add: runner_ok_def covered_def w' refs_ok_def)
  ultimately show ?thesis
    using assms(1) unfolding ev_inv_def w' by (fastforce split: if_splits)
qed

text \<open>Moving the front of a queue one level up.\<close>

lemma promoted_inv:
  assumes inv: "ev_inv w" and r: "runners w cpuid = Some r" and i: "0 < i" "i < 4" and q: "event_queues r ! i = e # es"
  shows "ev_inv (promoted cpuid i w r e es)"
proof -
  let ?n = "length (ev_store w)" and ?w = "promoted cpuid i w r e es"
  let ?qs = "(event_queues r)[i := es, i - 1 := event_queues r ! (i - 1) @ [e]]"
  let ?r = "r\<lparr>event_queues := ?qs\<rparr>"
  have ok: "runner_ok w r" "covered w r" using ev_inv_runner [OF inv r] by auto
  have l: "length (event_queues r) = 4" using ok(1) by (simp add: runner_ok_def)
  have refs: "\<forall>q \<in> set (event_queues r). refs_ok ?n q" using ok(1) by (simp add: runner_ok_def)
  have e: "refs_ok ?n (e # es)" "refs_ok ?n (event_queues r ! (i - 1))" using refs q i l by (metis nth_mem, simp)
  have eids: "eid (ev_store ?w ! k) = eid (ev_store w ! k)" for k
    by (cases "e < ?n"; cases "k = e") (simp_all add: promoted_def not_less list_update_beyond)
  have "e < ?n" using e(1) by (simp add: refs_ok_def)
  then have "store_ok ?w"
    using inv i by (auto simp: ev_inv_def store_ok_def promoted_def nth_list_update)
  moreover have "runner_ok ?w r' \<and> covered ?w r'" if "runners w c = Some r'" for c r'
  proof -
    have r': "runner_ok w r'" "covered w r'" using ev_inv_runner [OF inv that(1)] by auto
    have "covered ?w r'"
      using eids by (intro covered_mono [OF r'(2)]) (auto simp: held_def promoted_def)
    then show ?thesis using r'(1) by (auto simp: runner_ok_def promoted_def)
  qed
  moreover have "runner_ok ?w ?r"
  proof -
    have "refs_ok ?n es" "refs_ok ?n (event_queues r ! (i - 1) @ [e])" using e by (auto simp: refs_ok_def)
    then have "\<forall>q \<in> set ?qs. refs_ok ?n q" using refs by (intro refs_ok_update)
    then show ?thesis using ok(1) l by (simp add: runner_ok_def promoted_def)
  qed
  moreover have "covered ?w ?r"
  proof (intro covered_mono [OF ok(2)])
    fix k assume "held w r k"
    moreover have "\<exists>q \<in> set ?qs. k \<in> set q" if h: "\<exists>q \<in> set (event_queues r). k \<in> set q"
    proof -
      obtain j where j: "j < 4" "k \<in> set (event_queues r ! j)" using h l by (metis in_set_conv_nth)
      show ?thesis
      proof (cases "k = e")
        case True
        then have "k \<in> set (?qs ! (i - 1))" "i - 1 < length ?qs" using i l by simp_all
        then show ?thesis by (metis nth_mem)
      next
        case False
        then have "k \<in> set (?qs ! j)" using j q i l by (auto simp: nth_list_update)
        then show ?thesis using j(1) l by (metis length_list_update nth_mem)
      qed
    qed
    ultimately show "held ?w ?r k" by (auto simp: held_def promoted_def)
  qed (simp_all add: eids, simp add: promoted_def)
  ultimately show ?thesis
    using inv r unfolding ev_inv_def by (auto simp: promoted_def split: if_splits)
qed

lemma keeps_promote:
  assumes "0 < i" "i < 4"
  shows "keeps (ev_frame C n) (promote cpuid i)"
  unfolding keeps_def
proof (intro allI impI)
  fix w :: "'f ev_world" assume f: "ev_frame C n w"
  show "ev_frame C n (snd (promote cpuid i w))"
  proof (cases "runners w cpuid")
    case None
    then show ?thesis using f by (simp add: promote_def front_clock_def ev_eval)
  next
    case (Some r)
    then have l: "length (event_queues r) = 4"
      using f ev_inv_runner [of w cpuid r] by (simp add: ev_frame_def runner_ok_def)
    have "running (promoted cpuid i w r e es) = running w" for e es
      using Some by (auto simp: running_def promoted_def fun_eq_iff)
    then show ?thesis
      using f promoted_inv [OF _ Some assms] l assms
      by (auto simp: ev_frame_def promote_eq [OF Some] promoted_def split: list.splits)
  qed
qed

lemma keeps_reprioritize: "keeps (ev_frame C n) (reprioritize cpuid)"
proof -
  have "keeps (ev_frame C n) (for_each xs (promote cpuid))" if "set xs \<subseteq> {1..<4}" for xs
    using that by (induction xs) (auto intro!: keeps_rules keeps_promote)
  from this [of "[1..<4]"] show ?thesis by (simp add: reprioritize_def NUM_EVENT_PRIORITIES_def)
qed

subsection \<open>Taking the next event\<close>

lemma pop_first_eq:
  assumes "runners w cpuid = Some r" "length (event_queues r) = 4" "set is \<subseteq> {..<4}"
  shows "pop_first cpuid is w = (case find (\<lambda>i. event_queues r ! i \<noteq> []) is of
      None \<Rightarrow> (Ok None, w)
    | Some i \<Rightarrow> (Ok (Some (hd (event_queues r ! i))),
        w\<lparr>runners := (runners w)(cpuid \<mapsto> r\<lparr>event_queues := (event_queues r)[i := tl (event_queues r ! i)]\<rparr>)\<rparr>))"
  using assms(3)
proof (induction "is")
  case (Cons i "is")
  then show ?case
    using assms(2) by (cases "event_queues r ! i") (simp_all add: bnd_def try_pop_eq [OF assms(1)] ret_apply)
qed (simp add: ret_apply)

lemma try_pop_rewake_eq:
  assumes "runners w cpuid = Some r"
  shows "try_pop_rewake cpuid w = (case rewake_store w ! rewake_queue r of
      [] \<Rightarrow> (Ok None, w)
    | e # es \<Rightarrow> (Ok (Some e), w\<lparr>rewake_store := (rewake_store w)[rewake_queue r := es]\<rparr>))"
  using assms by (cases "rewake_store w ! rewake_queue r") (simp_all add: try_pop_rewake_def ev_eval)

text \<open>The popped event becomes the current one, so it stays held.\<close>

lemma popped_inv:
  assumes inv: "ev_inv w" and r: "runners w cpuid = Some r" "current_event r = None" and i: "i < 4" and q: "event_queues r ! i = e # es"
  shows "ev_inv (w\<lparr>runners := (runners w)(cpuid \<mapsto> r\<lparr>event_queues := (event_queues r)[i := es], current_event := Some e\<rparr>)\<rparr>)"
    and "e < length (ev_store w)"
proof -
  have ok: "runner_ok w r" "covered w r" using ev_inv_runner [OF inv r(1)] by auto
  then have l: "length (event_queues r) = 4" by (simp add: runner_ok_def)
  have mem: "e # es \<in> set (event_queues r)" using i q l by (metis nth_mem)
  then have e: "refs_ok (length (ev_store w)) (e # es)" using ok(1) by (simp add: runner_ok_def)
  then show "e < length (ev_store w)" by (simp add: refs_ok_def)
  let ?qs = "(event_queues r)[i := es]" let ?r = "r\<lparr>event_queues := ?qs, current_event := Some e\<rparr>"
  have "\<forall>q \<in> set ?qs. refs_ok (length (ev_store w)) q"
    using e ok(1) by (intro refs_ok_update) (auto simp: refs_ok_def runner_ok_def)
  then have "runner_ok w ?r" using ok(1) by (simp add: runner_ok_def)
  moreover have "covered w ?r"
  proof (intro covered_mono [OF ok(2)])
    fix k assume h: "held w r k"
    show "held w ?r k"
    proof (cases "k = e \<or> k \<in> set (rewake_store w ! rewake_queue r)")
      case False
      then obtain j where j: "j < 4" "k \<in> set (event_queues r ! j)"
        using h r(2) l unfolding held_def by (metis in_set_conv_nth option.distinct(1))
      then have "k \<in> set (?qs ! j)" using False q l by (cases "j = i") auto
      then have "\<exists>q \<in> set ?qs. k \<in> set q" using j(1) l by (metis length_list_update nth_mem)
      then show ?thesis by (simp add: held_def)
    qed (auto simp: held_def)
  qed simp_all
  ultimately show "ev_inv (w\<lparr>runners := (runners w)(cpuid \<mapsto> ?r)\<rparr>)"
    using ev_inv_set_runner [OF inv r(1)] by simp
qed

lemma popped_rewake_inv:
  assumes inv: "ev_inv w" and r: "runners w cpuid = Some r" "current_event r = None"
    and q: "rewake_store w ! rewake_queue r = e # es"
  shows "ev_inv (w\<lparr>rewake_store := (rewake_store w)[rewake_queue r := es], runners := (runners w)(cpuid \<mapsto> r\<lparr>current_event := Some e\<rparr>)\<rparr>)"
    (is "ev_inv ?w") and "e < length (ev_store w)"
proof -
  let ?k = "rewake_queue r" and ?n = "length (ev_store w)" and ?r = "r\<lparr>current_event := Some e\<rparr>"
  have ok: "runner_ok w r" "covered w r" using ev_inv_runner [OF inv r(1)] by auto
  then have k: "?k < length (rewake_store w)" by (simp add: runner_ok_def)
  have refs: "\<forall>q \<in> set (rewake_store w). refs_ok ?n q" using inv by (simp add: ev_inv_def store_ok_def)
  then have e: "refs_ok ?n (e # es)" using q k by (metis nth_mem)
  then show "e < ?n" by (simp add: refs_ok_def)
  have "\<forall>q \<in> set ((rewake_store w)[?k := es]). refs_ok ?n q"
    using e refs by (intro refs_ok_update) (auto simp: refs_ok_def)
  then have "store_ok ?w" using inv by (simp add: ev_inv_def store_ok_def)
  moreover have "runner_ok ?w r' \<and> covered ?w r'" if "runners w c = Some r'" "c \<noteq> cpuid" for c r'
  proof -
    have r': "runner_ok w r'" "covered w r'" using ev_inv_runner [OF inv that(1)] by auto
    have "rewake_queue r' \<noteq> ?k" using inv that r(1) unfolding ev_inv_def by blast
    then have "covered ?w r'" by (intro covered_mono [OF r'(2)]) (auto simp: held_def)
    then show ?thesis using r'(1) by (simp add: runner_ok_def)
  qed
  moreover have "covered ?w ?r"
    using q k r(2) by (intro covered_mono [OF ok(2)]) (auto simp: held_def)
  moreover have "runner_ok ?w ?r" using ok(1) by (simp add: runner_ok_def)
  ultimately show "ev_inv ?w" using inv r(1) unfolding ev_inv_def by (auto split: if_splits)
qed

lemma take_next_inv:
  assumes f: "ev_frame C n w" "C cpuid = Some None" and t: "take_next cpuid w = (Ok x, w')"
  shows "case x of None \<Rightarrow> ev_frame C n w'
    | Some e \<Rightarrow> ev_frame (C(cpuid := Some (Some e))) n w' \<and> e < length (ev_store w')"
proof -
  have run: "\<exists>r. runners w cpuid = Some r \<and> current_event r = None" if "ev_frame C n w" for w :: "'a ev_world"
  proof -
    have "running w cpuid = Some None" using that f(2) by (auto simp: ev_frame_def)
    then show ?thesis by (auto simp: running_def)
  qed
  obtain r where r: "runners w cpuid = Some r" "current_event r = None" using run [OF f(1)] by blast
  show ?thesis
  proof (cases "rewake_store w ! rewake_queue r")
    case (Cons e es)
    have "x = Some e" and w': "w' = w\<lparr>rewake_store := (rewake_store w)[rewake_queue r := es], runners := (runners w)(cpuid \<mapsto> r\<lparr>current_event := Some e\<rparr>)\<rparr>"
      using t r(1) Cons
      by (auto simp: take_next_def next_event_def bnd_def try_pop_rewake_eq [OF r(1)] prog_simps set_runner_def)
    moreover have "running w' = C(cpuid := Some (Some e))" using f by (auto simp: ev_frame_def running_def w' fun_eq_iff)
    ultimately show ?thesis
      using f popped_rewake_inv [OF _ r Cons] by (simp add: ev_frame_def)
  next
    case Nil
    then obtain w1 where w1: "reprioritize cpuid w = (Ok (), w1)"
      and rest: "bnd (pop_first cpuid [0..<4]) (\<lambda>ev. bnd (set_runner cpuid (\<lambda>r. r\<lparr>current_event := ev\<rparr>)) (\<lambda>_. ret ev)) w1 = (Ok x, w')"
      using t by (auto simp: take_next_def next_event_def bnd_def try_pop_rewake_eq [OF r(1)] prog_simps NUM_EVENT_PRIORITIES_def
          split: prod.splits res.splits if_splits)
    have f1: "ev_frame C n w1" using keepsD [OF keeps_reprioritize f(1) w1] .
    obtain r1 where r1: "runners w1 cpuid = Some r1" "current_event r1 = None" using run [OF f1] by blast
    have l: "length (event_queues r1) = 4" using f1 ev_inv_runner [OF _ r1(1)] by (simp add: ev_frame_def runner_ok_def)
    have "set [0..<4] \<subseteq> {..<4 :: nat}" by auto
    note pf = pop_first_eq [OF r1(1) l this]
    show ?thesis
    proof (cases "find (\<lambda>i. event_queues r1 ! i \<noteq> []) [0..<4]")
      case None
      then have "x = None" and w': "w' = w1\<lparr>runners := (runners w1)(cpuid \<mapsto> r1\<lparr>current_event := None\<rparr>)\<rparr>"
        using rest pf r1 by (auto simp: bnd_def prog_simps set_runner_def)
      moreover have "w' = w1" using r1 by (simp add: w' fun_upd_idem)
      ultimately show ?thesis using f1 by simp
    next
      case (Some i)
      then obtain e es where i: "i < 4" "event_queues r1 ! i = e # es"
        by (auto simp: find_Some_iff neq_Nil_conv)
      have "x = Some e" and w': "w' = w1\<lparr>runners := (runners w1)(cpuid \<mapsto> r1\<lparr>event_queues := (event_queues r1)[i := es], current_event := Some e\<rparr>)\<rparr>"
        using rest pf r1 Some i(2) by (auto simp: bnd_def prog_simps set_runner_def)
      moreover have "running w' = C(cpuid := Some (Some e))" using f1 by (auto simp: ev_frame_def running_def w' fun_eq_iff)
      ultimately show ?thesis
        using f1 popped_inv [OF _ r1 i] by (simp add: ev_frame_def)
    qed
  qed
qed

subsection \<open>Running an event\<close>

lemma ev_frame_set_runner:
  assumes "ev_frame C n w" "runners w cpuid = Some r" "runner_ok w r'" "covered w r'" "rewake_queue r' = rewake_queue r"
    and "current_event r' = current_event r"
  shows "ev_frame C n (w\<lparr>runners := (runners w)(cpuid \<mapsto> r')\<rparr>)"
proof -
  have "running (w\<lparr>runners := (runners w)(cpuid \<mapsto> r')\<rparr>) = running w"
    using assms(2,6) by (auto simp: running_def fun_eq_iff)
  then show ?thesis using assms(1) ev_inv_set_runner [OF _ assms(2-5)] by (simp add: ev_frame_def)
qed

lemma keeps_set_future:
  fixes fut :: 'f
  shows "keeps (ev_frame C n) (set_event e (\<lambda>ev. ev\<lparr>ev_future := fut\<rparr>))"
  unfolding set_event_def
proof (rule keeps_modify)
  fix w :: "'f ev_world" assume f: "ev_frame C n w"
  let ?w = "w\<lparr>ev_store := (ev_store w)[e := (ev_store w ! e)\<lparr>ev_future := fut\<rparr>]\<rparr>"
  have same: "eid (ev_store ?w ! k) = eid (ev_store w ! k) \<and> priority (ev_store ?w ! k) = priority (ev_store w ! k)
      \<and> ev_rewake_queue (ev_store ?w ! k) = ev_rewake_queue (ev_store w ! k)" for k
    by (cases "e < length (ev_store w)"; cases "k = e") (simp_all add: not_less list_update_beyond)
  have "store_ok ?w" using f same by (simp add: ev_frame_def ev_inv_def store_ok_def)
  moreover have "runner_ok ?w r \<and> covered ?w r" if "runners w c = Some r" for c r
  proof -
    have r: "runner_ok w r" "covered w r" using f ev_inv_runner [OF _ that] by (auto simp: ev_frame_def)
    have "covered ?w r" using same by (intro covered_mono [OF r(2)]) (auto simp: held_def)
    then show ?thesis using r(1) by (simp add: runner_ok_def)
  qed
  ultimately show "ev_frame C n ?w"
    using f unfolding ev_frame_def ev_inv_def running_def by simp
qed

lemma keeps_poll_event: "keeps (ev_frame C n) (poll_event poll e)"
  unfolding poll_event_def by (intro keeps_rules keeps_set_future keeps_perform)

lemma keeps_clock: "keeps (ev_frame C n) (set_runner cpuid (\<lambda>r. r\<lparr>clock := t\<rparr>))"
  unfolding set_runner_def
proof (rule keeps_modify)
  fix w :: "'f ev_world" assume f: "ev_frame C n w"
  show "ev_frame C n (w\<lparr>runners := (runners w)(cpuid := map_option (\<lambda>r. r\<lparr>clock := t\<rparr>) (runners w cpuid))\<rparr>)"
  proof (cases "runners w cpuid")
    case None
    then have "(runners w)(cpuid := None) = runners w" by (rule fun_upd_idem)
    then show ?thesis using f None by simp
  next
    case (Some r)
    have "runner_ok w (r\<lparr>clock := t\<rparr>)" "covered w (r\<lparr>clock := t\<rparr>)"
      using f ev_inv_runner [OF _ Some] by (auto simp: ev_frame_def runner_ok_def covered_def held_def)
    then show ?thesis using ev_frame_set_runner [OF f Some] Some by simp
  qed
qed

lemma run_event_eq:
  assumes "runners w cpuid = Some r" "e < length (ev_store w)"
  shows "run_event poll cpuid e w =
    (if eid (ev_store w ! e) \<notin> pending_events r then (Ok (), w)
     else if clock r + 1 < 2 ^ 64 then
       bnd (poll_event poll e) (\<lambda>ready.
         if \<not> ready then bnd (get_event e) (\<lambda>ev. enqueue cpuid (priority ev) e)
         else set_runner cpuid (\<lambda>r. r\<lparr>pending_events := pending_events r - {eid (ev_store w ! e)}\<rparr>))
       (w\<lparr>runners := (runners w)(cpuid \<mapsto> r\<lparr>clock := clock r + 1\<rparr>)\<rparr>)
     else (Panic, w))"
proof -
  have g: "get_event e w = (Ok (ev_store w ! e), w)" using assms(2) by (simp add: get_event_eq)
  have c: "contains_event cpuid i w = (Ok (i \<in> pending_events r), w)" for i
    by (simp add: contains_event_def bnd_def get_runner_Some [OF assms(1)] ret_apply)
  have s: "set_runner cpuid (\<lambda>r. r\<lparr>clock := t\<rparr>) w = (Ok (), w\<lparr>runners := (runners w)(cpuid \<mapsto> r\<lparr>clock := t\<rparr>)\<rparr>)" for t
    using assms(1) by (simp add: set_runner_def modify_st_apply)
  show ?thesis
    unfolding run_event_def
    by (simp add: bnd_def g c s get_runner_Some [OF assms(1)] ret_apply u64_add_def lift_res_apply)
qed

text \<open>The event that ran is queued again or no longer pending.\<close>

lemma run_event_inv:
  assumes f: "ev_frame C n w" and e: "C cpuid = Some (Some e)" "e < n"
    and run: "run_event poll cpuid e w = (Ok (), w')"
  shows "ev_frame C n w'" and "runners w' cpuid = Some r \<Longrightarrow> eid (ev_store w' ! e) \<in> pending_events r
    \<Longrightarrow> \<exists>q \<in> set (event_queues r). e \<in> set q"
proof -
  have ids: "eid (ev_store w ! e) = word_of_nat e" if "ev_frame C n w" for w :: "'a ev_world"
    using that e(2) by (simp add: ev_frame_def ev_inv_def store_ok_def)
  have "\<exists>r. runners w cpuid = Some r \<and> length (event_queues r) = 4" if "ev_frame C n w" for w :: "'a ev_world"
  proof -
    have "running w cpuid = Some (Some e)" using that e(1) by (auto simp: ev_frame_def)
    then obtain r where "runners w cpuid = Some r" by (auto simp: running_def)
    then show ?thesis using that ev_inv_runner [of w cpuid r] by (auto simp: ev_frame_def runner_ok_def)
  qed
  note rn = this
  obtain r0 where r0: "runners w cpuid = Some r0" using rn [OF f] by blast
  have en: "e < length (ev_store w)" using f e(2) by (simp add: ev_frame_def)
  have "ev_frame C n w' \<and> (\<forall>r. runners w' cpuid = Some r \<longrightarrow> eid (ev_store w' ! e) \<in> pending_events r
    \<longrightarrow> (\<exists>q \<in> set (event_queues r). e \<in> set q))"
  proof (cases "eid (ev_store w ! e) \<in> pending_events r0")
    case False
    then have "w' = w" using run run_event_eq [OF r0 en] by simp
    then show ?thesis using f r0 False by simp
  next
    case True
    let ?w1 = "w\<lparr>runners := (runners w)(cpuid \<mapsto> r0\<lparr>clock := clock r0 + 1\<rparr>)\<rparr>"
    obtain ready w2 where w2: "poll_event poll e ?w1 = (Ok ready, w2)"
      and rest: "(if \<not> ready then bnd (get_event e) (\<lambda>ev. enqueue cpuid (priority ev) e)
        else set_runner cpuid (\<lambda>r. r\<lparr>pending_events := pending_events r - {word_of_nat e}\<rparr>)) w2 = (Ok (), w')"
      using run True ids [OF f] unfolding run_event_eq [OF r0 en] by (auto simp: bnd_Ok_iff split: if_splits)
    have "ev_frame C n ?w1" using keepsD [OF keeps_clock f, of cpuid "clock r0 + 1"] r0 by (simp add: set_runner_def prog_simps)
    then have f2: "ev_frame C n w2" using keepsD [OF keeps_poll_event _ w2] by blast
    obtain r2 where r2: "runners w2 cpuid = Some r2" "length (event_queues r2) = 4" using rn [OF f2] by blast
    have ok2: "runner_ok w2 r2" "covered w2 r2" using f2 ev_inv_runner [OF _ r2(1)] by (auto simp: ev_frame_def)
    have en2: "e < length (ev_store w2)" "priority (ev_store w2 ! e) < 4"
      using f2 e(2) by (auto simp: ev_frame_def ev_inv_def store_ok_def)
    show ?thesis
    proof (cases ready)
      case True
      let ?r = "r2\<lparr>pending_events := pending_events r2 - {word_of_nat e}\<rparr>"
      have w': "w' = w2\<lparr>runners := (runners w2)(cpuid \<mapsto> ?r)\<rparr>"
        using rest True r2(1) by (simp add: set_runner_def prog_simps)
      have "runner_ok w2 ?r" using ok2(1) by (simp add: runner_ok_def)
      moreover have "covered w2 ?r" by (intro covered_mono [OF ok2(2)]) (auto simp: held_def)
      ultimately have "ev_frame C n w'"
        using ev_frame_set_runner [OF f2 r2(1)] unfolding w' by simp
      then show ?thesis using ids [of w'] by (auto simp: w')
    next
      case False
      let ?p = "priority (ev_store w2 ! e)"
      let ?r = "r2\<lparr>event_queues := (event_queues r2)[?p := event_queues r2 ! ?p @ [e]]\<rparr>"
      have w': "w' = w2\<lparr>runners := (runners w2)(cpuid \<mapsto> ?r)\<rparr>"
        using rest False r2 en2 enqueue_eq [OF r2(1), of ?p e] by (simp add: bnd_def get_event_eq)
      have refs: "\<forall>q \<in> set (event_queues r2). refs_ok (length (ev_store w2)) q" using ok2(1) by (simp add: runner_ok_def)
      have "refs_ok (length (ev_store w2)) (event_queues r2 ! ?p @ [e])"
        using refs en2 r2(2) by (force simp: refs_ok_def)
      from refs_ok_update [OF this refs, of ?p] have "runner_ok w2 ?r" using ok2(1) by (simp add: runner_ok_def)
      moreover have "covered w2 ?r"
        using in_queues_append [of "event_queues r2" _ ?p "[e]"] by (intro covered_mono [OF ok2(2)]) (auto simp: held_def)
      ultimately have "ev_frame C n w'"
        using ev_frame_set_runner [OF f2 r2(1)] unfolding w' by simp
      moreover have "\<exists>q \<in> set (event_queues ?r). e \<in> set q"
        using en2(2) r2(2) by (auto intro!: bexI [OF _ set_update_memI])
      ultimately show ?thesis by (auto simp: w')
    qed
  qed
  then show "ev_frame C n w'" "runners w' cpuid = Some r \<Longrightarrow> eid (ev_store w' ! e) \<in> pending_events r
    \<Longrightarrow> \<exists>q \<in> set (event_queues r). e \<in> set q" by blast+
qed

section \<open>The loop\<close>

lemma run_iteration_inv:
  assumes f: "ev_frame C n w" "C cpuid = Some None" and run: "run_iteration poll cpuid w = (Ok (), w')"
  shows "ev_frame C n w'"
proof -
  obtain x w1 where t: "take_next cpuid w = (Ok x, w1)"
    and rest: "(case x of None \<Rightarrow> panic | Some e \<Rightarrow> bnd (run_event poll cpuid e)
      (\<lambda>_. set_runner cpuid (\<lambda>r. r\<lparr>current_event := None\<rparr>))) w1 = (Ok (), w')"
    using run unfolding run_iteration_def bnd_Ok_iff by blast
  then obtain e where e: "x = Some e" by (cases x) (auto simp: panic_apply)
  let ?C = "C(cpuid := Some (Some e))" and ?n = "max n (Suc e)"
  have f1: "ev_frame ?C ?n w1" using take_next_inv [OF f t] e by (auto simp: ev_frame_def)
  obtain w2 where w2: "run_event poll cpuid e w1 = (Ok (), w2)"
    and w': "set_runner cpuid (\<lambda>r. r\<lparr>current_event := None\<rparr>) w2 = (Ok (), w')"
    using rest e by (auto simp: bnd_Ok_iff)
  have f2: "ev_frame ?C ?n w2" using run_event_inv(1) [OF f1 _ _ w2] by simp
  have "running w2 cpuid = Some (Some e)" using f2 by (simp add: ev_frame_def)
  then obtain r where r: "runners w2 cpuid = Some r" "current_event r = Some e" by (auto simp: running_def)
  let ?r = "r\<lparr>current_event := None\<rparr>"
  have w'_eq: "w' = w2\<lparr>runners := (runners w2)(cpuid \<mapsto> ?r)\<rparr>"
    using w' r(1) by (simp add: set_runner_def modify_st_apply)
  have ok: "runner_ok w2 r" "covered w2 r" using f2 ev_inv_runner [OF _ r(1)] by (auto simp: ev_frame_def)
  have "covered w2 ?r"
    using run_event_inv(2) [OF f1 _ _ w2 r(1)] r(2) by (intro covered_mono [OF ok(2)]) (auto simp: held_def)
  moreover have "runner_ok w2 ?r" using ok(1) by (simp add: runner_ok_def)
  ultimately have "ev_inv w'" using f2 ev_inv_set_runner [OF _ r(1)] by (simp add: ev_frame_def w'_eq)
  moreover have "running w' = C"
    using f2 f(2) by (auto simp: ev_frame_def running_def w'_eq fun_eq_iff split: if_splits)
  moreover have "n \<le> length (ev_store w')" using f2 by (simp add: ev_frame_def w'_eq)
  ultimately show ?thesis by (simp add: ev_frame_def)
qed

definition ev_idle :: "'f ev_world \<Rightarrow> bool" where
  "ev_idle w \<longleftrightarrow> (\<forall>cpuid r. runners w cpuid = Some r \<longrightarrow> current_event r = None)"

lemma ev_idle_running: "ev_idle w \<longleftrightarrow> (\<forall>c. running w c \<in> {None, Some None})"
proof
  assume h: "\<forall>c. running w c \<in> {None, Some None}"
  have "current_event r = None" if "runners w cpuid = Some r" for cpuid r
    using h [rule_format, of cpuid] that by (simp add: running_def)
  then show "ev_idle w" by (simp add: ev_idle_def)
qed (auto simp: ev_idle_def running_def)

lemma pass_inv:
  assumes "ev_inv w" "ev_idle w" "run_loop_pass poll cpuid w = (Ok b, w')"
  shows "ev_frame (running w) (length (ev_store w)) w'"
proof (cases "runners w cpuid")
  case None
  then show ?thesis using assms(3) by (simp add: run_loop_pass_def have_pending_events_def ev_eval)
next
  case (Some r)
  have f: "ev_frame (running w) (length (ev_store w)) w" using assms(1) by (simp add: ev_frame_def)
  have c: "running w cpuid = Some None" using Some assms(2) by (simp add: running_def ev_idle_def)
  show ?thesis
  proof (cases "pending_events r = {}")
    case True
    then show ?thesis
      using assms(3) f by (auto simp: run_loop_pass_def have_pending_events_def bnd_def get_runner_Some [OF Some] ret_apply)
  next
    case False
    then have "run_iteration poll cpuid w = (Ok (), w')"
      using assms(3) by (auto simp: run_loop_pass_def have_pending_events_def bnd_def get_runner_Some [OF Some] ret_apply
          split: prod.splits res.splits)
    then show ?thesis by (rule run_iteration_inv [OF f c])
  qed
qed

lemma ev_step_inv:
  assumes "ev_inv w" "ev_idle w" "ev_step poll w w'"
  shows "ev_inv w' \<and> ev_idle w'"
  using assms(3)
proof cases
  case (pass cpuid b)
  then show ?thesis using pass_inv [OF assms(1,2)] assms(2) by (auto simp: ev_frame_def ev_idle_running)
next
  case (outside a)
  have "ev_frame (running w) (length (ev_store w)) w" using assms(1) by (simp add: ev_frame_def)
  from keepsD [OF keeps_perform this outside] show ?thesis using assms(2) by (auto simp: ev_frame_def ev_idle_running)
next
  case (register cpuid)
  have "ev_idle w'"
    using assms(2) register by (auto simp: ev_idle_def register_event_runner_def runner_init_def ev_eval split: if_splits)
  then show ?thesis using registered_inv [OF assms(1) register] by simp
qed

lemma ev_reach_inv: "ev_reach poll w \<Longrightarrow> ev_inv w \<and> ev_idle w"
proof (induction rule: ev_reach.induct)
  case boot
  show ?case by (simp add: ev_boot_def ev_inv_def store_ok_def ev_idle_def)
next
  case (step w w')
  then show ?case using ev_step_inv by blast
qed

end
