(* ===== verification/Event_Props.thy ===== *)
theory Event_Props
  imports Events
begin

text \<open>
  Properties of the event system in operation: pending events are never lost, a pass of a core's loop does not
  panic, a finished event is never polled again, and what the order of the queues guarantees.
\<close>

section \<open>A pass does not panic\<close>

text \<open>Clocks are far from the end of their range.\<close>

definition clocks_ok :: "'f ev_world \<Rightarrow> bool" where
  "clocks_ok w \<longleftrightarrow> (\<forall>k < length (ev_store w). scheduled_clock (ev_store w ! k) + 5 < 2 ^ 64)
     \<and> (\<forall>cpuid r. runners w cpuid = Some r \<longrightarrow> clock r + 5 < 2 ^ 64)"

text \<open>What a pass over the queues leaves unchanged.\<close>

definition same_pending :: "'f ev_world \<Rightarrow> 'f ev_world \<Rightarrow> bool" where
  "same_pending w w' \<longleftrightarrow> rewake_store w' = rewake_store w \<and> length (ev_store w') = length (ev_store w)
     \<and> (\<forall>c. map_option (\<lambda>r. (pending_events r, current_event r, clock r, rewake_queue r)) (runners w' c)
          = map_option (\<lambda>r. (pending_events r, current_event r, clock r, rewake_queue r)) (runners w c))"

lemma same_pending_trans: "same_pending w w1 \<Longrightarrow> same_pending w1 w2 \<Longrightarrow> same_pending w w2"
  by (simp add: same_pending_def)

lemma same_pending_runner:
  assumes "same_pending w w'" "runners w c = Some r"
  obtains r' where "runners w' c = Some r'" "pending_events r' = pending_events r" "current_event r' = current_event r"
    "clock r' = clock r" "rewake_queue r' = rewake_queue r"
proof -
  have "map_option (\<lambda>r. (pending_events r, current_event r, clock r, rewake_queue r)) (runners w' c)
      = Some (pending_events r, current_event r, clock r, rewake_queue r)"
    using assms unfolding same_pending_def by simp
  then show ?thesis using that by (cases "runners w' c") auto
qed

lemma promote_ok:
  assumes inv: "ev_inv w" and c: "clocks_ok w" and r: "runners w cpuid = Some r" and i: "0 < i" "i < 4"
  shows "\<exists>w'. promote cpuid i w = (Ok (), w') \<and> ev_inv w' \<and> clocks_ok w' \<and> same_pending w w'"
proof -
  have ok: "runner_ok w r" using ev_inv_runner [OF inv r] by simp
  then have l: "length (event_queues r) = 4" by (simp add: runner_ok_def)
  show ?thesis
  proof (cases "event_queues r ! i")
    case Nil
    then show ?thesis using inv c i l by (simp add: promote_eq [OF r] same_pending_def)
  next
    case (Cons e es)
    then have "e # es \<in> set (event_queues r)" using i l by (metis nth_mem)
    then have e: "e < length (ev_store w)" using ok by (auto simp: runner_ok_def refs_ok_def)
    then have "scheduled_clock (ev_store w ! e) + 5 < 2 ^ 64" using c by (simp add: clocks_ok_def)
    moreover have "same_pending w (promoted cpuid i w r e es)"
      using r by (auto simp: same_pending_def promoted_def)
    moreover have "clocks_ok (promoted cpuid i w r e es)"
      using c r e by (auto simp: clocks_ok_def promoted_def nth_list_update split: if_splits)
    ultimately show ?thesis
      using Cons e i l inv c promoted_inv [OF inv r i Cons] by (simp add: promote_eq [OF r] same_pending_def)
  qed
qed

lemma reprioritize_ok:
  assumes "ev_inv w" "clocks_ok w" "runners w cpuid = Some r"
  shows "\<exists>w'. reprioritize cpuid w = (Ok (), w') \<and> ev_inv w' \<and> clocks_ok w' \<and> same_pending w w'"
proof -
  have "\<exists>w'. for_each xs (promote cpuid) w = (Ok (), w') \<and> ev_inv w' \<and> clocks_ok w' \<and> same_pending w w'"
    if "set xs \<subseteq> {1..<4}" for xs
    using that assms
  proof (induction xs arbitrary: w r)
    case Nil
    then show ?case by (simp add: ret_apply same_pending_def)
  next
    case (Cons i xs)
    then obtain w1 where w1: "promote cpuid i w = (Ok (), w1)" "ev_inv w1" "clocks_ok w1" "same_pending w w1"
      using promote_ok [of w cpuid r i] by auto
    obtain r1 where r1: "runners w1 cpuid = Some r1" using same_pending_runner [OF w1(4) Cons.prems(4)] by blast
    obtain w2 where w2: "for_each xs (promote cpuid) w1 = (Ok (), w2)" "ev_inv w2" "clocks_ok w2" "same_pending w1 w2"
      using Cons.IH [OF _ w1(2,3) r1] Cons.prems(1) by auto
    then show ?case using w1 same_pending_trans [OF w1(4) w2(4)] by (simp add: bnd_def)
  qed
  from this [of "[1..<4]"] show ?thesis by (simp add: reprioritize_def NUM_EVENT_PRIORITIES_def)
qed

lemma take_next_ok:
  assumes inv: "ev_inv w" and c: "clocks_ok w" and r: "runners w cpuid = Some r" "current_event r = None"
    and p: "pending_events r \<noteq> {}"
  shows "\<exists>e w' r'. take_next cpuid w = (Ok (Some e), w') \<and> runners w' cpuid = Some r' \<and> clock r' = clock r
    \<and> length (ev_store w') = length (ev_store w) \<and> (\<forall>d. runners w d \<noteq> None \<longrightarrow> runners w' d \<noteq> None)"
proof (cases "rewake_store w ! rewake_queue r")
  case (Cons e es)
  then show ?thesis
    using r(1) by (auto simp: take_next_def next_event_def bnd_def try_pop_rewake_eq [OF r(1)] prog_simps set_runner_def)
next
  case Nil
  obtain w1 where w1: "reprioritize cpuid w = (Ok (), w1)" "ev_inv w1" "same_pending w w1"
    using reprioritize_ok [OF inv c r(1)] by blast
  obtain r1 where r1: "runners w1 cpuid = Some r1" "pending_events r1 = pending_events r" "current_event r1 = None"
    "clock r1 = clock r" "rewake_queue r1 = rewake_queue r"
    using same_pending_runner [OF w1(3) r(1)] r(2) by metis
  have ok: "length (event_queues r1) = 4" "covered w1 r1" using ev_inv_runner [OF w1(2) r1(1)] by (auto simp: runner_ok_def)
  have rw: "rewake_store w1 ! rewake_queue r1 = []" using w1(3) Nil r1(5) by (simp add: same_pending_def)
  obtain e where "held w1 r1 e" using ok(2) p r1(2) unfolding covered_def by blast
  then obtain j where j: "j < 4" "event_queues r1 ! j \<noteq> []"
    using rw r1(3) ok(1) unfolding held_def by (metis in_set_conv_nth length_greater_0_conv length_pos_if_in_set list.size(3) option.distinct(1) empty_iff set_empty)
  then obtain i where i: "find (\<lambda>i. event_queues r1 ! i \<noteq> []) [0..<4] = Some i"
    by (cases "find (\<lambda>i. event_queues r1 ! i \<noteq> []) [0..<4]") (auto simp: find_None_iff)
  have "set [0..<4] \<subseteq> {..<4 :: nat}" by auto
  note pf = pop_first_eq [OF r1(1) ok(1) this]
  have "runners w1 d \<noteq> None" if "runners w d \<noteq> None" for d
    using that same_pending_runner [OF w1(3)] by blast
  then show ?thesis
    using Nil w1(1) r1 i pf w1(3)
    by (simp add: take_next_def next_event_def bnd_def try_pop_rewake_eq [OF r(1)] prog_simps set_runner_def
        NUM_EVENT_PRIORITIES_def same_pending_def)
qed

text \<open>The calls a future makes while it is polled are within their preconditions: it wakes events that exist and
  schedules on registered cores with a priority of the table.\<close>

fun act_ok :: "'f ev_world \<Rightarrow> 'f ev_action \<Rightarrow> bool" where
  "act_ok w (Wake e) \<longleftrightarrow> e < length (ev_store w)"
| "act_ok w (Schedule c f prio p) \<longleftrightarrow> runners w c \<noteq> None \<and> prio < 4"

definition grows :: "'f ev_world \<Rightarrow> 'f ev_world \<Rightarrow> bool" where
  "grows w w' \<longleftrightarrow> length (ev_store w) \<le> length (ev_store w') \<and> (\<forall>c. runners w c \<noteq> None \<longrightarrow> runners w' c \<noteq> None)"

lemma grows_act_ok: "grows w w' \<Longrightarrow> act_ok w a \<Longrightarrow> act_ok w' a"
  by (cases a) (auto simp: grows_def)

lemma perform_ok:
  assumes "ev_inv w" "act_ok w a"
  shows "\<exists>w'. perform a w = (Ok (), w') \<and> ev_inv w' \<and> grows w w'"
proof -
  have "\<exists>w'. perform a w = (Ok (), w') \<and> grows w w'"
  proof (cases a)
    case (Wake e)
    then show ?thesis
      using assms(2) by (simp add: wake_by_ref_def bnd_def get_event_eq modify_st_apply grows_def)
  next
    case (Schedule c f prio p)
    then obtain r where r: "runners w c = Some r" "prio < 4" using assms(2) by auto
    then have "length (event_queues r) = 4" using ev_inv_runner [OF assms(1)] by (simp add: runner_ok_def)
    then show ?thesis
      using r Schedule by (auto simp: runner_schedule_eq grows_def scheduled_def)
  qed
  then obtain w' where w': "perform a w = (Ok (), w')" "grows w w'" by blast
  have "ev_frame (running w) 0 w" using assms(1) by (simp add: ev_frame_def)
  from keepsD [OF keeps_perform this w'(1)] show ?thesis using w' by (auto simp: ev_frame_def)
qed

lemma performs_ok:
  assumes "ev_inv w" "\<forall>a \<in> set acts. act_ok w a"
  shows "\<exists>w'. for_each acts perform w = (Ok (), w') \<and> grows w w'"
  using assms
proof (induction acts arbitrary: w)
  case (Cons a acts)
  then obtain w1 where w1: "perform a w = (Ok (), w1)" "ev_inv w1" "grows w w1"
    using perform_ok [of w a] by auto
  then obtain w2 where w2: "for_each acts perform w1 = (Ok (), w2)" "grows w1 w2"
    using Cons.IH [of w1] Cons.prems(2) grows_act_ok [OF w1(3)] by auto
  then show ?case using w1 by (auto simp: bnd_def grows_def)
qed (simp add: ret_apply grows_def)

lemma ev_inv_future:
  assumes "ev_inv w"
  shows "ev_inv (w\<lparr>ev_store := (ev_store w)[e := (ev_store w ! e)\<lparr>ev_future := f\<rparr>]\<rparr>)"
proof -
  have "ev_frame (running w) 0 w" using assms by (simp add: ev_frame_def)
  from keepsD [OF keeps_set_future this, of e f] show ?thesis
    by (simp add: set_event_def modify_st_apply ev_frame_def)
qed

lemma poll_event_ok:
  assumes "ev_inv w" "e < length (ev_store w)" "\<forall>a \<in> set (snd (snd (poll e (ev_future (ev_store w ! e))))). act_ok w a"
  shows "\<exists>b w'. poll_event poll e w = (Ok b, w') \<and> grows w w'"
proof -
  obtain b f acts where p: "poll e (ev_future (ev_store w ! e)) = (b, f, acts)" by (metis prod_cases3)
  let ?w = "w\<lparr>ev_store := (ev_store w)[e := (ev_store w ! e)\<lparr>ev_future := f\<rparr>]\<rparr>"
  have "\<forall>a \<in> set acts. act_ok ?w a"
  proof
    fix a assume "a \<in> set acts"
    then have "act_ok w a" using assms(3) p by simp
    then show "act_ok ?w a" by (cases a) auto
  qed
  then obtain w' where "for_each acts perform ?w = (Ok (), w')" "grows ?w w'"
    using performs_ok [OF ev_inv_future [OF assms(1)]] by blast
  then show ?thesis
    using assms(2) p by (auto simp: poll_event_def bnd_def get_event_eq set_event_def prog_simps grows_def)
qed


text \<open>A core with one scheduled event, whose future is ready at its second poll.\<close>

definition runner_sample :: event_runner where
  "runner_sample = \<lparr>event_queues = [[], [], [], [0]], rewake_queue = 0, pending_events = {0}, current_event = None, clock = 0\<rparr>"

definition world_sample :: "bool ev_world" where
  "world_sample = \<lparr>next_id = 1, ev_store = [\<lparr>eid = 0, pid = 7, ev_future = False, ev_rewake_queue = 0, priority = 3, scheduled_clock = 0\<rparr>],
     rewake_store = [[]], runners = [0 \<mapsto> runner_sample]\<rparr>"

definition poll_sample :: "bool poll_fun" where
  "poll_sample e f = (f, True, [Wake 0])"

lemma world_sample_reach: "ev_reach poll world_sample"
proof -
  let ?r = "\<lparr>event_queues = replicate 4 [], rewake_queue = 0, pending_events = {}, current_event = None, clock = 0\<rparr>"
  let ?w = "\<lparr>next_id = 0, ev_store = [], rewake_store = [[]], runners = [0 \<mapsto> ?r]\<rparr> :: bool ev_world"
  have "register_event_runner 0 ev_boot = (Ok (), ?w)"
    by (simp add: ev_boot_def register_event_runner_def runner_init_def ev_eval NUM_EVENT_PRIORITIES_def)
  from ev_reach.step [OF ev_reach.boot ev_step.register [OF this]] have "ev_reach poll ?w" .
  moreover have "runner_schedule 0 False 3 7 ?w = (Ok (), world_sample)"
    by (subst runner_schedule_eq) (auto simp: scheduled_def world_sample_def runner_sample_def eval_nat_numeral)
  then have "perform (Schedule 0 False 3 7) ?w = (Ok (), world_sample)" by simp
  ultimately show ?thesis using ev_reach.step ev_step.outside by blast
qed


section \<open>Finished events\<close>

text \<open>The event with index \<open>k\<close> exists and is pending nowhere; the state of its future is \<open>f\<close>.  Identifiers
  repeat only after 2 to the 64 events.\<close>

definition finished :: "nat \<Rightarrow> 'f \<Rightarrow> 'f ev_world \<Rightarrow> bool" where
  "finished k f w \<longleftrightarrow> next_id w = word_of_nat (length (ev_store w)) \<and> k < length (ev_store w)
     \<and> (\<forall>j < length (ev_store w). eid (ev_store w ! j) = word_of_nat j)
     \<and> (length (ev_store w) \<le> 2 ^ 64 \<longrightarrow> ev_future (ev_store w ! k) = f
         \<and> (\<forall>c r. runners w c = Some r \<longrightarrow> word_of_nat k \<notin> pending_events r))"

lemma fin_set_runner:
  assumes "\<And>r. pending_events (g r) \<subseteq> pending_events r"
  shows "keeps (finished k f) (set_runner c g)"
  unfolding set_runner_def
  by (rule keeps_modify) (auto simp: finished_def split: if_splits dest!: subsetD [OF assms])

lemma fin_set_event:
  assumes "\<And>ev. eid (g ev) = eid ev" "e \<noteq> k \<or> (\<forall>ev. ev_future (g ev) = ev_future ev)"
  shows "keeps (finished k f) (set_event e g)"
  unfolding set_event_def
proof (rule keeps_modify)
  fix w assume "finished k f w"
  moreover have "eid ((ev_store w)[e := g (ev_store w ! e)] ! j) = eid (ev_store w ! j)"
    "ev_future ((ev_store w)[e := g (ev_store w ! e)] ! k) = ev_future (ev_store w ! k)" for j
    using assms by (cases "e < length (ev_store w)"; cases "e = j"; cases "e = k"; simp add: not_less list_update_beyond)+
  ultimately show "finished k f (w\<lparr>ev_store := (ev_store w)[e := g (ev_store w ! e)]\<rparr>)"
    by (simp add: finished_def)
qed

lemma fin_rewake: "keeps (finished k f) (modify_st (\<lambda>w. w\<lparr>rewake_store := g w\<rparr>))"
  by (rule keeps_modify) (simp add: finished_def)

lemma fin_queue_ops:
  "keeps (finished k f) (wake_by_ref e)" "keeps (finished k f) (enqueue c i e)" "keeps (finished k f) (try_pop c i)"
  "keeps (finished k f) (try_pop_rewake c)" "keeps (finished k f) (front_clock c i)"
  unfolding wake_by_ref_def enqueue_def try_pop_def try_pop_rewake_def front_clock_def
  by (auto intro!: keeps_rules fin_set_runner fin_rewake split: list.split)

lemma fin_next_event: "keeps (finished k f) (take_next c)"
proof -
  have p: "keeps (finished k f) (promote c i)" for i
    unfolding promote_def by (intro keeps_rules fin_queue_ops fin_set_event) auto
  have "keeps (finished k f) (pop_first c is)" for "is"
    by (induction "is") (auto intro!: keeps_rules fin_queue_ops)
  then show ?thesis
    unfolding take_next_def next_event_def reprioritize_def
    by (intro keeps_rules fin_queue_ops fin_set_runner p) auto
qed

text \<open>A new event has an identifier of its own.\<close>

lemma fin_schedule:
  fixes fut :: 'f
  shows "keeps (finished k f) (runner_schedule c fut prio p)"
  unfolding keeps_def
proof (intro allI impI)
  fix w :: "'f ev_world" assume fin: "finished k f w"
  let ?n = "length (ev_store w)"
  let ?ev = "\<lambda>r. \<lparr>eid = next_id w, pid = p, ev_future = fut, ev_rewake_queue = rewake_queue r, priority = prio, scheduled_clock = clock r\<rparr>"
  let ?w1 = "\<lambda>r. w\<lparr>next_id := next_id w + 1, ev_store := ev_store w @ [?ev r]\<rparr>"
  have id: "next_id w \<noteq> word_of_nat k" if "Suc ?n \<le> 2 ^ 64"
  proof -
    have "unat (word_of_nat ?n :: u64) = ?n" "unat (word_of_nat k :: u64) = k"
      using fin that by (simp_all add: finished_def unat_of_nat take_bit_nat_eq_self)
    moreover have "k < ?n" "next_id w = word_of_nat ?n" using fin by (simp_all add: finished_def)
    ultimately show ?thesis by (metis less_irrefl)
  qed
  have f1: "finished k f (?w1 r)" for r
    using fin by (auto simp: finished_def nth_append less_Suc_eq)
  have f2: "finished k f (?w1 r\<lparr>runners := (runners w)(c \<mapsto> r\<lparr>event_queues := q,
      pending_events := insert (next_id w) (pending_events r)\<rparr>)\<rparr>)" if "runners w c = Some r" for r q
    using f1 [of r] id that by (auto simp: finished_def split: if_splits)
  have ei: "event_init fut (rewake_queue r) prio p (clock r) w = (Ok ?n, ?w1 r)" for r
    by (simp add: event_init_def eventid_init_def bnd_def prog_simps)
  show "finished k f (snd (runner_schedule c fut prio p w))"
  proof (cases "runners w c")
    case None
    then show ?thesis using fin by (simp add: runner_schedule_def ev_eval)
  next
    case (Some r)
    show ?thesis
    proof (cases "prio < 4 \<and> prio < length (event_queues r)")
      case True
      let ?q = "(event_queues r)[prio := event_queues r ! prio @ [?n]]"
      have "runner_schedule c fut prio p w = (Ok (), ?w1 r\<lparr>runners := (runners w)(c \<mapsto> r\<lparr>event_queues := ?q,
          pending_events := insert (next_id w) (pending_events r)\<rparr>)\<rparr>)"
        using True Some enqueue_eq [of "?w1 r" c r prio ?n]
        by (simp add: runner_schedule_def bnd_def get_runner_Some [OF Some] NUM_EVENT_PRIORITIES_def ei get_event_eq
            set_runner_def prog_simps)
      then show ?thesis using f2 [OF Some] by simp
    next
      case False
      then have "runner_schedule c fut prio p w = (Panic, w) \<or> runner_schedule c fut prio p w = (Panic, ?w1 r)"
        using Some by (auto simp: runner_schedule_def bnd_def get_runner_Some [OF Some] NUM_EVENT_PRIORITIES_def ei
            enqueue_def get_runner_def prog_simps index_at_def)
      then show ?thesis using fin f1 by auto
    qed
  qed
qed

lemma fin_perform: "keeps (finished k f) (perform a)"
  by (cases a) (simp_all add: fin_queue_ops fin_schedule)

lemma fin_poll_event: "e \<noteq> k \<Longrightarrow> keeps (finished k f) (poll_event poll e)"
  unfolding poll_event_def by (intro keeps_rules fin_set_event fin_perform) auto

lemma fin_run_event:
  assumes "finished k f w" "run_event poll c e w = (Ok (), w')" "length (ev_store w) \<le> 2 ^ 64"
  shows "finished k f w'"
proof (cases "e = k")
  case False
  have "keeps (finished k f) (run_event poll c e)"
    unfolding run_event_def contains_event_def
    by (intro keeps_rules fin_queue_ops fin_set_runner fin_poll_event False) auto
  from keepsD [OF this assms(1,2)] show ?thesis .
next
  case True
  have k: "k < length (ev_store w)" "eid (ev_store w ! k) = word_of_nat k" using assms(1) by (simp_all add: finished_def)
  obtain r where r: "runners w c = Some r"
    using assms(2) True k(1) by (cases "runners w c") (simp_all add: run_event_def contains_event_def ev_eval)
  then have "word_of_nat k \<notin> pending_events r" using assms(1,3) by (simp add: finished_def)
  then have "w' = w" using assms(2) True k run_event_eq [OF r k(1)] by simp
  then show ?thesis using assms(1) by simp
qed

lemma store_grows:
  "keeps (\<lambda>w. n \<le> length (ev_store w)) (perform a)" "keeps (\<lambda>w. n \<le> length (ev_store w)) (run_event poll c e)"
  "keeps (\<lambda>w. n \<le> length (ev_store w)) (take_next c)"
proof -
  let ?I = "\<lambda>w. n \<le> length (ev_store w)"
  have r: "keeps ?I (set_runner d g)" for d g unfolding set_runner_def by (rule keeps_modify) simp
  have s: "keeps ?I (set_event d g)" for d g unfolding set_event_def by (rule keeps_modify) simp
  have m: "keeps ?I (modify_st (\<lambda>w. w\<lparr>rewake_store := g w\<rparr>))" for g by (rule keeps_modify) simp
  have i: "keeps ?I (event_init a b d g h)" for a b d g h
    unfolding event_init_def eventid_init_def by (intro keeps_rules keeps_modify) auto
  have q: "keeps ?I (enqueue d i x)" "keeps ?I (try_pop d i)" "keeps ?I (front_clock d i)" "keeps ?I (try_pop_rewake d)" for d i x
    unfolding enqueue_def try_pop_def front_clock_def try_pop_rewake_def by (auto intro!: keeps_rules r m split: list.split)
  show p: "keeps ?I (perform a)" for a
    by (cases a) (auto simp: wake_by_ref_def runner_schedule_def intro!: keeps_rules r m i q)
  show "keeps ?I (run_event poll c e)"
    unfolding run_event_def contains_event_def poll_event_def by (intro keeps_rules p r s q)
  have "keeps ?I (promote d i)" for d i unfolding promote_def by (intro keeps_rules q s)
  moreover have "keeps ?I (pop_first d is)" for d "is" by (induction "is") (auto intro!: keeps_rules q)
  ultimately show "keeps ?I (take_next c)"
    unfolding take_next_def next_event_def reprioritize_def by (intro keeps_rules r q)
qed

lemma iteration_parts:
  assumes "run_iteration poll c w = (Ok (), w')"
  obtains e w1 w2 where "take_next c w = (Ok (Some e), w1)" "run_event poll c e w1 = (Ok (), w2)"
    "set_runner c (\<lambda>r. r\<lparr>current_event := None\<rparr>) w2 = (Ok (), w')"
proof -
  obtain x w1 where x: "take_next c w = (Ok x, w1)"
    "(case x of None \<Rightarrow> panic | Some e \<Rightarrow> bnd (run_event poll c e) (\<lambda>_. set_runner c (\<lambda>r. r\<lparr>current_event := None\<rparr>))) w1 = (Ok (), w')"
    using assms unfolding run_iteration_def bnd_Ok_iff by blast
  then show ?thesis using that by (cases x) (auto simp: panic_apply bnd_Ok_iff)
qed

lemma pass_cases:
  assumes "run_loop_pass poll c w = (Ok b, w')"
  obtains "w' = w" | e w1 w2 where "take_next c w = (Ok (Some e), w1)" "run_event poll c e w1 = (Ok (), w2)"
    "set_runner c (\<lambda>r. r\<lparr>current_event := None\<rparr>) w2 = (Ok (), w')"
proof -
  obtain none w0 where h: "have_pending_events c w = (Ok none, w0)"
    "(if none then ret False else bnd (run_iteration poll c) (\<lambda>_. ret True)) w0 = (Ok b, w')"
    using assms unfolding run_loop_pass_def bnd_Ok_iff by blast
  have w0: "w0 = w" using h(1) by (auto simp: have_pending_events_def ev_eval split: option.splits)
  show ?thesis
  proof (cases none)
    case True
    then show ?thesis using h w0 that(1) by (simp add: ret_apply)
  next
    case False
    then have "run_iteration poll c w = (Ok (), w')" using h w0 by (auto simp: bnd_Ok_iff ret_apply)
    then show ?thesis using iteration_parts that(2) by blast
  qed
qed

lemma step_grows:
  assumes "ev_step poll w w'"
  shows "length (ev_store w) \<le> length (ev_store w')"
  using assms
proof cases
  case (pass c b)
  then show ?thesis
  proof (cases rule: pass_cases)
    case (2 e w1 w2)
    have "length (ev_store w) \<le> length (ev_store w1)" using keepsD [OF store_grows(3) _ 2(1)] by simp
    then have "length (ev_store w) \<le> length (ev_store w2)" using keepsD [OF store_grows(2) _ 2(2)] by simp
    then show ?thesis using 2(3) by (auto simp: set_runner_def modify_st_apply)
  qed simp
next
  case (outside a)
  then show ?thesis using keepsD [OF store_grows(1) _ outside] by simp
qed (auto simp: register_event_runner_def runner_init_def ev_eval)

lemma fin_step:
  assumes fin: "finished k f w" and "ev_step poll w w'" "length (ev_store w') \<le> 2 ^ 64"
  shows "finished k f w'"
  using assms(2)
proof cases
  case (pass c b)
  then show ?thesis
  proof (cases rule: pass_cases)
    case (2 e w1 w2)
    have f1: "finished k f w1" using keepsD [OF fin_next_event fin 2(1)] .
    have "length (ev_store w1) \<le> length (ev_store w2)" using keepsD [OF store_grows(2) _ 2(2)] by simp
    also have "\<dots> = length (ev_store w')" using 2(3) by (auto simp: set_runner_def modify_st_apply)
    finally have "finished k f w2" using fin_run_event [OF f1 2(2)] assms(3) by simp
    then show ?thesis using keepsD [OF fin_set_runner _ 2(3)] by simp
  qed (use fin in simp)
next
  case (outside a)
  then show ?thesis using keepsD [OF fin_perform fin] by blast
next
  case (register c)
  then show ?thesis
    using fin by (auto simp: register_event_runner_def runner_init_def ev_eval finished_def split: if_splits)
qed

lemma fin_steps:
  assumes "(ev_step poll)\<^sup>*\<^sup>* w w'" "finished k f w" "length (ev_store w') \<le> 2 ^ 64"
  shows "finished k f w'"
  using assms
proof (induction rule: rtranclp_induct)
  case (step y z)
  then show ?case using step_grows [OF step.hyps(2)] fin_step [OF _ step.hyps(2)] by simp
qed


text \<open>The sample core after its only event was polled by futures that are ready at once.\<close>

definition poll_done :: "bool poll_fun" where
  "poll_done e f = (True, f, [])"

definition runner_done :: event_runner where
  "runner_done = \<lparr>event_queues = [[], [], [], []], rewake_queue = 0, pending_events = {}, current_event = None, clock = 1\<rparr>"

lemma world_sample_runner: "runners world_sample 0 = Some runner_sample" "length (event_queues runner_sample) = 4"
  by (simp_all add: world_sample_def runner_sample_def)

lemma upt_4: "[0..<4] = [0, 1, 2, 3 :: nat]" "[1..<4] = [1, 2, 3 :: nat]"
  by (simp_all add: upt_rec)

lemma world_sample_reprioritize: "reprioritize 0 world_sample = (Ok (), world_sample)"
proof -
  have "promote 0 1 world_sample = (Ok (), world_sample)" "promote 0 2 world_sample = (Ok (), world_sample)"
    "promote 0 3 world_sample = (Ok (), world_sample)"
    using promote_eq [OF world_sample_runner(1)] by (simp_all add: runner_sample_def world_sample_def)
  then show ?thesis unfolding reprioritize_def NUM_EVENT_PRIORITIES_def upt_4 by (simp add: bnd_def ret_apply)
qed

lemma world_sample_take:
  "take_next 0 world_sample = (Ok (Some 0), world_sample\<lparr>runners := [0 \<mapsto> runner_sample\<lparr>event_queues := [[], [], [], []], current_event := Some 0\<rparr>]\<rparr>)"
proof -
  have "try_pop_rewake 0 world_sample = (Ok None, world_sample)"
    using try_pop_rewake_eq [OF world_sample_runner(1)] by (simp add: world_sample_def runner_sample_def)
  moreover have "pop_first 0 [0..<4] world_sample = (Ok (Some 0), world_sample\<lparr>runners := [0 \<mapsto> runner_sample\<lparr>event_queues := [[], [], [], []]\<rparr>]\<rparr>)"
    by (subst pop_first_eq [OF world_sample_runner]) (auto simp: upt_4 runner_sample_def world_sample_def eval_nat_numeral)
  ultimately show ?thesis
    by (simp add: take_next_def next_event_def bnd_def world_sample_reprioritize NUM_EVENT_PRIORITIES_def set_runner_def prog_simps)
qed

lemma world_done: "run_loop_pass poll_done 0 world_sample = (Ok True, world_sample\<lparr>runners := [0 \<mapsto> runner_done]\<rparr>)"
proof -
  let ?r = "runner_sample\<lparr>event_queues := [[], [], [], []], current_event := Some 0\<rparr>"
  let ?w = "world_sample\<lparr>runners := [0 \<mapsto> ?r]\<rparr>"
  have "run_event poll_done 0 0 ?w = (Ok (), world_sample\<lparr>runners := [0 \<mapsto> runner_done\<lparr>current_event := Some 0\<rparr>]\<rparr>)"
    by (subst run_event_eq [where r = ?r])
      (auto simp: world_sample_def runner_sample_def runner_done_def poll_event_def poll_done_def ev_eval)
  then show ?thesis
    by (simp add: run_loop_pass_def have_pending_events_def run_iteration_def bnd_def world_sample_take
        get_runner_Some [OF world_sample_runner(1)] set_runner_def prog_simps)
      (simp add: runner_sample_def runner_done_def)
qed


section \<open>Order of service\<close>

text \<open>The events \<open>xs\<close> are at the front of the core's highest queue and no event waits in its queue of woken
  events.\<close>

definition first_up :: "u32 \<Rightarrow> nat list \<Rightarrow> 'f ev_world \<Rightarrow> bool" where
  "first_up c xs w \<longleftrightarrow> (\<exists>r ys. runners w c = Some r \<and> length (event_queues r) = 4 \<and> event_queues r ! 0 = xs @ ys
     \<and> rewake_store w ! rewake_queue r = [])"

lemma up_set_runner:
  assumes "\<And>r. rewake_queue (g r) = rewake_queue r" "\<And>r. length (event_queues (g r)) = length (event_queues r)"
    and "\<And>r. length (event_queues r) = 4 \<Longrightarrow> \<exists>ys. event_queues (g r) ! 0 = event_queues r ! 0 @ ys"
  shows "keeps (first_up c xs) (set_runner d g)"
  unfolding set_runner_def
proof (rule keeps_modify)
  fix w :: "'f ev_world" assume "first_up c xs w"
  then obtain r ys where r: "runners w c = Some r" "length (event_queues r) = 4" "event_queues r ! 0 = xs @ ys"
    "rewake_store w ! rewake_queue r = []" by (auto simp: first_up_def)
  show "first_up c xs (w\<lparr>runners := (runners w)(d := map_option g (runners w d))\<rparr>)"
    using r assms(1,2) assms(3) [OF r(2)] by (cases "d = c") (auto simp: first_up_def)
qed

lemma up_get [keeps_rules]: "keeps I (contains_event c i)"
  unfolding contains_event_def by (intro keeps_rules)

lemma up_set_event: "keeps (first_up c xs) (set_event e g)"
  unfolding set_event_def by (rule keeps_modify) (simp add: first_up_def)

lemma up_event_init: "keeps (first_up c xs) (event_init fut rq prio p clk)"
  unfolding event_init_def eventid_init_def by (intro keeps_rules keeps_modify) (auto simp: first_up_def)

text \<open>Adding to a queue of any core keeps the front; so does taking from a lower queue.\<close>

lemma up_enqueue: "keeps (first_up c xs) (enqueue d i e)"
  unfolding keeps_def
proof (intro allI impI)
  fix w :: "'f ev_world" assume f: "first_up c xs w"
  then obtain r ys where r: "runners w c = Some r" "length (event_queues r) = 4" "event_queues r ! 0 = xs @ ys"
    "rewake_store w ! rewake_queue r = []" by (auto simp: first_up_def)
  show "first_up c xs (snd (enqueue d i e w))"
  proof (cases "\<exists>s. runners w d = Some s \<and> i < length (event_queues s)")
    case True
    then show ?thesis
      using r by (cases "d = c"; cases "i = 0") (auto simp: enqueue_eq first_up_def)
  next
    case False
    then have "snd (enqueue d i e w) = w" by (auto simp: enqueue_def ev_eval split: option.splits)
    then show ?thesis using f by simp
  qed
qed

lemma up_try_pop:
  assumes "0 < i"
  shows "keeps (first_up c xs) (try_pop c i)"
  unfolding keeps_def
proof (intro allI impI)
  fix w :: "'f ev_world" assume f: "first_up c xs w"
  then obtain r ys where r: "runners w c = Some r" "length (event_queues r) = 4" "event_queues r ! 0 = xs @ ys"
    "rewake_store w ! rewake_queue r = []" by (auto simp: first_up_def)
  show "first_up c xs (snd (try_pop c i w))"
  proof (cases "i < 4")
    case True
    then show ?thesis
      using f r assms try_pop_eq [OF r(1), of i] by (auto simp: first_up_def split: list.splits)
  next
    case False
    then show ?thesis using f r by (simp add: try_pop_def ev_eval)
  qed
qed

lemma up_schedule: "keeps (first_up c xs) (runner_schedule d fut prio p)"
  unfolding runner_schedule_def by (intro keeps_rules up_event_init up_enqueue up_set_runner) auto

lemma up_reprioritize: "keeps (first_up c xs) (reprioritize c)"
proof -
  have fc: "keeps I (front_clock c i)" for I :: "'f ev_world \<Rightarrow> bool" and i
    unfolding front_clock_def by (auto intro!: keeps_rules split: list.split)
  have "keeps (first_up c xs) (promote c i)" if "0 < i" for i
    unfolding promote_def by (intro keeps_rules fc up_try_pop [OF that] up_enqueue up_set_event)
  then have "keeps (first_up c xs) (for_each is (promote c))" if "\<forall>i \<in> set is. 0 < i" for "is"
    using that by (induction "is") (auto intro!: keeps_bnd simp: keeps_basic)
  from this [of "[1..<NUM_EVENT_PRIORITIES]"] show ?thesis by (simp add: reprioritize_def)
qed

text \<open>The calls of polled futures, none of which wakes an event.\<close>

definition never_wakes :: "'f poll_fun \<Rightarrow> bool" where
  "never_wakes poll \<longleftrightarrow> (\<forall>e f a. a \<in> set (snd (snd (poll e f))) \<longrightarrow> (\<forall>k. a \<noteq> Wake k))"

lemma up_run_event:
  assumes "never_wakes poll"
  shows "keeps (first_up c xs) (run_event poll d e)"
proof -
  have a: "keeps (first_up c xs) (for_each acts perform)" if "\<forall>a \<in> set acts. \<forall>k. a \<noteq> Wake k" for acts :: "'a ev_action list"
    using that
  proof (induction acts)
    case (Cons a acts)
    then show ?case by (cases a) (auto intro!: keeps_rules up_schedule)
  qed (simp add: keeps_rules)
  have "keeps (first_up c xs) (poll_event poll e)"
    unfolding poll_event_def
  proof (rule keeps_bnd [OF keeps_get_event])
    fix ev :: "'a event"
    obtain b f acts where p: "poll e (ev_future ev) = (b, f, acts)" by (metis prod_cases3)
    then have "\<forall>a \<in> set acts. \<forall>k. a \<noteq> Wake k" using assms unfolding never_wakes_def by (metis snd_conv)
    then show "keeps (first_up c xs) (case poll e (ev_future ev) of (ready, fut, acts) \<Rightarrow>
        bnd (set_event e (\<lambda>ev. ev\<lparr>ev_future := fut\<rparr>)) (\<lambda>_. bnd (for_each acts perform) (\<lambda>_. ret ready)))"
      by (simp add: p) (intro keeps_rules up_set_event a)
  qed
  then show ?thesis
    unfolding run_event_def by (intro keeps_rules up_enqueue up_set_runner) auto
qed

lemma take_front:
  assumes "first_up c (x # xs) w" "take_next c w = (Ok ev, w')"
  shows "ev = Some x" "first_up c xs w'"
proof -
  obtain r ys where r: "runners w c = Some r" "rewake_store w ! rewake_queue r = []"
    using assms(1) by (auto simp: first_up_def)
  obtain w1 where w1: "reprioritize c w = (Ok (), w1)"
    and rest: "bnd (pop_first c [0..<4]) (\<lambda>ev. bnd (set_runner c (\<lambda>r. r\<lparr>current_event := ev\<rparr>)) (\<lambda>_. ret ev)) w1 = (Ok ev, w')"
    using assms(2) r(2)
    by (auto simp: take_next_def next_event_def bnd_def try_pop_rewake_eq [OF r(1)] prog_simps NUM_EVENT_PRIORITIES_def
        split: prod.splits res.splits if_splits)
  have "first_up c (x # xs) w1" using keepsD [OF up_reprioritize assms(1) w1] .
  then obtain r1 ys where r1: "runners w1 c = Some r1" "length (event_queues r1) = 4" "event_queues r1 ! 0 = x # xs @ ys"
    "rewake_store w1 ! rewake_queue r1 = []" by (auto simp: first_up_def)
  have "try_pop c 0 w1 = (Ok (Some x), w1\<lparr>runners := (runners w1)(c \<mapsto> r1\<lparr>event_queues := (event_queues r1)[0 := xs @ ys]\<rparr>)\<rparr>)"
    using r1 by (simp add: try_pop_eq [OF r1(1)])
  then have "pop_first c [0..<4] w1 = (Ok (Some x), w1\<lparr>runners := (runners w1)(c \<mapsto> r1\<lparr>event_queues := (event_queues r1)[0 := xs @ ys]\<rparr>)\<rparr>)"
    unfolding upt_4 by (simp add: bnd_def ret_apply)
  then show "ev = Some x" "first_up c xs w'"
    using rest r1 by (auto simp: bnd_def set_runner_def prog_simps first_up_def)
qed

fun iterations :: "'f poll_fun \<Rightarrow> u32 \<Rightarrow> nat \<Rightarrow> ('f, unit) ev" where
  "iterations poll c 0 = ret ()"
| "iterations poll c (Suc n) = bnd (run_iteration poll c) (\<lambda>_. iterations poll c n)"

text \<open>Waiting in the highest queue is bounded: if no event is woken, the event with \<open>n\<close> events before it in the
  highest queue of a core is the one taken after \<open>n\<close> passes of its loop, whatever is scheduled or promoted
  meanwhile.\<close>

theorem highest_queue_is_fifo:
  assumes "never_wakes poll" "runners w c = Some r" "length (event_queues r) = 4" "event_queues r ! 0 = xs @ e # ys"
    and "rewake_store w ! rewake_queue r = []"
    and "iterations poll c (length xs) w = (Ok (), w')" "take_next c w' = (Ok ev, w'')"
  shows "ev = Some e"
proof -
  have "first_up c (xs @ [e]) w" using assms(2-5) by (auto simp: first_up_def)
  then show ?thesis using assms(6)
  proof (induction xs arbitrary: w)
    case Nil
    then show ?case using take_front(1) [of c e "[]" w'] assms(7) by (simp add: ret_apply)
  next
    case (Cons x xs)
    then obtain w1 where i: "run_iteration poll c w = (Ok (), w1)" "iterations poll c (length xs) w1 = (Ok (), w')"
      by (auto simp: bnd_Ok_iff)
    obtain z v1 v2 where v: "take_next c w = (Ok (Some z), v1)" "run_event poll c z v1 = (Ok (), v2)"
      "set_runner c (\<lambda>r. r\<lparr>current_event := None\<rparr>) v2 = (Ok (), w1)"
      using iteration_parts [OF i(1)] by blast
    have "first_up c (xs @ [e]) v1" using take_front(2) [OF _ v(1)] Cons.prems(1) by simp
    then have "first_up c (xs @ [e]) v2" using keepsD [OF up_run_event [OF assms(1)] _ v(2)] by blast
    then have "first_up c (xs @ [e]) w1" using keepsD [OF up_set_runner _ v(3)] by auto
    then show ?case using Cons.IH i(2) by blast
  qed
qed

theorem highest_queue_is_fifo_witness:
  "\<exists>w w' w''. iterations poll_done 0 1 w = (Ok (), w') \<and> take_next 0 w' = (Ok (Some 1), w'')"
proof -
  let ?q = "\<lambda>xs c. \<lparr>event_queues = [xs, [], [], []], rewake_queue = 0, pending_events = {0, 1}, current_event = None, clock = c\<rparr>"
  let ?ev = "\<lambda>i. \<lparr>eid = i, pid = 0, ev_future = False, ev_rewake_queue = 0, priority = 0, scheduled_clock = 0\<rparr>"
  let ?w = "\<lparr>next_id = 2, ev_store = [?ev 0, ?ev 1], rewake_store = [[]], runners = [0 \<mapsto> ?q [0, 1] 0]\<rparr>"
  have p: "promote 0 i w = (Ok (), w)" if "runners w 0 = Some r" "0 < i" "i < 4" "event_queues r ! i = []" "length (event_queues r) = 4"
    for w :: "bool ev_world" and r i
    using that by (simp add: promote_eq)
  have tk: "take_next 0 w = (Ok (Some x), w\<lparr>runners := (runners w)(0 \<mapsto> r\<lparr>event_queues := [xs, [], [], []], current_event := Some x\<rparr>)\<rparr>)"
    if "runners w 0 = Some r" "event_queues r = [x # xs, [], [], []]" "rewake_store w ! rewake_queue r = []"
    for w :: "bool ev_world" and r x xs
  proof -
    have "promote 0 1 w = (Ok (), w)" "promote 0 2 w = (Ok (), w)" "promote 0 3 w = (Ok (), w)"
      using that(2) by (auto intro!: p [OF that(1)])
    then have "reprioritize 0 w = (Ok (), w)"
      unfolding reprioritize_def NUM_EVENT_PRIORITIES_def upt_4 by (simp add: bnd_def ret_apply)
    moreover have "try_pop 0 0 w = (Ok (Some x), w\<lparr>runners := (runners w)(0 \<mapsto> r\<lparr>event_queues := [xs, [], [], []]\<rparr>)\<rparr>)"
      using that(2) by (simp add: try_pop_eq [OF that(1)])
    then have "pop_first 0 [0..<4] w = (Ok (Some x), w\<lparr>runners := (runners w)(0 \<mapsto> r\<lparr>event_queues := [xs, [], [], []]\<rparr>)\<rparr>)"
      unfolding upt_4 by (simp add: bnd_def ret_apply)
    ultimately show ?thesis
      using that by (simp add: take_next_def next_event_def bnd_def try_pop_rewake_eq [OF that(1)] prog_simps
          NUM_EVENT_PRIORITIES_def set_runner_def)
  qed
  have re: "run_event poll_done 0 0 w = (Ok (), w\<lparr>runners := (runners w)(0 \<mapsto> r\<lparr>clock := clock r + 1, pending_events := pending_events r - {0}\<rparr>)\<rparr>)"
    if "runners w 0 = Some r" "ev_store w = [?ev 0, ?ev 1]" "0 \<in> pending_events r" "clock r = 0" for w r
    using that by (subst run_event_eq [OF that(1)]) (simp_all add: poll_event_def poll_done_def ev_eval)
  obtain w' r' where it: "iterations poll_done 0 1 ?w = (Ok (), w')" "runners w' 0 = Some r'" "event_queues r' = [[1], [], [], []]"
    "rewake_store w' ! rewake_queue r' = []"
    by (simp add: run_iteration_def bnd_def tk re set_runner_def prog_simps)
  obtain w'' where t: "take_next 0 w' = (Ok (Some 1), w'')" using tk [OF it(2) _ it(4), of 1 "[]"] it(3) by blast
  have "iterations poll_done 0 (length [0 :: nat]) ?w = (Ok (), w')" using it(1) by simp
  from highest_queue_is_fifo [OF _ _ _ _ _ this t, of "?q [0, 1] 0" 1 "[]"] it(1) t show ?thesis
    by (auto simp: never_wakes_def poll_done_def)
qed

section \<open>Starvation\<close>

text \<open>One pass with an event that is woken and wakes itself again while it is polled.\<close>

lemma self_waking_iteration:
  assumes r: "runners w c = Some r" "length (event_queues r) = 4" "rewake_store w ! rewake_queue r = [k]"
    "rewake_queue r < length (rewake_store w)" "clock r + 1 < 2 ^ 64" "eid (ev_store w ! k) \<in> pending_events r"
    and k: "k < length (ev_store w)" "ev_rewake_queue (ev_store w ! k) = rewake_queue r" "priority (ev_store w ! k) < 4"
    and poll: "poll k (ev_future (ev_store w ! k)) = (False, f, [Wake k])"
  shows "run_iteration poll c w = (Ok (), w\<lparr>ev_store := (ev_store w)[k := (ev_store w ! k)\<lparr>ev_future := f\<rparr>],
    runners := (runners w)(c \<mapsto> r\<lparr>clock := clock r + 1, current_event := None, event_queues :=
      (event_queues r)[priority (ev_store w ! k) := event_queues r ! priority (ev_store w ! k) @ [k]]\<rparr>)\<rparr>)"
proof -
  let ?q = "rewake_queue r" and ?p = "priority (ev_store w ! k)" and ?ev = "(ev_store w ! k)\<lparr>ev_future := f\<rparr>"
  let ?w1 = "w\<lparr>rewake_store := (rewake_store w)[?q := []], runners := (runners w)(c \<mapsto> r\<lparr>current_event := Some k\<rparr>)\<rparr>"
  have t: "take_next c w = (Ok (Some k), ?w1)"
    using r by (simp add: take_next_def next_event_def bnd_def try_pop_rewake_eq [OF r(1)] prog_simps set_runner_def)
  let ?w2 = "?w1\<lparr>runners := (runners w)(c \<mapsto> r\<lparr>current_event := Some k, clock := clock r + 1\<rparr>)\<rparr>"
  have same: "(rewake_store w)[?q := [k]] = rewake_store w" using r(3) by (metis list_update_id)
  have pe: "poll_event poll k ?w2 = (Ok False, ?w2\<lparr>ev_store := (ev_store w)[k := ?ev], rewake_store := rewake_store w\<rparr>)"
    using k r(4) poll same
    by (simp add: poll_event_def bnd_def get_event_eq set_event_def prog_simps wake_by_ref_def)
  have "run_event poll c k ?w1 = (Ok (), w\<lparr>ev_store := (ev_store w)[k := ?ev], runners := (runners w)(c \<mapsto>
      r\<lparr>clock := clock r + 1, current_event := Some k, event_queues := (event_queues r)[?p := event_queues r ! ?p @ [k]]\<rparr>)\<rparr>)"
    using r k pe by (subst run_event_eq [of ?w1 c "r\<lparr>current_event := Some k\<rparr>"])
      (simp_all add: bnd_def get_event_eq enqueue_def get_runner_def prog_simps index_at_def set_runner_def, cases r, simp)
  then show ?thesis using t by (simp add: run_iteration_def bnd_def set_runner_def prog_simps) (cases r, simp)
qed

text \<open>C36: Waking is not fair: an event whose future always wakes itself and stays pending is polled in every pass of
  its core, no other event is polled, and each pass leaves one more reference to it in its queue.\<close>

theorem self_waking_event_starves_others:
  assumes "runners w c = Some r" "length (event_queues r) = 4" "rewake_store w ! rewake_queue r = [k]"
    and "rewake_queue r < length (rewake_store w)" "clock r + n < 2 ^ 64" "eid (ev_store w ! k) \<in> pending_events r"
    and "k < length (ev_store w)" "ev_rewake_queue (ev_store w ! k) = rewake_queue r" "priority (ev_store w ! k) = p" "p < 4"
    and "\<forall>f. \<exists>g. poll k f = (False, g, [Wake k])"
  shows "\<exists>w' r'. iterations poll c n w = (Ok (), w') \<and> runners w' c = Some r' \<and> clock r' = clock r + n
    \<and> (\<forall>j. j \<noteq> k \<longrightarrow> ev_store w' ! j = ev_store w ! j)
    \<and> event_queues r' = (event_queues r)[p := event_queues r ! p @ replicate n k]"
  using assms(1-10)
proof (induction n arbitrary: w r)
  case 0
  then show ?case by (auto simp: ret_apply)
next
  case (Suc n)
  obtain f where f: "poll k (ev_future (ev_store w ! k)) = (False, f, [Wake k])" using assms(11) by blast
  let ?r = "r\<lparr>clock := clock r + 1, current_event := None, event_queues := (event_queues r)[p := event_queues r ! p @ [k]]\<rparr>"
  let ?w = "w\<lparr>ev_store := (ev_store w)[k := (ev_store w ! k)\<lparr>ev_future := f\<rparr>], runners := (runners w)(c \<mapsto> ?r)\<rparr>"
  have it: "run_iteration poll c w = (Ok (), ?w)"
    using self_waking_iteration [where poll = poll, OF Suc.prems(1-4) _ Suc.prems(6-8) _ f] Suc.prems(5,9,10) by simp
  obtain w' r' where w': "iterations poll c n ?w = (Ok (), w')" "runners w' c = Some r'" "clock r' = clock ?r + n"
    "\<forall>j. j \<noteq> k \<longrightarrow> ev_store w' ! j = ev_store ?w ! j"
    "event_queues r' = (event_queues ?r)[p := event_queues ?r ! p @ replicate n k]"
    using Suc.IH [of ?w ?r] Suc.prems by auto
  show ?case
    using it w' Suc.prems(2,10) by (intro exI [of _ w'] exI [of _ r']) (auto simp: bnd_def)
qed

theorem self_waking_event_starves_others_witness:
  "\<exists>(w :: bool ev_world) w' r'. iterations (\<lambda>e f. (False, f, [Wake 0])) 0 9 w = (Ok (), w') \<and> runners w' 0 = Some r'
    \<and> ev_future (ev_store w' ! 1) = ev_future (ev_store w ! 1) \<and> length (event_queues r' ! 3) = 9"
proof -
  let ?r = "\<lparr>event_queues = [[1], [], [], []], rewake_queue = 0, pending_events = {0, 1}, current_event = None, clock = 0\<rparr>"
  let ?ev = "\<lambda>i p. \<lparr>eid = i, pid = 0, ev_future = False, ev_rewake_queue = 0, priority = p, scheduled_clock = 0\<rparr>"
  let ?w = "\<lparr>next_id = 2, ev_store = [?ev 0 3, ?ev 1 0], rewake_store = [[0]], runners = [0 \<mapsto> ?r]\<rparr>"
  have "\<exists>w' r'. iterations (\<lambda>e f. (False, f, [Wake 0])) 0 9 ?w = (Ok (), w') \<and> runners w' 0 = Some r' \<and> clock r' = clock ?r + 9
    \<and> (\<forall>j. j \<noteq> 0 \<longrightarrow> ev_store w' ! j = ev_store ?w ! j)
    \<and> event_queues r' = (event_queues ?r)[3 := event_queues ?r ! 3 @ replicate 9 0]"
    by (rule self_waking_event_starves_others) auto
  then obtain w' r' where "iterations (\<lambda>e f. (False, f, [Wake 0])) 0 9 ?w = (Ok (), w')" "runners w' 0 = Some r'"
    "ev_store w' ! 1 = ev_store ?w ! 1" "event_queues r' = (event_queues ?r)[3 := event_queues ?r ! 3 @ replicate 9 0]"
    by (metis one_neq_zero)
  then show ?thesis by (intro exI [of _ ?w] exI [of _ w'] exI [of _ r']) simp
qed

end
