(* ===== verification/Boot_Init.thy ===== *)
theory Boot_Init
  imports Kernel_Prelude
begin

text \<open>
  Bringing up the cores (\<open>init.rs\<close>) as an interleaving of the boot core and the application cores.

  The state has the two atomics \<open>CPU_COUNT\<close> and \<open>BOOT_COMPLETE\<close>, the program point of each core, and the lock of
  \<open>EVENT_RUNNERS\<close> (\<open>events/mod.rs\<close>): \<open>register_event_runner\<close> takes it for writing and releases it,
  \<open>schedule_process\<close> takes it for reading and releases it, and \<open>run_loop\<close> takes it for reading and, since it
  never returns, keeps it.  A spinning writer acquires the lock only when nobody holds it.  The set-up of
  interrupts, memory, devices and logging is one step of the core that does it.
\<close>

section \<open>Cores\<close>

text \<open>\<open>Entering\<close>: at the entry point (the boot core: \<open>init\<close>).  \<open>Counted\<close>: an application core that has incremented
  \<open>CPU_COUNT\<close> and initialises its interrupts, memory and logging.  \<open>Waiting\<close>: spinning on \<open>BOOT_COMPLETE\<close> (the
  boot core: on \<open>CPU_COUNT\<close>).  \<open>Registering\<close>: calling \<open>register_event_runner\<close>.  \<open>Registered\<close>: the runner
  exists.  \<open>Looping\<close>: in \<open>run_loop\<close>.\<close>

datatype core_phase = Entering | Counted | Waiting | Registering | Registered | Looping

record boot_state =
  cpu_count :: nat
  boot_complete :: bool
  phase :: "nat \<Rightarrow> core_phase"

text \<open>Cores are numbered; core 0 is the boot core and there are \<open>n\<close> of them.  The lock is free for a writer
  when no core is in its loop.\<close>

definition runners_unlocked :: "nat \<Rightarrow> boot_state \<Rightarrow> bool" where
  "runners_unlocked n s \<longleftrightarrow> (\<forall>c < n. phase s c \<noteq> Looping)"

definition move :: "nat \<Rightarrow> core_phase \<Rightarrow> boot_state \<Rightarrow> boot_state" where
  "move c p s = s\<lparr>phase := (phase s)(c := p)\<rparr>"

inductive boot_step :: "nat \<Rightarrow> boot_state \<Rightarrow> boot_state \<Rightarrow> bool" for n where
  bsp_init: "phase s 0 = Entering \<Longrightarrow> boot_step n s (move 0 Waiting s)"
| bsp_wake: "phase s 0 = Waiting \<Longrightarrow> \<not> cpu_count s < n - 1 \<Longrightarrow> boot_step n s (move 0 Registering (s\<lparr>boot_complete := True\<rparr>))"
| ap_count: "0 < c \<Longrightarrow> c < n \<Longrightarrow> phase s 0 \<noteq> Entering \<Longrightarrow> phase s c = Entering
    \<Longrightarrow> boot_step n s (move c Counted (s\<lparr>cpu_count := cpu_count s + 1\<rparr>))"
| ap_init: "0 < c \<Longrightarrow> c < n \<Longrightarrow> phase s c = Counted \<Longrightarrow> boot_step n s (move c Waiting s)"
| ap_go: "0 < c \<Longrightarrow> c < n \<Longrightarrow> phase s c = Waiting \<Longrightarrow> boot_complete s \<Longrightarrow> boot_step n s (move c Registering s)"
| register: "c < n \<Longrightarrow> phase s c = Registering \<Longrightarrow> runners_unlocked n s \<Longrightarrow> boot_step n s (move c Registered s)"
| run_loop: "c < n \<Longrightarrow> phase s c = Registered \<Longrightarrow> boot_step n s (move c Looping s)"

definition boot_start :: boot_state where
  "boot_start = \<lparr>cpu_count = 0, boot_complete = False, phase = (\<lambda>_. Entering)\<rparr>"

abbreviation boot_steps :: "nat \<Rightarrow> boot_state \<Rightarrow> boot_state \<Rightarrow> bool" where
  "boot_steps n \<equiv> (boot_step n)\<^sup>*\<^sup>*"

lemma move_simps [simp]:
  "phase (move c p s) d = (if d = c then p else phase s d)" "cpu_count (move c p s) = cpu_count s"
  "boot_complete (move c p s) = boot_complete s"
  by (simp_all add: move_def)

section \<open>The boot barrier\<close>

text \<open>\<open>CPU_COUNT\<close> is the number of application cores past their first instruction, and no core is past the
  barrier before \<open>BOOT_COMPLETE\<close>.\<close>

definition bringup_inv :: "nat \<Rightarrow> boot_state \<Rightarrow> bool" where
  "bringup_inv n s \<longleftrightarrow> cpu_count s = card {c. 0 < c \<and> c < n \<and> phase s c \<noteq> Entering}
     \<and> (boot_complete s \<longrightarrow> (\<forall>c. 0 < c \<and> c < n \<longrightarrow> phase s c \<noteq> Entering))
     \<and> (\<forall>c < n. phase s c \<in> {Registering, Registered, Looping} \<longrightarrow> boot_complete s)"

lemma counted_insert:
  assumes "0 < c" "c < n" "phase s c = Entering" "p \<noteq> Entering"
  shows "card {d. 0 < d \<and> d < n \<and> phase (move c p s) d \<noteq> Entering} = Suc (card {d. 0 < d \<and> d < n \<and> phase s d \<noteq> Entering})"
proof -
  have "{d. 0 < d \<and> d < n \<and> phase (move c p s) d \<noteq> Entering} = insert c {d. 0 < d \<and> d < n \<and> phase s d \<noteq> Entering}"
    using assms by auto
  then show ?thesis using assms by simp
qed

lemma counted_same:
  assumes "c = 0 \<or> phase s c \<noteq> Entering" "p \<noteq> Entering"
  shows "{d. 0 < d \<and> d < n \<and> phase (move c p s) d \<noteq> Entering} = {d. 0 < d \<and> d < n \<and> phase s d \<noteq> Entering}"
  using assms by auto

lemma all_counted:
  assumes "n - 1 \<le> card {c. 0 < c \<and> c < n \<and> phase s c \<noteq> Entering}" "0 < c" "c < n"
  shows "phase s c \<noteq> Entering"
proof
  let ?A = "{d. 0 < d \<and> d < n \<and> phase s d \<noteq> Entering}"
  assume e: "phase s c = Entering"
  have "?A \<subseteq> {1..<n} - {c}"
  proof
    fix d assume "d \<in> ?A"
    then have "0 < d" "d < n" "d \<noteq> c" using e by auto
    then show "d \<in> {1..<n} - {c}" by simp
  qed
  then have "card ?A \<le> card ({1..<n} - {c})" by (rule card_mono [rotated]) simp
  moreover have "card ({1..<n} - {c}) = n - 1 - 1" using assms(2,3) by (subst card_Diff_singleton) simp_all
  ultimately show False using assms by linarith
qed

lemma inv_move:
  assumes "bringup_inv n s" "c = 0 \<or> phase s c \<noteq> Entering" "p \<noteq> Entering"
    and "p \<in> {Registering, Registered, Looping} \<Longrightarrow> boot_complete s"
  shows "bringup_inv n (move c p s)"
  unfolding bringup_inv_def
proof (intro conjI)
  show "cpu_count (move c p s) = card {d. 0 < d \<and> d < n \<and> phase (move c p s) d \<noteq> Entering}"
    using assms(1) counted_same [OF assms(2,3)] by (simp add: bringup_inv_def)
  show "boot_complete (move c p s) \<longrightarrow> (\<forall>d. 0 < d \<and> d < n \<longrightarrow> phase (move c p s) d \<noteq> Entering)"
    using assms(1,3) by (simp add: bringup_inv_def)
  show "\<forall>d < n. phase (move c p s) d \<in> {Registering, Registered, Looping} \<longrightarrow> boot_complete (move c p s)"
    using assms(1,4) by (auto simp: bringup_inv_def)
qed

lemma boot_step_inv:
  assumes "boot_step n s s'" "bringup_inv n s"
  shows "bringup_inv n s'"
  using assms(1)
proof cases
  case bsp_init
  then show ?thesis using inv_move [OF assms(2), of 0 Waiting] by simp
next
  case bsp_wake
  have "n - 1 \<le> card {c. 0 < c \<and> c < n \<and> phase s c \<noteq> Entering}" using bsp_wake assms(2) by (simp add: bringup_inv_def)
  from all_counted [OF this] have "bringup_inv n (s\<lparr>boot_complete := True\<rparr>)" using assms(2) by (simp add: bringup_inv_def)
  then show ?thesis using inv_move [of n _ 0 Registering] bsp_wake by simp
next
  case (ap_count c)
  let ?s = "s\<lparr>cpu_count := cpu_count s + 1\<rparr>"
  have "cpu_count (move c Counted ?s) = card {d. 0 < d \<and> d < n \<and> phase (move c Counted ?s) d \<noteq> Entering}"
    by (subst counted_insert) (use ap_count assms(2) in \<open>simp_all add: bringup_inv_def\<close>)
  moreover have "boot_complete s \<longrightarrow> (\<forall>d. 0 < d \<and> d < n \<longrightarrow> phase (move c Counted ?s) d \<noteq> Entering)"
    "\<forall>d < n. phase (move c Counted ?s) d \<in> {Registering, Registered, Looping} \<longrightarrow> boot_complete s"
    using assms(2) by (auto simp: bringup_inv_def)
  ultimately show ?thesis unfolding ap_count(1) bringup_inv_def by simp
next
  case (ap_init c)
  then show ?thesis using inv_move [OF assms(2), of c Waiting] by simp
next
  case (ap_go c)
  then show ?thesis using inv_move [OF assms(2), of c Registering] by simp
next
  case (register c)
  then show ?thesis using inv_move [OF assms(2), of c Registered] assms(2) by (simp add: bringup_inv_def)
next
  case (run_loop c)
  then show ?thesis using inv_move [OF assms(2), of c Looping] assms(2) by (simp add: bringup_inv_def)
qed

lemma boot_reach_inv: "boot_steps n boot_start s \<Longrightarrow> bringup_inv n s"
proof (induction rule: rtranclp_induct)
  case base
  show ?case by (simp add: bringup_inv_def boot_start_def)
next
  case (step s s')
  then show ?case using boot_step_inv by blast
qed

section \<open>Entering the event loop\<close>

text \<open>A core in its loop keeps the lock for ever.\<close>

lemma looping_stays:
  assumes "boot_step n s s'" "phase s c = Looping"
  shows "phase s' c = Looping"
  using assms by cases (auto intro!: gr0I)

lemma registering_stays:
  assumes "boot_step n s s'" "phase s c = Looping" "c < n" "phase s d = Registering"
  shows "phase s' d = Registering"
  using assms(1)
proof cases
  case (register e)
  then show ?thesis using assms(2,3) unfolding runners_unlocked_def by blast
qed (use assms in \<open>auto intro!: gr0I\<close>)

text \<open>C37: Cores do not all reach the event loop: once one core is in \<open>run_loop\<close>, a core that has not registered its
  runner yet waits for the lock of \<open>EVENT_RUNNERS\<close> for ever.  No core passes the boot barrier before every
  application core has started.\<close>

theorem late_core_never_registers:
  assumes "boot_steps n boot_start s" "c < n" "phase s c = Looping" "phase s d = Registering" "boot_steps n s s'"
  shows "phase s' d = Registering \<and> phase s' c = Looping \<and> (\<forall>e. 0 < e \<and> e < n \<longrightarrow> phase s e \<noteq> Entering)"
proof -
  have "phase s' d = Registering \<and> phase s' c = Looping"
    using assms(5,3,4)
  proof (induction rule: rtranclp_induct)
    case (step y z)
    then show ?case using looping_stays [OF step.hyps(2)] registering_stays [OF step.hyps(2) _ assms(2)] by simp
  qed simp
  moreover have "boot_complete s" "bringup_inv n s"
    using boot_reach_inv [OF assms(1)] assms(2,3) by (auto simp: bringup_inv_def)
  then have "\<forall>e. 0 < e \<and> e < n \<longrightarrow> phase s e \<noteq> Entering" by (simp add: bringup_inv_def)
  ultimately show ?thesis by simp
qed

text \<open>With two cores: the application core is in its loop, the boot core has not registered.\<close>

definition boot_stuck :: boot_state where
  "boot_stuck = move 1 Looping (move 1 Registered (move 1 Registering (move 1 Waiting (move 0 Registering
     ((move 1 Counted ((move 0 Waiting boot_start)\<lparr>cpu_count := 1\<rparr>))\<lparr>boot_complete := True\<rparr>)))))"

lemma boot_stuck_reached: "boot_steps 2 boot_start boot_stuck"
proof -
  let ?a = "move 0 Waiting boot_start"
  let ?b = "move 1 Counted (?a\<lparr>cpu_count := cpu_count ?a + 1\<rparr>)"
  let ?c = "move 0 Registering (?b\<lparr>boot_complete := True\<rparr>)"
  let ?d = "move 1 Waiting ?c" let ?e = "move 1 Registering ?d" let ?f = "move 1 Registered ?e"
  have "boot_step 2 boot_start ?a" by (rule bsp_init) (simp add: boot_start_def)
  moreover have "boot_step 2 ?a ?b" by (rule ap_count) (simp_all add: boot_start_def)
  moreover have "boot_step 2 ?b ?c" by (rule bsp_wake) (simp_all add: boot_start_def)
  moreover have "boot_step 2 ?c ?d" by (rule ap_init) simp_all
  moreover have "boot_step 2 ?d ?e" by (rule ap_go) simp_all
  ultimately have s: "boot_step 2 boot_start ?a" "boot_step 2 ?a ?b" "boot_step 2 ?b ?c" "boot_step 2 ?c ?d" "boot_step 2 ?d ?e"
    by - assumption+
  have "boot_step 2 ?e ?f"
    by (rule register) (auto simp: runners_unlocked_def less_2_cases_iff boot_start_def)
  moreover have "boot_step 2 ?f (move 1 Looping ?f)" by (rule run_loop) simp_all
  ultimately have t: "boot_step 2 ?e ?f" "boot_step 2 ?f (move 1 Looping ?f)" by - assumption+
  have "boot_steps 2 boot_start (move 1 Looping ?f)"
    using r_into_rtranclp [of "boot_step 2", OF s(1), THEN rtranclp.rtrancl_into_rtrancl, OF s(2), THEN rtranclp.rtrancl_into_rtrancl, OF s(3),
        THEN rtranclp.rtrancl_into_rtrancl, OF s(4), THEN rtranclp.rtrancl_into_rtrancl, OF s(5),
        THEN rtranclp.rtrancl_into_rtrancl, OF t(1), THEN rtranclp.rtrancl_into_rtrancl, OF t(2)] .
  moreover have "move 1 Looping ?f = boot_stuck" by (simp add: boot_stuck_def boot_start_def move_def)
  ultimately show ?thesis by simp
qed

theorem late_core_never_registers_witness:
  "boot_steps 2 boot_start boot_stuck \<and> Collect (boot_steps 2 boot_stuck) \<subseteq> {s. phase s 0 = Registering}"
proof -
  have "phase boot_stuck 1 = Looping" "phase boot_stuck 0 = Registering" by (simp_all add: boot_stuck_def)
  then show ?thesis
    using late_core_never_registers [OF boot_stuck_reached, of 1 0] boot_stuck_reached by auto
qed

end
