(* ===== verification/Context_Switch.thy ===== *)
theory Context_Switch
  imports Kernel_Prelude
begin

text \<open>
  Switching between a process and the kernel: the assembly of \<open>processes/process.rs\<close> (\<open>call_process\<close>,
  \<open>return_process\<close>) and of \<open>interrupts/idt.rs\<close> (\<open>naked_timer_handler\<close>, \<open>naked_syscall_handler\<close>), and the saved
  registers of \<open>processes/registers.rs\<close>.

  The listings of the source are lists of instructions, executed by a small model of the processor: general
  registers, instruction pointer, flags, segment selectors, and a memory of 8-byte cells (every access of the
  listings but one is 8 bytes wide and aligned; the byte that holds the state of a process is a cell of its
  own).
\<close>

section \<open>The processor\<close>

datatype reg = RAX | RBX | RCX | RDX | RSI | RDI | R8 | R9 | R10 | R11 | R12 | R13 | R14 | R15 | RBP | RSP

record cpu =
  regs :: "reg \<Rightarrow> u64"
  rip :: u64
  rflags :: u64
  cs :: u64
  ss :: u64
  mem :: "u64 \<Rightarrow> u64"
  mem_byte :: "u64 \<Rightarrow> u8"
  interrupts_on :: bool

datatype instr = Push reg | Pop reg | Mov reg reg | Load reg reg nat | Store reg reg | StoreByte reg u8
  | Cli | Sti | Cld | Ret | Iretq

definition put_reg :: "reg \<Rightarrow> u64 \<Rightarrow> cpu \<Rightarrow> cpu" where
  "put_reg r v s = s\<lparr>regs := (regs s)(r := v)\<rparr>"

definition push :: "u64 \<Rightarrow> cpu \<Rightarrow> cpu" where
  "push v s = (let a = regs s RSP - 8 in s\<lparr>regs := (regs s)(RSP := a), mem := (mem s)(a := v)\<rparr>)"

definition top :: "cpu \<Rightarrow> u64" where
  "top s = mem s (regs s RSP)"

definition drop_top :: "cpu \<Rightarrow> cpu" where
  "drop_top s = s\<lparr>regs := (regs s)(RSP := regs s RSP + 8)\<rparr>"

text \<open>\<open>iretq\<close> to user mode takes the instruction pointer, the code segment, the flags, the stack pointer and the stack
  segment from the stack.\<close>

definition iretq :: "cpu \<Rightarrow> cpu" where
  "iretq s = (let s1 = drop_top s; s2 = drop_top s1; s3 = drop_top s2; s4 = drop_top s3
     in put_reg RSP (top s3) (s\<lparr>rip := top s, cs := top s1, rflags := top s2, ss := top s4\<rparr>))"

fun step :: "instr \<Rightarrow> cpu \<Rightarrow> cpu" where
  "step (Push r) s = push (regs s r) s"
| "step (Pop r) s = put_reg r (top s) (drop_top s)"
| "step (Mov d r) s = put_reg d (regs s r) s"
| "step (Load d b off) s = put_reg d (mem s (regs s b + of_nat off)) s"
| "step (Store b r) s = s\<lparr>mem := (mem s)(regs s b := regs s r)\<rparr>"
| "step (StoreByte b v) s = s\<lparr>mem_byte := (mem_byte s)(regs s b := v)\<rparr>"
| "step Cli s = s\<lparr>interrupts_on := False\<rparr>"
| "step Sti s = s\<lparr>interrupts_on := True\<rparr>"
| "step Cld s = s"
| "step Ret s = (drop_top s)\<lparr>rip := top s\<rparr>"
| "step Iretq s = iretq s"

fun exec :: "instr list \<Rightarrow> cpu \<Rightarrow> cpu" where
  "exec [] s = s"
| "exec (i # is) s = exec is (step i s)"

text \<open>An interrupt that arrives in user mode switches to the stack of the task state segment and pushes the frame that
  \<open>iretq\<close> takes.\<close>

definition interrupt_entry :: "u64 \<Rightarrow> cpu \<Rightarrow> cpu" where
  "interrupt_entry rsp0 s =
    (push (rip s) (push (cs s) (push (rflags s) (push (regs s RSP) (push (ss s) (put_reg RSP rsp0 s))))))\<lparr>interrupts_on := False\<rparr>"

section \<open>The listings\<close>

text \<open>\<open>processes/process.rs\<close>, \<open>call_process\<close>: save the registers of the kernel, publish the stack pointer through \<open>rcx\<close>,
  build the frame for \<open>iretq\<close>, mark the process as running, load its registers and enter it.\<close>

definition call_process :: "instr list" where
  "call_process =
    [Push RBP, Push R15, Push R14, Push R13, Push R12, Push R11, Push R10, Push R9, Push R8, Push RDI, Push RSI, Push RBX,
     Mov R11 RSP, Store RCX R11,
     Push RSI, Load RAX RDI 120, Push RAX, Load RAX RDI 136, Push RAX, Push RDX, Load RAX RDI 128, Push RAX,
     StoreByte R8 2,
     Load RAX RDI 0, Load RBX RDI 8, Load RCX RDI 16, Load RDX RDI 24, Load RSI RDI 32, Load R8 RDI 48, Load R9 RDI 56,
     Load R10 RDI 64, Load R11 RDI 72, Load R12 RDI 80, Load R13 RDI 88, Load R14 RDI 96, Load R15 RDI 104, Load RBP RDI 112,
     Load RDI RDI 40, Sti, Iretq]"

text \<open>\<open>return_process\<close>.\<close>

definition return_process :: "instr list" where
  "return_process =
    [Cli, Pop RBX, Pop RSI, Pop RDI, Pop R8, Pop R9, Pop R10, Pop R11, Pop R12, Pop R13, Pop R14, Pop R15, Pop RBP, Ret]"

text \<open>\<open>interrupts/idt.rs\<close>: what \<open>naked_timer_handler\<close> does before and after calling \<open>timer_handler\<close>, and what
  \<open>naked_syscall_handler\<close> does around \<open>syscall_handler\<close>.\<close>

definition timer_entry :: "instr list" where
  "timer_entry =
    [Push RBP, Push R15, Push R14, Push R13, Push R12, Push R11, Push R10, Push R9, Push R8, Push RDI, Push RSI, Push RDX,
     Push RCX, Push RBX, Push RAX, Cld, Mov RDI RSP]"

definition timer_exit :: "instr list" where
  "timer_exit =
    [Pop RAX, Pop RBX, Pop RCX, Pop RDX, Pop RSI, Pop RDI, Pop R8, Pop R9, Pop R10, Pop R11, Pop R12, Pop R13, Pop R14, Pop R15,
     Pop RBP, Iretq]"

definition syscall_entry :: "instr list" where
  "syscall_entry = [Push RAX, Push RDI, Push RSI, Push RDX, Push RCX, Push R8, Push R9, Mov RDI RSP]"

definition syscall_exit :: "instr list" where
  "syscall_exit = [Pop R9, Pop R8, Pop RCX, Pop RDX, Pop RSI, Pop RDI, Pop RAX, Iretq]"

section \<open>Saved registers\<close>

record registers =
  r_rax :: u64
  r_rbx :: u64
  r_rcx :: u64
  r_rdx :: u64
  r_rsi :: u64
  r_rdi :: u64
  r_r8 :: u64
  r_r9 :: u64
  r_r10 :: u64
  r_r11 :: u64
  r_r12 :: u64
  r_r13 :: u64
  r_r14 :: u64
  r_r15 :: u64
  r_rbp :: u64
  r_rsp :: u64
  r_rip :: u64
  r_rflags :: u64

definition registers_new :: registers where
  "registers_new = \<lparr>r_rax = 0, r_rbx = 0, r_rcx = 0, r_rdx = 0, r_rsi = 0, r_rdi = 0, r_r8 = 0, r_r9 = 0, r_r10 = 0,
     r_r11 = 0, r_r12 = 0, r_r13 = 0, r_r14 = 0, r_r15 = 0, r_rbp = 0, r_rsp = 0, r_rip = 0, r_rflags = 0\<rparr>"

text \<open>\<open>repr(C)\<close>: the fields in order, 8 bytes each.\<close>

definition registers_at :: "(u64 \<Rightarrow> u64) \<Rightarrow> u64 \<Rightarrow> registers" where
  "registers_at m p = \<lparr>r_rax = m p, r_rbx = m (p + 8), r_rcx = m (p + 16), r_rdx = m (p + 24), r_rsi = m (p + 32),
     r_rdi = m (p + 40), r_r8 = m (p + 48), r_r9 = m (p + 56), r_r10 = m (p + 64), r_r11 = m (p + 72), r_r12 = m (p + 80),
     r_r13 = m (p + 88), r_r14 = m (p + 96), r_r15 = m (p + 104), r_rbp = m (p + 112), r_rsp = m (p + 120),
     r_rip = m (p + 128), r_rflags = m (p + 136)\<rparr>"

text \<open>The part of \<open>timer_handler\<close> that saves the interrupted context, from the stack at \<open>rsp\<close>.\<close>

definition save_registers :: "(u64 \<Rightarrow> u64) \<Rightarrow> u64 \<Rightarrow> registers" where
  "save_registers m rsp = (let stack_ptr = (\<lambda>i. m (rsp + of_nat (8 * i))) in
     \<lparr>r_rax = stack_ptr 0, r_rbx = stack_ptr 1, r_rcx = stack_ptr 2, r_rdx = stack_ptr 3, r_rsi = stack_ptr 4,
      r_rdi = stack_ptr 5, r_r8 = stack_ptr 6, r_r9 = stack_ptr 7, r_r10 = stack_ptr 8, r_r11 = stack_ptr 9,
      r_r12 = stack_ptr 10, r_r13 = stack_ptr 11, r_r14 = stack_ptr 12, r_r15 = stack_ptr 13, r_rbp = stack_ptr 14,
      r_rsp = stack_ptr 18, r_rip = stack_ptr 15, r_rflags = stack_ptr 17\<rparr>)"

text \<open>The context of a process that a processor runs.\<close>

definition context_of :: "cpu \<Rightarrow> registers" where
  "context_of s = \<lparr>r_rax = regs s RAX, r_rbx = regs s RBX, r_rcx = regs s RCX, r_rdx = regs s RDX, r_rsi = regs s RSI,
     r_rdi = regs s RDI, r_r8 = regs s R8, r_r9 = regs s R9, r_r10 = regs s R10, r_r11 = regs s R11, r_r12 = regs s R12,
     r_r13 = regs s R13, r_r14 = regs s R14, r_r15 = regs s R15, r_rbp = regs s RBP, r_rsp = regs s RSP,
     r_rip = rip s, r_rflags = rflags s\<rparr>"

section \<open>The stack as a list\<close>

text \<open>\<open>peek s k\<close> is the cell \<open>k\<close> below the top of the stack.\<close>

definition peek :: "cpu \<Rightarrow> nat \<Rightarrow> u64" where
  "peek s k = mem s (regs s RSP + of_nat (8 * k))"

lemma slot_distinct:
  fixes a :: u64
  assumes "k < 2 ^ 60"
  shows "a + of_nat (8 * k) \<noteq> a - 8"
proof
  assume "a + of_nat (8 * k) = a - 8"
  then have "of_nat (8 * k) + (8 :: u64) = 0" by (simp add: algebra_simps eq_diff_eq)
  then have "(of_nat (8 * k + 8) :: u64) = 0" by simp
  then have "2 ^ LENGTH(64) dvd 8 * k + 8" by (simp only: word_of_nat_eq_0_iff)
  then have "2 ^ 64 \<le> 8 * k + 8" using dvd_imp_le [of "2 ^ LENGTH(64)" "8 * k + 8"] by simp
  then show False using assms by simp
qed

lemma machine_simps [simp]:
  "regs (put_reg r v s) = (regs s)(r := v)" "mem (put_reg r v s) = mem s" "mem_byte (put_reg r v s) = mem_byte s"
  "rip (put_reg r v s) = rip s" "rflags (put_reg r v s) = rflags s" "cs (put_reg r v s) = cs s" "ss (put_reg r v s) = ss s"
  "regs (push v s) = (regs s)(RSP := regs s RSP - 8)" "mem_byte (push v s) = mem_byte s"
  "rip (push v s) = rip s" "rflags (push v s) = rflags s" "cs (push v s) = cs s" "ss (push v s) = ss s"
  "regs (drop_top s) = (regs s)(RSP := regs s RSP + 8)" "mem (drop_top s) = mem s" "mem_byte (drop_top s) = mem_byte s"
  "rip (drop_top s) = rip s" "rflags (drop_top s) = rflags s" "cs (drop_top s) = cs s" "ss (drop_top s) = ss s"
  by (simp_all add: put_reg_def push_def drop_top_def Let_def)

lemma mem_push: "mem (push v s) = (mem s)(regs s RSP - 8 := v)"
  by (simp add: push_def Let_def)

lemma peek_push:
  assumes "k < 2 ^ 60"
  shows "peek (push v s) k = (if k = 0 then v else peek s (k - 1))"
proof (cases k)
  case 0
  then show ?thesis by (simp add: peek_def mem_push)
next
  case (Suc j)
  have "regs s RSP - 8 + of_nat (8 * k) = regs s RSP + of_nat (8 * j)" by (simp add: Suc algebra_simps)
  moreover have "regs s RSP + of_nat (8 * j) \<noteq> regs s RSP - 8" by (rule slot_distinct) (use assms Suc in simp)
  note fun_upd_other [OF this, of "mem s" v]
  ultimately have "peek (push v s) k = mem s (regs s RSP + of_nat (8 * j))" unfolding peek_def mem_push by (simp only: machine_simps fun_upd_same)
  then show ?thesis by (simp only: peek_def Suc) simp
qed

lemma peek_simps:
  "r \<noteq> RSP \<Longrightarrow> peek (put_reg r v s) k = peek s k" "peek (drop_top s) k = peek s (Suc k)" "top s = peek s 0"
  "peek (s\<lparr>rip := a\<rparr>) k = peek s k" "peek (s\<lparr>interrupts_on := b\<rparr>) k = peek s k" "peek (s\<lparr>mem_byte := mb\<rparr>) k = peek s k"
  by (simp_all add: peek_def top_def drop_top_def put_reg_def algebra_simps)

lemma save_registers_peek:
  "save_registers (mem s) (regs s RSP) = \<lparr>r_rax = peek s 0, r_rbx = peek s 1, r_rcx = peek s 2, r_rdx = peek s 3, r_rsi = peek s 4,
     r_rdi = peek s 5, r_r8 = peek s 6, r_r9 = peek s 7, r_r10 = peek s 8, r_r11 = peek s 9, r_r12 = peek s 10, r_r13 = peek s 11,
     r_r14 = peek s 12, r_r15 = peek s 13, r_rbp = peek s 14, r_rsp = peek s 18, r_rip = peek s 15, r_rflags = peek s 17\<rparr>"
  by (simp add: save_registers_def peek_def Let_def)

text \<open>Pushing a list of values: the last one is on top.\<close>

definition pushes :: "u64 list \<Rightarrow> cpu \<Rightarrow> cpu" where
  "pushes vs s = fold push vs s"

lemma pushes_regs [simp]:
  "regs (pushes vs s) = (regs s)(RSP := regs s RSP - of_nat (8 * length vs))"
  "mem_byte (pushes vs s) = mem_byte s" "rip (pushes vs s) = rip s" "rflags (pushes vs s) = rflags s" "cs (pushes vs s) = cs s" "ss (pushes vs s) = ss s"
  unfolding pushes_def by (induction vs arbitrary: s) (auto simp: fun_eq_iff algebra_simps)

lemma peek_pushes:
  assumes "k < 2 ^ 60"
  shows "peek (pushes vs s) k = (if k < length vs then rev vs ! k else peek s (k - length vs))"
  using assms unfolding pushes_def
proof (induction vs arbitrary: s)
  case (Cons v vs)
  then show ?case using peek_push [of "k - length vs" v s] by (auto simp: nth_append)
qed simp

text \<open>Cells that the pushes do not reach keep their value.\<close>

definition above :: "u64 \<Rightarrow> nat \<Rightarrow> u64 \<Rightarrow> bool" where
  "above sp n a \<longleftrightarrow> (\<forall>k. 0 < k \<and> k \<le> n \<longrightarrow> a \<noteq> sp - of_nat (8 * k))"

lemma above_Suc:
  assumes "above sp (Suc n) a"
  shows "a \<noteq> sp - 8" "above (sp - 8) n a"
proof -
  show "a \<noteq> sp - 8" using assms [unfolded above_def, rule_format, of 1] by simp
  show "above (sp - 8) n a" unfolding above_def
  proof (intro allI impI)
    fix k assume "0 < k \<and> k \<le> n"
    then show "a \<noteq> sp - 8 - of_nat (8 * k)"
      using assms [unfolded above_def, rule_format, of "Suc k"] by (simp add: algebra_simps)
  qed
qed

lemma mem_pushes: "above (regs s RSP) (length vs) a \<Longrightarrow> mem (pushes vs s) a = mem s a"
  unfolding pushes_def
proof (induction vs arbitrary: s)
  case (Cons v vs)
  then show ?case using above_Suc [of "regs s RSP" "length vs" a] by (simp add: mem_push)
qed simp

lemma exec_append: "exec (is @ js) s = exec js (exec is s)"
  by (induction "is" arbitrary: s) simp_all

lemma exec_pushes: "RSP \<notin> set rs \<Longrightarrow> exec (map Push rs) s = pushes (map (regs s) rs) s"
  unfolding pushes_def
proof (induction rs arbitrary: s)
  case (Cons r rs)
  then have "map (regs (push (regs s r) s)) rs = map (regs s) rs" by auto
  then show ?case using Cons by simp
qed simp

section \<open>Leaving a process\<close>

lemma interrupt_entry_eq:
  "interrupt_entry rsp0 s = (pushes [ss s, regs s RSP, rflags s, cs s, rip s] (put_reg RSP rsp0 s))\<lparr>interrupts_on := False\<rparr>"
  by (simp add: interrupt_entry_def pushes_def)

lemma timer_entry_eq:
  "timer_entry = map Push [RBP, R15, R14, R13, R12, R11, R10, R9, R8, RDI, RSI, RDX, RCX, RBX, RAX] @ [Cld, Mov RDI RSP]"
  by (simp add: timer_entry_def)

lemma timer_saves_context:
  assumes "s = exec timer_entry (interrupt_entry rsp0 u)"
  shows "save_registers (mem s) (regs s RDI) = context_of u"
proof -
  let ?i = "interrupt_entry rsp0 u" and ?rs = "[RBP, R15, R14, R13, R12, R11, R10, R9, R8, RDI, RSI, RDX, RCX, RBX, RAX]"
  have "exec (map Push ?rs) ?i = pushes (map (regs ?i) ?rs) ?i" by (rule exec_pushes) simp
  then have s: "s = put_reg RDI (regs (pushes (map (regs ?i) ?rs) ?i) RSP) (pushes (map (regs ?i) ?rs) ?i)"
    unfolding assms timer_entry_eq exec_append by (simp only: exec.simps step.simps)
  then have "regs s RDI = regs s RSP" by simp
  moreover have p: "peek s k = peek (pushes (map (regs ?i) ?rs) ?i) k" for k unfolding s by (simp add: peek_simps)
  have "peek ?i k = peek (pushes [ss u, regs u RSP, rflags u, cs u, rip u] (put_reg RSP rsp0 u)) k" for k
    by (simp add: interrupt_entry_eq peek_simps)
  then have "save_registers (mem s) (regs s RSP) = context_of u" unfolding save_registers_peek p
    by (simp add: peek_pushes context_of_def nth_Cons') (simp add: interrupt_entry_eq)
  ultimately show ?thesis by simp
qed

section \<open>Entering a process\<close>

text \<open>The copy of the registers and the cell for the stack pointer of the kernel lie outside the 17 cells below the stack
  pointer that \<open>call_process\<close> writes, and apart from each other.\<close>

definition call_ok :: "cpu \<Rightarrow> bool" where
  "call_ok s \<longleftrightarrow> (\<forall>i < 18. above (regs s RSP) 17 (regs s RDI + of_nat (8 * i)) \<and> regs s RCX \<noteq> regs s RDI + of_nat (8 * i))
     \<and> above (regs s RSP) 17 (regs s RCX) \<and> regs s RCX \<noteq> regs s RSP"

definition kernel_saved :: "reg list" where
  "kernel_saved = [RBP, R15, R14, R13, R12, R11, R10, R9, R8, RDI, RSI, RBX]"

definition frame_code :: "instr list" where
  "frame_code = [Push RSI, Load RAX RDI 120, Push RAX, Load RAX RDI 136, Push RAX, Push RDX, Load RAX RDI 128, Push RAX]"

definition load_code :: "instr list" where
  "load_code = [Load RAX RDI 0, Load RBX RDI 8, Load RCX RDI 16, Load RDX RDI 24, Load RSI RDI 32, Load R8 RDI 48, Load R9 RDI 56,
     Load R10 RDI 64, Load R11 RDI 72, Load R12 RDI 80, Load R13 RDI 88, Load R14 RDI 96, Load R15 RDI 104, Load RBP RDI 112,
     Load RDI RDI 40]"

lemma call_process_eq:
  "call_process = map Push kernel_saved @ [Mov R11 RSP, Store RCX R11] @ frame_code @ [StoreByte R8 2] @ load_code @ [Sti, Iretq]"
  by (simp add: call_process_def kernel_saved_def frame_code_def load_code_def)

lemma above_split:
  assumes "above sp (m + n) a"
  shows "above sp m a" "above (sp - of_nat (8 * m)) n a"
proof -
  show "above sp m a" using assms by (simp add: above_def)
  show "above (sp - of_nat (8 * m)) n a" unfolding above_def
  proof (intro allI impI)
    fix k assume "0 < k \<and> k \<le> n"
    then have "0 < m + k \<and> m + k \<le> m + n" by simp
    from assms [unfolded above_def, rule_format, OF this] have "a \<noteq> sp - of_nat (8 * (m + k))" .
    moreover have "sp - of_nat (8 * m) - of_nat (8 * k) = sp - (of_nat (8 * (m + k)) :: u64)" by (simp add: algebra_simps)
    ultimately show "a \<noteq> sp - of_nat (8 * m) - of_nat (8 * k)" by (simp only: not_False_eq_True)
  qed
qed

text \<open>The stack of the kernel when its stack pointer has been published.\<close>

definition published :: "cpu \<Rightarrow> cpu" where
  "published s = (let t = pushes (map (regs s) kernel_saved) s
     in (put_reg R11 (regs t RSP) t)\<lparr>mem := (mem t)(regs s RCX := regs t RSP)\<rparr>)"

lemma published_exec: "exec (map Push kernel_saved @ [Mov R11 RSP, Store RCX R11]) s = published s"
proof -
  have "exec (map Push kernel_saved) s = pushes (map (regs s) kernel_saved) s" by (rule exec_pushes) (simp add: kernel_saved_def)
  then show ?thesis by (simp add: exec_append published_def Let_def)
qed

lemma published_regs [simp]:
  "regs (published s) = (regs s)(RSP := regs s RSP - 96, R11 := regs s RSP - 96)" "mem_byte (published s) = mem_byte s"
  by (auto simp: published_def Let_def kernel_saved_def fun_eq_iff)

lemma published_mem:
  assumes "call_ok s"
  shows "mem (published s) (regs s RCX) = regs s RSP - 96"
    "i < 18 \<Longrightarrow> mem (published s) (regs s RDI + of_nat (8 * i)) = mem s (regs s RDI + of_nat (8 * i))"
proof -
  have l: "length (map (regs s) kernel_saved) = 12" by (simp add: kernel_saved_def)
  show "mem (published s) (regs s RCX) = regs s RSP - 96" by (simp add: published_def Let_def kernel_saved_def)
  assume "i < 18"
  then have "above (regs s RSP) (12 + 5) (regs s RDI + of_nat (8 * i))" "regs s RCX \<noteq> regs s RDI + of_nat (8 * i)"
    using assms by (auto simp: call_ok_def)
  then show "mem (published s) (regs s RDI + of_nat (8 * i)) = mem s (regs s RDI + of_nat (8 * i))"
    using mem_pushes [of s "map (regs s) kernel_saved"] above_split(1) [of "regs s RSP" 12 5] l
    by (simp add: published_def Let_def del: of_nat_mult)
qed

lemma frame_exec:
  assumes "\<And>i. i \<in> {15, 16, 17} \<Longrightarrow> above (regs s RSP) 5 (regs s RDI + of_nat (8 * i))"
  defines "m \<equiv> \<lambda>i. mem s (regs s RDI + of_nat (8 * i))"
  shows "exec frame_code s = put_reg RAX (m 16) (pushes [regs s RSI, m 15, m 17, regs s RDX, m 16] s)"
proof -
  have a: "above (regs s RSP) 5 (regs s RDI + 120)" "above (regs s RSP) 5 (regs s RDI + 128)" "above (regs s RSP) 5 (regs s RDI + 136)"
    using assms(1) [of 15] assms(1) [of 16] assms(1) [of 17] by simp_all
  have n: "regs s RDI + 120 \<noteq> regs s RSP - 8" "regs s RDI + 136 \<noteq> regs s RSP - 8" "regs s RDI + 136 \<noteq> regs s RSP - 16"
    "regs s RDI + 128 \<noteq> regs s RSP - 8" "regs s RDI + 128 \<noteq> regs s RSP - 16" "regs s RDI + 128 \<noteq> regs s RSP - 24" "regs s RDI + 128 \<noteq> regs s RSP - 32"
    using a [unfolded above_def, rule_format, of 1] a [unfolded above_def, rule_format, of 2]
      a [unfolded above_def, rule_format, of 3] a [unfolded above_def, rule_format, of 4] by simp_all
  show ?thesis using n
    by (simp add: frame_code_def pushes_def m_def mem_push put_reg_def push_def Let_def fun_upd_twist diff_diff_eq)
qed

lemma load_exec:
  defines "m \<equiv> \<lambda>s i. mem s (regs s RDI + of_nat (8 * i))"
  shows "exec load_code s = s\<lparr>regs := (regs s)(RAX := m s 0, RBX := m s 1, RCX := m s 2, RDX := m s 3, RSI := m s 4, R8 := m s 6,
     R9 := m s 7, R10 := m s 8, R11 := m s 9, R12 := m s 10, R13 := m s 11, R14 := m s 12, R15 := m s 13, RBP := m s 14, RDI := m s 5)\<rparr>"
  by (simp add: load_code_def put_reg_def m_def)

lemma registers_at_cells: "registers_at m p = registers_at n p" if "\<And>i. i < 18 \<Longrightarrow> m (p + of_nat (8 * i)) = n (p + of_nat (8 * i))"
  using that [of 0] that [of 1] that [of 2] that [of 3] that [of 4] that [of 5] that [of 6] that [of 7] that [of 8] that [of 9]
    that [of 10] that [of 11] that [of 12] that [of 13] that [of 14] that [of 15] that [of 16] that [of 17]
  by (simp add: registers_at_def)

lemma iretq_peek:
  "iretq s = put_reg RSP (peek s 3) (s\<lparr>rip := peek s 0, cs := peek s 1, rflags := peek s 2, ss := peek s 4\<rparr>)"
  by (simp add: iretq_def Let_def peek_simps numeral_eq_Suc)

lemma call_process_enters:
  assumes ok: "call_ok s"
  defines "e \<equiv> exec call_process s"
  shows "context_of e = registers_at (mem s) (regs s RDI)" "cs e = regs s RDX" "ss e = regs s RSI"
    "mem_byte e = (mem_byte s)(regs s R8 := 2)" "mem e (regs s RCX) = regs s RSP - 96"
    "above (regs s RSP - 96) 5 a \<Longrightarrow> mem e a = mem (published s) a"
proof -
  let ?p = "regs s RDI" and ?b = "published s"
  let ?m = "\<lambda>i. mem ?b (?p + of_nat (8 * i))"
  have far: "above (regs ?b RSP) 5 (?p + of_nat (8 * i))" if "i < 18" for i
    using ok that above_split(2) [of "regs s RSP" 12 5] by (auto simp: call_ok_def)
  have kp: "above (regs s RSP - 96) 5 (regs s RCX)" using ok above_split(2) [of "regs s RSP" 12 5 "regs s RCX"] by (auto simp: call_ok_def)
  let ?vs = "[regs s RSI, ?m 15, ?m 17, regs s RDX, ?m 16]"
  let ?c = "put_reg RAX (?m 16) (pushes ?vs ?b)"
  have f3: "above (regs ?b RSP) 5 (regs ?b RDI + of_nat (8 * i))" if "i \<in> {15, 16, 17}" for i using far [of i] that by auto
  have c: "exec frame_code ?b = ?c" using frame_exec [OF f3] by simp
  have mc: "mem ?c a = mem ?b a" if "above (regs s RSP - 96) 5 a" for a using mem_pushes [of ?b ?vs a] that by (simp add: numeral_eq_Suc)
  let ?d = "?c\<lparr>mem_byte := (mem_byte s)(regs s R8 := 2)\<rparr>"
  have md: "mem ?d (?p + of_nat (8 * i)) = ?m i" if "i < 18" for i using mc far [OF that] by simp
  have e: "e = iretq ((exec load_code ?d)\<lparr>interrupts_on := True\<rparr>)"
    unfolding e_def call_process_eq exec_append published_exec [unfolded exec_append] using c by (simp add: exec_append)
  have pk: "peek ?d k = peek (pushes ?vs ?b) k" for k by (simp add: peek_simps)
  have st: "peek ((exec load_code ?d)\<lparr>interrupts_on := True\<rparr>) k = peek ?d k" for k by (simp add: load_exec peek_def)
  have fr: "peek ?d 0 = ?m 16" "peek ?d 1 = regs s RDX" "peek ?d 2 = ?m 17" "peek ?d 3 = ?m 15" "peek ?d 4 = regs s RSI"
    unfolding pk by (simp_all add: peek_pushes)
  have l: "e = put_reg RSP (?m 15) ((exec load_code ?d)\<lparr>interrupts_on := True, rip := ?m 16, cs := regs s RDX, rflags := ?m 17, ss := regs s RSI\<rparr>)"
    unfolding e iretq_peek st fr by simp
  have "context_of e = registers_at (mem ?b) ?p"
    unfolding l load_exec context_of_def registers_at_def using md [of 0] md [of 1] md [of 2] md [of 3] md [of 4] md [of 5] md [of 6] md [of 7]
      md [of 8] md [of 9] md [of 10] md [of 11] md [of 12] md [of 13] md [of 14] by simp
  also have "\<dots> = registers_at (mem s) ?p" by (rule registers_at_cells) (rule published_mem(2) [OF ok])
  finally show "context_of e = registers_at (mem s) ?p" .
  show "cs e = regs s RDX" "ss e = regs s RSI" "mem_byte e = (mem_byte s)(regs s R8 := 2)" by (simp_all add: l load_exec)
  have me: "mem e x = mem ?c x" for x by (simp add: l load_exec)
  show "above (regs s RSP - 96) 5 a \<Longrightarrow> mem e a = mem ?b a" unfolding me by (rule mc)
  show "mem e (regs s RCX) = regs s RSP - 96" unfolding me using mc [OF kp] published_mem(1) [OF ok] by simp
qed

section \<open>Returning to the kernel\<close>

text \<open>What \<open>timer_handler\<close> and \<open>sys_exit\<close> do at their end: load the published stack pointer, push the published return
  address, and return to it.\<close>

definition leave_to :: "u64 \<Rightarrow> u64 \<Rightarrow> cpu \<Rightarrow> cpu" where
  "leave_to kernel_rsp kernel_rip s = exec [Ret] (push kernel_rip (put_reg RSP kernel_rsp s))"

lemma leave_to_eq:
  "regs (leave_to k r s) = (regs s)(RSP := k)" "rip (leave_to k r s) = r" "mem (leave_to k r s) = (mem s)(k - 8 := r)"
  by (simp_all add: leave_to_def mem_push fun_eq_iff) (simp add: top_def mem_push)

text \<open>The cells of the kernel stack that \<open>call_process\<close> leaves behind: the saved registers and its return address.\<close>

lemma published_peek:
  assumes "call_ok s" "k < 13"
  shows "mem (published s) (regs s RSP - 96 + of_nat (8 * k)) = peek (pushes (map (regs s) kernel_saved) s) k"
proof -
  let ?t = "pushes (map (regs s) kernel_saved) s"
  have sp: "regs ?t RSP = regs s RSP - 96" by (simp add: kernel_saved_def)
  have "regs s RSP - 96 + of_nat (8 * k) \<noteq> regs s RCX"
  proof (cases "k = 12")
    case True
    then show ?thesis using assms(1) by (auto simp: call_ok_def)
  next
    case False
    then have k: "k < 12" using assms(2) by simp
    then have "of_nat (8 * (12 - k)) + of_nat (8 * k) = (96 :: u64)" by (simp flip: of_nat_add)
    then have "regs s RSP - 96 + of_nat (8 * k) = regs s RSP - of_nat (8 * (12 - k))" by (simp add: algebra_simps)
    moreover have "above (regs s RSP) 17 (regs s RCX)" "0 < 12 - k \<and> 12 - k \<le> 17" using assms(1) k by (simp_all add: call_ok_def)
    then have "regs s RCX \<noteq> regs s RSP - of_nat (8 * (12 - k))" unfolding above_def by blast
    ultimately show ?thesis by metis
  qed
  then show ?thesis using sp by (simp add: published_def Let_def peek_def)
qed

text \<open>Popping a list of distinct registers.\<close>

lemma exec_pops_rest:
  "mem (exec (map Pop rs) s) = mem s"
  "RSP \<notin> set rs \<Longrightarrow> regs (exec (map Pop rs) s) RSP = regs s RSP + of_nat (8 * length rs)"
  "r \<notin> set rs \<Longrightarrow> r \<noteq> RSP \<Longrightarrow> regs (exec (map Pop rs) s) r = regs s r"
  by (induction rs arbitrary: s) (simp_all add: algebra_simps)

lemma exec_pops:
  assumes "RSP \<notin> set rs" "distinct rs" "i < length rs"
  shows "regs (exec (map Pop rs) s) (rs ! i) = peek s i"
  using assms
proof (induction rs arbitrary: s i)
  case (Cons x xs)
  let ?s = "put_reg x (top s) (drop_top s)"
  show ?case
  proof (cases i)
    case 0
    then show ?thesis using exec_pops_rest(3) [of x xs ?s] Cons.prems by (auto simp: peek_simps)
  next
    case (Suc j)
    moreover have "x \<noteq> RSP" using Cons.prems by auto
    ultimately show ?thesis using Cons.IH [of j ?s] Cons.prems by (simp add: peek_simps)
  qed
qed simp

lemma return_process_eq: "return_process = [Cli] @ map Pop (rev kernel_saved) @ [Ret]"
  by (simp add: return_process_def kernel_saved_def)

lemma kernel_saved_props: "length kernel_saved = 12" "distinct kernel_saved" "RSP \<notin> set kernel_saved"
  by (simp_all add: kernel_saved_def)

lemma return_process_restores:
  assumes ok: "call_ok s" and k: "regs t RSP = regs s RSP - 96"
    and cells: "\<And>k. k < 13 \<Longrightarrow> mem t (regs s RSP - 96 + of_nat (8 * k)) = mem (published s) (regs s RSP - 96 + of_nat (8 * k))"
    and r: "r \<in> set kernel_saved"
  defines "e \<equiv> exec return_process t"
  shows "regs e r = regs s r" "rip e = peek s 0" "regs e RSP = regs s RSP + 8"
proof -
  let ?t = "t\<lparr>interrupts_on := False\<rparr>" and ?rs = "rev kernel_saved"
  have e: "e = (drop_top (exec (map Pop ?rs) ?t))\<lparr>rip := top (exec (map Pop ?rs) ?t)\<rparr>"
    by (simp add: e_def return_process_eq exec_append)
  have pk: "peek ?t k = peek (pushes (map (regs s) kernel_saved) s) k" if "k < 13" for k
    using cells [OF that] published_peek [OF ok that] k by (simp add: peek_def)
  have sp: "regs (exec (map Pop ?rs) ?t) RSP = regs s RSP"
    using exec_pops_rest(2) [of ?rs ?t] k kernel_saved_props by simp
  show "regs e RSP = regs s RSP + 8" using sp by (simp add: e)
  have "peek ?t 12 = peek s 0" using pk [of 12] by (simp add: peek_pushes kernel_saved_props)
  then show "rip e = peek s 0" using sp k by (simp add: e top_def exec_pops_rest(1) peek_def)
  obtain i where i: "i < 12" "r = ?rs ! i" using r kernel_saved_props(1) by (metis in_set_conv_nth length_rev set_rev)
  then have "regs e r = peek ?t i" using exec_pops [of ?rs i ?t] kernel_saved_props r by (auto simp: e)
  also have "\<dots> = map (regs s) ?rs ! i" using pk [of i] i(1) by (simp add: peek_pushes kernel_saved_props rev_map)
  finally show "regs e r = regs s r" using i kernel_saved_props by simp
qed

lemma leave_and_return:
  assumes ok: "call_ok v"
    and cells: "\<And>k. k < 13 \<Longrightarrow> mem t (regs v RSP - 96 + of_nat (8 * k)) = mem (exec call_process v) (regs v RSP - 96 + of_nat (8 * k))"
    and r: "r \<in> set kernel_saved" and e: "e = exec return_process (leave_to (regs v RSP - 96) kr t)"
  shows "regs e r = regs v r" "rip e = peek v 0" "regs e RSP = regs v RSP + 8"
proof -
  let ?k = "regs v RSP - 96" and ?t = "leave_to (regs v RSP - 96) kr t"
  have "mem ?t (?k + of_nat (8 * k)) = mem (published v) (?k + of_nat (8 * k))" if k: "k < 13" for k
  proof -
    have "above ?k 5 (?k + of_nat (8 * k))" unfolding above_def
    proof (intro allI impI)
      fix j assume j: "0 < j \<and> j \<le> (5 :: nat)"
      show "?k + of_nat (8 * k) \<noteq> ?k - of_nat (8 * j)"
        using slot_distinct [of "k + (j - 1)" "?k - of_nat (8 * (j - 1))"] j k by (cases j) (simp_all add: algebra_simps)
    qed
    then have "mem (exec call_process v) (?k + of_nat (8 * k)) = mem (published v) (?k + of_nat (8 * k))"
      by (rule call_process_enters(6) [OF ok])
    moreover have "?k + of_nat (8 * k) \<noteq> ?k - 8" by (rule slot_distinct) (use k in simp)
    note fun_upd_other [OF this, of "mem t" kr]
    ultimately show ?thesis using cells [OF k] by (simp only: leave_to_eq)
  qed
  then show "regs e r = regs v r" "rip e = peek v 0" "regs e RSP = regs v RSP + 8"
    using return_process_restores [OF ok, of ?t r] r by (simp_all add: e leave_to_eq)
qed

section \<open>Properties\<close>

text \<open>C6: Preemption is transparent on both sides.  A process that the timer interrupts and that is later entered again
  through \<open>call_process\<close>, with the registers that \<open>timer_handler\<close> saved, continues with every register, the
  instruction pointer, the flags, the stack pointer and the segments it had.  The kernel that entered it
  through \<open>call_process\<close> and is resumed by \<open>timer_handler\<close> or \<open>sys_exit\<close> through the published stack pointer and
  \<open>return_process\<close> continues after its call with the registers it had saved.\<close>

theorem preemption_is_transparent:
  assumes "s = exec timer_entry (interrupt_entry rsp0 u)"
    and "call_ok v" "registers_at (mem v) (regs v RDI) = save_registers (mem s) (regs s RDI)" "regs v RDX = cs u" "regs v RSI = ss u"
    and "e = exec call_process v"
    and "\<And>k. k < 13 \<Longrightarrow> mem t (regs v RSP - 96 + of_nat (8 * k)) = mem e (regs v RSP - 96 + of_nat (8 * k))"
    and "b = exec return_process (leave_to (mem e (regs v RCX)) kernel_rip t)"
  shows "context_of e = context_of u \<and> cs e = cs u \<and> ss e = ss u \<and> mem_byte e (regs v R8) = 2
    \<and> rip (leave_to (mem e (regs v RCX)) kernel_rip t) = kernel_rip
    \<and> (\<forall>r \<in> {RBP, R15, R14, R13, R12, R11, R10, R9, R8, RDI, RSI, RBX}. regs b r = regs v r)
    \<and> rip b = mem v (regs v RSP) \<and> regs b RSP = regs v RSP + 8"
proof -
  note en = call_process_enters [OF assms(2)]
  have k: "mem e (regs v RCX) = regs v RSP - 96" unfolding assms(6) by (rule en(5))
  have b: "b = exec return_process (leave_to (regs v RSP - 96) kernel_rip t)" using assms(8) k by simp
  note lr = leave_and_return [OF assms(2) assms(7) [unfolded assms(6)] _ b]
  have ks: "{RBP, R15, R14, R13, R12, R11, R10, R9, R8, RDI, RSI, RBX} = set kernel_saved" by (auto simp: kernel_saved_def)
  have "\<forall>r \<in> set kernel_saved. regs b r = regs v r" using lr(1) by blast
  moreover have "RBP \<in> set kernel_saved" by (simp add: kernel_saved_def)
  note lr(2,3) [OF _ this]
  ultimately show ?thesis unfolding ks
    using en(1-4) assms(3-6) timer_saves_context [OF assms(1)] by (simp add: leave_to_eq peek_def)
qed

text \<open>A process at \<open>0x400000\<close> with stack \<open>0x7000\<close>; the kernel enters it from a stack at \<open>0x9000\<close> with the registers copied to
  \<open>0x2000\<close>.\<close>

definition user_sample :: cpu where
  "user_sample = \<lparr>regs = (\<lambda>r. if r = RSP then 0x7000 else 7), rip = 0x400000, rflags = 0x202, cs = 0x33, ss = 0x2B,
     mem = (\<lambda>_. 0), mem_byte = (\<lambda>_. 0), interrupts_on = True\<rparr>"

definition kernel_sample :: "registers \<Rightarrow> cpu" where
  "kernel_sample r = \<lparr>regs = (\<lambda>_. 1)(RSP := 0x9000, RDI := 0x2000, RSI := 0x2B, RDX := 0x33, RCX := 0x3000, R8 := 0x4000),
     rip = 0, rflags = 2, cs = 8, ss = 16,
     mem = (\<lambda>_. 5)(0x2000 := r_rax r, 0x2008 := r_rbx r, 0x2010 := r_rcx r, 0x2018 := r_rdx r, 0x2020 := r_rsi r, 0x2028 := r_rdi r,
       0x2030 := r_r8 r, 0x2038 := r_r9 r, 0x2040 := r_r10 r, 0x2048 := r_r11 r, 0x2050 := r_r12 r, 0x2058 := r_r13 r, 0x2060 := r_r14 r,
       0x2068 := r_r15 r, 0x2070 := r_rbp r, 0x2078 := r_rsp r, 0x2080 := r_rip r, 0x2088 := r_rflags r),
     mem_byte = (\<lambda>_. 0), interrupts_on = False\<rparr>"

lemma above_concrete:
  assumes "unat sp = n" "8 * m \<le> n" "unat a < n - 8 * m \<or> n \<le> unat a"
  shows "above sp m a"
  unfolding above_def
proof (intro allI impI notI)
  fix k assume k: "0 < k \<and> k \<le> m" and eq: "a = sp - of_nat (8 * k)"
  have b: "8 * k \<le> n" "n < 2 ^ 64" using assms(1,2) k unsigned_less [where 'a = nat, of sp] by auto
  have "unat (of_nat (8 * k) :: u64) = take_bit LENGTH(64) (8 * k)" by (simp only: unsigned_of_nat of_nat_id)
  also have "\<dots> = 8 * k" using b by (intro take_bit_nat_eq_self) simp
  finally have "unat (of_nat (8 * k) :: u64) = 8 * k" .
  then have "unat a = n - 8 * k" unfolding eq using b assms(1) by (subst unat_sub) (simp_all add: word_le_nat_alt)
  then show False using assms(2,3) k by auto
qed

lemma kernel_sample_ok: "call_ok (kernel_sample r)"
proof -
  have "unat (0x2000 + of_nat (8 * i) :: u64) = 0x2000 + 8 * i" if "i < 18" for i
  proof -
    have "unat (of_nat (0x2000 + 8 * i) :: u64) = take_bit LENGTH(64) (0x2000 + 8 * i)" by (simp only: unsigned_of_nat of_nat_id)
    also have "\<dots> = 0x2000 + 8 * i" using that by (intro take_bit_nat_eq_self) simp
    finally show ?thesis by simp
  qed
  note u = this
  have "above 0x9000 17 (0x2000 + of_nat (8 * i))" if "i < 18" for i
    by (rule above_concrete [of _ "0x9000"]) (use u [OF that] that in simp_all)
  moreover have "0x3000 \<noteq> (0x2000 + of_nat (8 * i) :: u64)" if "i < 18" for i using u [OF that] that by auto
  moreover have "above 0x9000 17 0x3000" by (rule above_concrete [of _ "0x9000"]) simp_all
  ultimately show ?thesis by (simp add: call_ok_def kernel_sample_def)
qed

theorem preemption_is_transparent_witness:
  "\<exists>s e. s = exec timer_entry (interrupt_entry 0x8000 user_sample)
     \<and> e = exec call_process (kernel_sample (save_registers (mem s) (regs s RDI)))
     \<and> context_of e = context_of user_sample \<and> cs e = 0x33
     \<and> rip (exec return_process (leave_to (mem e 0x3000) 99 e)) = 5"
proof -
  let ?s = "exec timer_entry (interrupt_entry 0x8000 user_sample)"
  let ?v = "kernel_sample (save_registers (mem ?s) (regs ?s RDI))"
  let ?e = "exec call_process ?v"
  let ?b = "exec return_process (leave_to (mem ?e (regs ?v RCX)) 99 ?e)"
  have h: "registers_at (mem ?v) (regs ?v RDI) = save_registers (mem ?s) (regs ?s RDI)"
    by (simp add: registers_at_def kernel_sample_def)
  have r: "regs ?v RDX = cs user_sample" "regs ?v RSI = ss user_sample" "regs ?v RCX = 0x3000" "mem ?v (regs ?v RSP) = 5" "cs user_sample = 0x33"
    by (simp_all add: kernel_sample_def user_sample_def)
  have "context_of ?e = context_of user_sample \<and> cs ?e = cs user_sample \<and> rip ?b = mem ?v (regs ?v RSP)"
    using preemption_is_transparent [OF refl kernel_sample_ok h r(1,2) refl refl refl, of 99] by blast
  then show ?thesis unfolding r(3-5) by blast
qed

end
