(* ===== verification/Processes.thy ===== *)
theory Processes
  imports Paging Context_Switch Events
begin

text \<open>
  Processes: loading (\<open>processes/loader.rs\<close>), creation, entry and clean-up (\<open>processes/process.rs\<close>), the timer and
  system call handlers (\<open>interrupts/idt.rs\<close>), and exit (\<open>syscalls/syscall_handlers.rs\<close>).

  Besides the mapper, the code reaches page tables directly through the direct map of physical memory.  The
  record \<open>table_api\<close> has these accesses and the operations of the crate on an entry; \<open>translate\<close> is the walk that
  the processor makes when the code writes through a virtual address; \<open>clean_up\<close> is the mapper's release of
  empty tables.  Parsing an executable is the \<open>goblin\<close> crate, a parameter too.
\<close>

section \<open>Interfaces\<close>

record ('m, 'p, 'f, 'e) table_api =
  get_table :: "'m \<Rightarrow> 'f \<Rightarrow> 'e list"
  put_table :: "'f \<Rightarrow> 'e list \<Rightarrow> 'm \<Rightarrow> 'm"
  is_unused :: "'e \<Rightarrow> bool"
  unused :: 'e
  entry_frame :: "'e \<Rightarrow> 'f"
  translate :: "'m \<Rightarrow> 'f \<Rightarrow> 'p \<Rightarrow> ('f \<times> u64) option"
  clean_up :: "'f \<Rightarrow> ('m \<times> 'f global_alloc, unit, unit) prog"

record program_header =
  p_type :: u32
  p_flags :: u32
  p_offset :: nat
  p_vaddr :: nat
  p_filesz :: nat
  p_memsz :: nat

record elf =
  program_headers :: "program_header list"
  e_entry :: u64

definition PT_LOAD :: u32 where "PT_LOAD = 1"
definition PF_X :: u32 where "PF_X = 1"
definition PF_W :: u32 where "PF_W = 2"

definition PAGE_SIZE :: nat where "PAGE_SIZE = 4096"
definition STACK_START :: nat where "STACK_START = 0x700000000000"
definition STACK_SIZE :: nat where "STACK_SIZE = 2 * 4096"
definition SYSCALL_EXIT :: u32 where "SYSCALL_EXIT = 1"
definition SYSCALL_PRINT :: u32 where "SYSCALL_PRINT = 3"

section \<open>State\<close>

datatype process_state = New | Ready | Running | Blocked | Terminated

record 'f pcb =
  pcb_pid :: u32
  pcb_state :: process_state
  kernel_rsp :: u64
  kernel_rip :: u64
  registers :: registers
  pml4_frame :: 'f

record ('m, 'p, 'f, 'u) kernel =
  vmem :: "('m, 'p, 'f) vm"
  ram :: "'f \<Rightarrow> bytes"
  events :: "'u ev_world"
  process_table :: "u32 \<Rightarrow> 'f pcb option"
  next_pid :: u32

definition on_vm :: "(('m, 'p, 'f) vm, unit, 'a) dprog \<Rightarrow> (('m, 'p, 'f, 'u) kernel, unit, 'a) dprog" where
  "on_vm = dzoom vmem (\<lambda>x s. s\<lparr>vmem := x\<rparr>)"

definition on_events :: "('u, 'a) ev \<Rightarrow> (('m, 'p, 'f, 'u) kernel, unit, 'a) prog" where
  "on_events = zoom events (\<lambda>x s. s\<lparr>events := x\<rparr>)"

section \<open>The loader\<close>

text \<open>A write through a virtual address of address space \<open>h\<close> reaches the frame that the page is mapped to; a page fault
  ends in a panic.\<close>

definition write_virt :: "('m, 'p, 'f) mapper_api \<Rightarrow> ('m, 'p, 'f, 'e) table_api \<Rightarrow> 'f \<Rightarrow> nat \<Rightarrow> bytes
    \<Rightarrow> (('m, 'p, 'f, 'u) kernel, unit, unit) prog" where
  "write_virt mp tb h vaddr bs s =
    (case page_containing mp vaddr of
       None \<Rightarrow> (Panic, s)
     | Some p \<Rightarrow> (case translate tb (tables (vmem s)) h p of
         None \<Rightarrow> (Panic, s)
       | Some (f, _) \<Rightarrow> (Ok (), s\<lparr>ram := (ram s)(f := buf_splice (ram s f) (vaddr - page_start mp p) bs)\<rparr>)))"

text \<open>Filling one page of a segment through its kernel alias: the part of the file that belongs to it, then zeros.\<close>

definition copy_page :: "('m, 'p, 'f) mapper_api \<Rightarrow> ('m, 'p, 'f, 'e) table_api \<Rightarrow> bytes \<Rightarrow> program_header \<Rightarrow> 'f \<Rightarrow> nat \<Rightarrow> nat
    \<Rightarrow> (('m, 'p, 'f, 'u) kernel, unit, unit) prog" where
  "copy_page mp tb elf_bytes ph kpml4 kernel_alias page_offset =
    (let file_size = p_filesz ph; off = p_offset ph;
         page_remaining = PAGE_SIZE - page_offset mod PAGE_SIZE;
         to_copy = min (file_size - page_offset) page_remaining
     in bnd (if to_copy > 0
             then bnd (lift_res (sub_slice elf_bytes (off + page_offset) to_copy)) (\<lambda>src.
                  write_virt mp tb kpml4 kernel_alias src)
             else ret ()) (\<lambda>_.
        let bss_start = file_size - page_offset
        in if bss_start < page_remaining
           then let zero_len = page_remaining - bss_start
                in if zero_len > 0
                   then write_virt mp tb kpml4 (kernel_alias + bss_start) (replicate zero_len 0)
                   else ret ()
           else ret ()))"

definition clean_up_vm :: "('m, 'p, 'f, 'e) table_api \<Rightarrow> 'f \<Rightarrow> (('m, 'p, 'f) vm, unit, unit) prog" where
  "clean_up_vm tb h s = (case frame_allocator s of
      None \<Rightarrow> (Panic, s)
    | Some g \<Rightarrow> (case clean_up tb h (tables s, g) of (r, m, g') \<Rightarrow> (r, s\<lparr>tables := m, frame_allocator := Some g'\<rparr>)))"

definition segment_flags :: "program_header \<Rightarrow> u64" where
  "segment_flags ph = PRESENT OR USER_ACCESSIBLE
     OR (if p_flags ph AND PF_W \<noteq> 0 then WRITABLE else 0) OR (if p_flags ph AND PF_X = 0 then NO_EXECUTE else 0)"

definition load_page :: "'f frame_api \<Rightarrow> ('m, 'p, 'f) mapper_api \<Rightarrow> ('m, 'p, 'f, 'e) table_api \<Rightarrow> nat \<Rightarrow> bytes \<Rightarrow> program_header
    \<Rightarrow> 'f \<Rightarrow> 'f \<Rightarrow> 'p \<Rightarrow> 'p \<Rightarrow> (('m, 'p, 'f, 'u) kernel, unit, unit) dprog" where
  "load_page api mp tb core elf_bytes ph user kpml4 start_page page =
    (let default_flags = PRESENT OR USER_ACCESSIBLE OR WRITABLE; flags = segment_flags ph
     in dbnd (on_vm (create_mapping api mp user page (Some default_flags))) (\<lambda>frame.
     dbnd (on_vm (map_kernel_frame mp core kpml4 frame default_flags)) (\<lambda>kernel_alias.
     dbnd (total (copy_page mp tb elf_bytes ph kpml4 kernel_alias (page_start mp page - page_start mp start_page))) (\<lambda>_.
     dbnd (on_vm (total (update_permissions mp core user page flags))) (\<lambda>_.
     dbnd (total (expect_some (page_containing mp kernel_alias))) (\<lambda>unmap_page.
     dbnd (on_vm (total (unmap_vm mp kpml4 unmap_page))) (\<lambda>_.
     dbnd (on_vm (total (modify_st (invlpg mp core (page_start mp unmap_page))))) (\<lambda>_.
     dbnd (on_vm (total (clean_up_vm tb kpml4))) (\<lambda>_.
     on_vm (total (update_permissions mp core user page flags)))))))))))"

definition load_segment :: "'f frame_api \<Rightarrow> ('m, 'p, 'f) mapper_api \<Rightarrow> ('m, 'p, 'f, 'e) table_api \<Rightarrow> nat \<Rightarrow> bytes \<Rightarrow> 'f \<Rightarrow> 'f
    \<Rightarrow> program_header \<Rightarrow> (('m, 'p, 'f, 'u) kernel, unit, unit) dprog" where
  "load_segment api mp tb core elf_bytes user kpml4 ph =
    (if p_type ph \<noteq> PT_LOAD then total (ret ())
     else dbnd (total (expect_some (page_containing mp (p_vaddr ph)))) (\<lambda>start_page.
     dbnd (total (lift_res (u64_sub (p_memsz ph) 1))) (\<lambda>last.
     dbnd (total (lift_res (u64_add (p_vaddr ph) last))) (\<lambda>end_addr.
     dbnd (total (expect_some (page_containing mp end_addr))) (\<lambda>end_page.
     dfor_each (page_range mp start_page end_page) (load_page api mp tb core elf_bytes ph user kpml4 start_page))))))"

definition load_elf :: "'f frame_api \<Rightarrow> ('m, 'p, 'f) mapper_api \<Rightarrow> ('m, 'p, 'f, 'e) table_api \<Rightarrow> (bytes \<Rightarrow> elf option) \<Rightarrow> nat \<Rightarrow> bytes \<Rightarrow> 'f \<Rightarrow> 'f
    \<Rightarrow> (('m, 'p, 'f, 'u) kernel, unit, u64 \<times> u64) dprog" where
  "load_elf api mp tb parse core elf_bytes user kpml4 =
    dbnd (total (expect_some (parse elf_bytes))) (\<lambda>elf.
    dbnd (dfor_each (program_headers elf) (load_segment api mp tb core elf_bytes user kpml4)) (\<lambda>_.
    let stack_end = STACK_START + STACK_SIZE
    in dbnd (total (expect_some (page_containing mp STACK_START))) (\<lambda>start_page.
    dbnd (total (expect_some (page_containing mp stack_end))) (\<lambda>end_page.
    dbnd (dfor_each (page_range mp start_page end_page) (\<lambda>page.
      dbnd (on_vm (create_mapping api mp user page (Some (PRESENT OR WRITABLE OR USER_ACCESSIBLE)))) (\<lambda>_. total (ret ())))) (\<lambda>_.
    total (ret (of_nat stack_end, e_entry elf)))))))"

section \<open>Creating a process\<close>

text \<open>The new level 4 table has the upper half of the kernel's and an empty lower half.\<close>

definition create_process_page_table :: "'f frame_api \<Rightarrow> ('m, 'p, 'f, 'e) table_api \<Rightarrow> 'f \<Rightarrow> (('m, 'p, 'f) vm, unit, 'f) dprog" where
  "create_process_page_table api tb kpml4 =
    dbnd (alloc_frame_vm api) (\<lambda>r.
    dbnd (total (expect_some r)) (\<lambda>frame.
    dbnd (total (modify_st (\<lambda>s. s\<lparr>tables := put_table tb frame (replicate 512 (unused tb)) (tables s)\<rparr>))) (\<lambda>_.
    dbnd (total (for_each [256..<512] (\<lambda>i.
      bnd (gets (\<lambda>s. get_table tb (tables s) kpml4)) (\<lambda>kt.
      bnd (lift_res (index_at kt i)) (\<lambda>e.
      modify_st (\<lambda>s. s\<lparr>tables := put_table tb frame ((get_table tb (tables s) frame)[i := e]) (tables s)\<rparr>)))))) (\<lambda>_.
    total (ret frame)))))"

definition create_process :: "'f frame_api \<Rightarrow> ('m, 'p, 'f) mapper_api \<Rightarrow> ('m, 'p, 'f, 'e) table_api \<Rightarrow> (bytes \<Rightarrow> elf option) \<Rightarrow> nat \<Rightarrow> 'f \<Rightarrow> bytes
    \<Rightarrow> (('m, 'p, 'f, 'u) kernel, unit, u32) dprog" where
  "create_process api mp tb parse core kpml4 elf_bytes =
    dbnd (total (gets next_pid)) (\<lambda>pno.
    dbnd (total (modify_st (\<lambda>s. s\<lparr>next_pid := next_pid s + 1\<rparr>))) (\<lambda>_.
    dbnd (on_vm (create_process_page_table api tb kpml4)) (\<lambda>process_pml4_frame.
    dbnd (load_elf api mp tb parse core elf_bytes process_pml4_frame kpml4) (\<lambda>(stack_top, entry_point).
    let process = \<lparr>pcb_pid = pno, pcb_state = New, kernel_rsp = 0, kernel_rip = 0,
          registers = registers_new\<lparr>r_rsp := stack_top, r_rip := entry_point, r_rflags := 0x202\<rparr>,
          pml4_frame = process_pml4_frame\<rparr>
    in dbnd (total (modify_st (\<lambda>s. s\<lparr>process_table := (process_table s)(pno \<mapsto> process)\<rparr>))) (\<lambda>_.
    total (ret pno))))))"

section \<open>Releasing a process\<close>

type_synonym ('m, 'f, 'a) freeing = "('m \<times> 'f global_alloc, unit, 'a) prog"

definition dealloc :: "'f frame_api \<Rightarrow> 'f \<Rightarrow> ('m, 'f, unit) freeing" where
  "dealloc api f = zoom snd (\<lambda>g (m, _). (m, g)) (global_deallocate_frame api f)"

definition read_entry :: "('m, 'p, 'f, 'e) table_api \<Rightarrow> 'f \<Rightarrow> nat \<Rightarrow> ('m, 'f, 'e) freeing" where
  "read_entry tb frame i = bnd (gets (\<lambda>(m, _). get_table tb m frame)) (\<lambda>t. lift_res (index_at t i))"

definition set_unused :: "('m, 'p, 'f, 'e) table_api \<Rightarrow> 'f \<Rightarrow> nat \<Rightarrow> ('m, 'f, unit) freeing" where
  "set_unused tb frame i = modify_st (\<lambda>(m, g). (put_table tb frame ((get_table tb m frame)[i := unused tb]) m, g))"

primrec free_page_table :: "'f frame_api \<Rightarrow> ('m, 'p, 'f, 'e) table_api \<Rightarrow> nat \<Rightarrow> 'f \<Rightarrow> ('m, 'f, unit) freeing" where
  "free_page_table api tb 0 frame =
    bnd (for_each [0..<512] (\<lambda>i. bnd (read_entry tb frame i) (\<lambda>entry.
      if is_unused tb entry then ret ()
      else bnd (dealloc api (entry_frame tb entry)) (\<lambda>_. set_unused tb frame i)))) (\<lambda>_.
    dealloc api frame)"
| "free_page_table api tb (Suc level) frame =
    bnd (for_each [0..<512] (\<lambda>i. bnd (read_entry tb frame i) (\<lambda>entry.
      if is_unused tb entry then ret ()
      else bnd (if Suc level > 1 then free_page_table api tb level (entry_frame tb entry)
                else dealloc api (entry_frame tb entry)) (\<lambda>_. set_unused tb frame i)))) (\<lambda>_.
    dealloc api frame)"

definition clear_tables :: "'f frame_api \<Rightarrow> ('m, 'p, 'f, 'e) table_api \<Rightarrow> 'f \<Rightarrow> ('m, 'f, unit) freeing" where
  "clear_tables api tb pml4 =
    bnd (for_each [0..<256] (\<lambda>i. bnd (read_entry tb pml4 i) (\<lambda>entry.
      if is_unused tb entry then ret ()
      else free_page_table api tb 3 (entry_frame tb entry)))) (\<lambda>_.
    dealloc api pml4)"

definition clear_process_frames :: "'f frame_api \<Rightarrow> ('m, 'p, 'f, 'e) table_api \<Rightarrow> 'f pcb \<Rightarrow> (('m, 'p, 'f) vm, unit, unit) prog" where
  "clear_process_frames api tb p s = (case frame_allocator s of
      None \<Rightarrow> (Panic, s)
    | Some g \<Rightarrow> (case clear_tables api tb (pml4_frame p) (tables s, g) of (r, m, g') \<Rightarrow> (r, s\<lparr>tables := m, frame_allocator := Some g'\<rparr>)))"

section \<open>Page faults\<close>

text \<open>A fault just below the stack pointer maps the page in the running address space; the handler panics in every case.\<close>

definition page_fault_handler :: "'f frame_api \<Rightarrow> ('m, 'p, 'f) mapper_api \<Rightarrow> nat \<Rightarrow> nat \<Rightarrow> nat \<Rightarrow> nat
    \<Rightarrow> (('m, 'p, 'f) vm, unit, unit) dprog" where
  "page_fault_handler api mp core hhdm_offset stack_pointer faulting_address =
    dbnd (total (gets (\<lambda>s. cr3 s core))) (\<lambda>pml4.
    dbnd (total (expect_some (page_containing mp faulting_address))) (\<lambda>page.
    dbnd (total (lift_res (u64_sub stack_pointer 64))) (\<lambda>limit.
    dbnd (if limit \<le> faulting_address \<and> faulting_address < hhdm_offset
          then dbnd (create_mapping api mp pml4 page None) (\<lambda>_. total (ret ()))
          else total (ret ())) (\<lambda>_.
    total panic))))"

section \<open>Running, preempting and ending a process\<close>

text \<open>\<open>run_process_ring3\<close> up to the entry of the process.  \<open>return_address\<close> is the address of \<open>return_process\<close>, and \<open>rsp\<close> the
  stack pointer with which \<open>call_process\<close> is entered; the assembly marks the process as running and publishes the
  stack pointer (\<open>Context_Switch\<close>).  Its result is the context to enter.\<close>

definition run_process_ring3 :: "nat \<Rightarrow> u64 \<Rightarrow> u64 \<Rightarrow> u32 \<Rightarrow> (('m, 'p, 'f, 'u) kernel, unit, registers) prog" where
  "run_process_ring3 core return_address rsp pno =
    bnd (gets process_table) (\<lambda>table.
    bnd (expect_some (table pno)) (\<lambda>process.
    bnd (modify_st (\<lambda>s. s\<lparr>vmem := (vmem s)\<lparr>cr3 := (cr3 (vmem s))(core := pml4_frame process), tlb := (tlb (vmem s))(core := (\<lambda>_. None))\<rparr>\<rparr>)) (\<lambda>_.
    let process' = process\<lparr>kernel_rip := return_address, pcb_state := Running, kernel_rsp := rsp - 96\<rparr>
    in bnd (modify_st (\<lambda>s. s\<lparr>process_table := (process_table s)(pno \<mapsto> process')\<rparr>)) (\<lambda>_.
    ret (registers process)))))"

text \<open>How a handler ends: back to the interrupted code, or to the kernel stack and address it returns.\<close>

datatype handler_end = ReturnToInterrupted | LeaveTo u64 u64

definition timer_handler :: "nat \<Rightarrow> (u32 \<Rightarrow> 'u) \<Rightarrow> (u64 \<Rightarrow> u64) \<Rightarrow> u64 \<Rightarrow> (('m, 'p, 'f, 'u) kernel, unit, handler_end) prog" where
  "timer_handler core run_future m rsp =
    (let cpuid = of_nat core :: u32; eoi = zoom vmem (\<lambda>x s. s\<lparr>vmem := x\<rparr>) (send_eoi core)
     in bnd (on_events (current_running_event_info cpuid)) (\<lambda>event.
     if info_pid event = 0 then bnd eoi (\<lambda>_. ret ReturnToInterrupted)
     else bnd (gets process_table) (\<lambda>table.
     bnd (expect_some (table (info_pid event))) (\<lambda>process.
     if pcb_state process \<noteq> Running then bnd eoi (\<lambda>_. ret ReturnToInterrupted)
     else let process' = process\<lparr>registers := save_registers m rsp, pcb_state := Blocked\<rparr>
     in bnd (modify_st (\<lambda>s. s\<lparr>process_table := (process_table s)(info_pid event \<mapsto> process')\<rparr>)) (\<lambda>_.
     bnd (on_events (schedule_process cpuid (run_future (info_pid event)) (info_pid event))) (\<lambda>_.
     bnd eoi (\<lambda>_.
     ret (LeaveTo (kernel_rsp process) (kernel_rip process)))))))))"

definition sys_exit :: "'f frame_api \<Rightarrow> ('m, 'p, 'f, 'e) table_api \<Rightarrow> nat \<Rightarrow> (('m, 'p, 'f, 'u) kernel, unit, handler_end) prog" where
  "sys_exit api tb core =
    bnd (on_events (current_running_event_info (of_nat core))) (\<lambda>event.
    if info_pid event = 0 then panic
    else bnd (gets process_table) (\<lambda>table.
    bnd (expect_some (table (info_pid event))) (\<lambda>process.
    let process' = process\<lparr>pcb_state := Terminated\<rparr>
    in bnd (modify_st (\<lambda>s. s\<lparr>process_table := (process_table s)(info_pid event \<mapsto> process')\<rparr>)) (\<lambda>_.
    bnd (zoom vmem (\<lambda>x s. s\<lparr>vmem := x\<rparr>) (clear_process_frames api tb process')) (\<lambda>_.
    bnd (modify_st (\<lambda>s. s\<lparr>process_table := (process_table s)(info_pid event := None)\<rparr>)) (\<lambda>_.
    ret (LeaveTo (kernel_rsp process') (kernel_rip process'))))))))"

text \<open>The system call number and the parameters are read from the stack at \<open>rsp\<close>; printing goes to the serial port.\<close>

definition syscall_handler :: "'f frame_api \<Rightarrow> ('m, 'p, 'f, 'e) table_api \<Rightarrow> nat \<Rightarrow> (u64 \<Rightarrow> u64) \<Rightarrow> u64
    \<Rightarrow> (('m, 'p, 'f, 'u) kernel, unit, handler_end) prog" where
  "syscall_handler api tb core m rsp =
    (let syscall_num = m (rsp + of_nat (8 * 6))
     in if ucast syscall_num = SYSCALL_EXIT then sys_exit api tb core
     else if ucast syscall_num = SYSCALL_PRINT
     then bnd (zoom vmem (\<lambda>x s. s\<lparr>vmem := x\<rparr>) (send_eoi core)) (\<lambda>_. ret ReturnToInterrupted)
     else panic)"

end
