(* ===== verification/Process_Props.thy ===== *)
theory Process_Props
  imports Processes Paging_Props
begin

text \<open>
  The release of an address space, the end of a process, and its preemption by the timer.
\<close>

section \<open>Releasing an address space\<close>

text \<open>A page table has 512 entries, and writing one changes no other.\<close>

definition table_law :: "('m, 'p, 'f, 'e) table_api \<Rightarrow> bool" where
  "table_law tb \<longleftrightarrow> is_unused tb (unused tb) \<and> (\<forall>m f. length (get_table tb m f) = 512)
     \<and> (\<forall>m f t g. length t = 512 \<longrightarrow> get_table tb (put_table tb f t m) g = (if g = f then t else get_table tb m g))"

text \<open>The frames below a table: those of its used entries, then its own.\<close>

definition used_children :: "('m, 'p, 'f, 'e) table_api \<Rightarrow> 'e list \<Rightarrow> 'f list" where
  "used_children tb t = map (entry_frame tb) (filter (\<lambda>e. \<not> is_unused tb e) t)"

primrec table_frames :: "('m, 'p, 'f, 'e) table_api \<Rightarrow> 'm \<Rightarrow> nat \<Rightarrow> 'f \<Rightarrow> 'f list" where
  "table_frames tb m 0 frame = used_children tb (get_table tb m frame) @ [frame]"
| "table_frames tb m (Suc level) frame =
    (if level = 0 then used_children tb (get_table tb m frame)
     else concat (map (table_frames tb m level) (used_children tb (get_table tb m frame)))) @ [frame]"

definition process_frames :: "('m, 'p, 'f, 'e) table_api \<Rightarrow> 'm \<Rightarrow> 'f \<Rightarrow> 'f list" where
  "process_frames tb m pml4 =
    concat (map (table_frames tb m 3) (used_children tb (take 256 (get_table tb m pml4)))) @ [pml4]"

definition allocated :: "'f frame_api \<Rightarrow> bitmap_alloc \<Rightarrow> 'f \<Rightarrow> bool" where
  "allocated api a f \<longleftrightarrow> frame_no api f < total_frames a \<and> f \<in> bm_used api a"

definition freed :: "'f frame_api \<Rightarrow> bitmap_alloc \<Rightarrow> 'f list \<Rightarrow> bitmap_alloc \<Rightarrow> bool" where
  "freed api a fs a' \<longleftrightarrow> bm_inv a' \<and> total_frames a' = total_frames a \<and> bm_used api a' = bm_used api a - set fs"

definition same_tables :: "('m, 'p, 'f, 'e) table_api \<Rightarrow> 'f set \<Rightarrow> 'm \<Rightarrow> 'm \<Rightarrow> bool" where
  "same_tables tb F m m' \<longleftrightarrow> (\<forall>f \<in> F. get_table tb m' f = get_table tb m f)"

text \<open>A program that frees exactly the given frames and writes no table outside them.\<close>

definition releases :: "'f frame_api \<Rightarrow> ('m, 'p, 'f, 'e) table_api \<Rightarrow> 'm \<Rightarrow> 'f list \<Rightarrow> ('m, 'f, unit) freeing \<Rightarrow> bool" where
  "releases api tb m fs p \<longleftrightarrow> (\<forall>m2 a. same_tables tb (set fs) m m2 \<and> bm_inv a \<and> distinct fs \<and> (\<forall>f \<in> set fs. allocated api a f) \<longrightarrow>
     (\<exists>m' a'. p (m2, Bitmap a) = (Ok (), m', Bitmap a') \<and> freed api a fs a' \<and> same_tables tb (- set fs) m2 m'))"

lemma releasesE:
  assumes "releases api tb m fs p" "same_tables tb (set fs) m m2" "bm_inv a" "distinct fs" "\<And>f. f \<in> set fs \<Longrightarrow> allocated api a f"
  obtains m' a' where "p (m2, Bitmap a) = (Ok (), m', Bitmap a')" "freed api a fs a'" "same_tables tb (- set fs) m2 m'"
  using assms unfolding releases_def by blast

lemma freed_trans: "freed api a fs a1 \<Longrightarrow> freed api a1 gs a2 \<Longrightarrow> freed api a (fs @ gs) a2"
  by (auto simp: freed_def)

lemma freed_allocated: "freed api a fs a1 \<Longrightarrow> allocated api a f \<Longrightarrow> f \<notin> set fs \<Longrightarrow> allocated api a1 f"
  by (simp add: freed_def allocated_def)

lemma dealloc_releases:
  assumes "phys_frames api"
  shows "releases api tb m [f] (dealloc api f)"
  unfolding releases_def
proof safe
  fix m2 a assume "same_tables tb (set [f]) m m2" and a: "bm_inv a" "\<forall>f' \<in> set [f]. allocated api a f'"
  then have u: "frame_no api f < total_frames a" "frame_no api f \<notin> bm_clear_set a"
    by (simp_all add: allocated_def bm_used_def frame_no_def)
  obtain a' where a': "global_deallocate_frame api f (Bitmap a) = (Ok (), Bitmap a')" "bm_inv a'" "total_frames a' = total_frames a"
    "bm_clear_set a' = insert (frame_no api f) (bm_clear_set a)"
    using phys_frames.bitmap_dealloc_used [OF assms a(1) u] by blast
  have "dealloc api f (m2, Bitmap a) = (Ok (), m2, Bitmap a')" using a'(1) by (simp add: dealloc_def zoom_def)
  moreover have "freed api a [f] a'"
    using a'(2-4) phys_frames.index_inj [OF assms] by (auto simp: freed_def bm_used_def frame_no_def FRAME_SIZE_def)
  ultimately show "\<exists>m' a'. dealloc api f (m2, Bitmap a) = (Ok (), m', Bitmap a') \<and> freed api a [f] a' \<and> same_tables tb (- set [f]) m2 m'"
    by (auto simp: same_tables_def)
qed

text \<open>The loop over the entries of a table: \<open>kids\<close> are the frames below an entry, and \<open>mark\<close> is what the loop does to the entry
  afterwards.\<close>

definition kids :: "('m, 'p, 'f, 'e) table_api \<Rightarrow> ('f \<Rightarrow> 'f list) \<Rightarrow> 'e \<Rightarrow> 'f list" where
  "kids tb below e = (if is_unused tb e then [] else below (entry_frame tb e))"

definition marks :: "('m, 'p, 'f, 'e) table_api \<Rightarrow> 'f \<Rightarrow> (nat \<Rightarrow> ('m, 'f, unit) freeing) \<Rightarrow> bool" where
  "marks tb frame mark \<longleftrightarrow> (\<forall>i m g. \<exists>m'. mark i (m, g) = (Ok (), m', g) \<and> same_tables tb (- {frame}) m m'
     \<and> (\<forall>j. j \<noteq> i \<longrightarrow> get_table tb m' frame ! j = get_table tb m frame ! j))"

lemma marksE:
  assumes "marks tb frame mark"
  obtains m' where "mark i (m, g) = (Ok (), m', g)" "same_tables tb (- {frame}) m m'"
    "\<And>j. j \<noteq> i \<Longrightarrow> get_table tb m' frame ! j = get_table tb m frame ! j"
  using assms unfolding marks_def by blast

lemma read_entry_eq:
  "table_law tb \<Longrightarrow> i < 512 \<Longrightarrow> read_entry tb frame i (m, g) = (Ok (get_table tb m frame ! i), m, g)"
  by (simp add: read_entry_def bnd_def prog_simps table_law_def)

lemma entry_loop:
  assumes "table_law tb" "marks tb frame mark" "\<And>c. releases api tb m (below c) (act c)"
    and "distinct js" "\<And>j. j \<in> set js \<Longrightarrow> j < 512 \<and> get_table tb m2 frame ! j = t ! j"
    and "fs = concat (map (\<lambda>j. kids tb below (t ! j)) js)" "frame \<notin> set fs" "distinct fs" "same_tables tb (set fs) m m2"
    and "bm_inv a" "\<And>f. f \<in> set fs \<Longrightarrow> allocated api a f"
  shows "\<exists>m' a'. for_each js (\<lambda>i. bnd (read_entry tb frame i) (\<lambda>e. if is_unused tb e then ret ()
      else bnd (act (entry_frame tb e)) (\<lambda>_. mark i))) (m2, Bitmap a) = (Ok (), m', Bitmap a')
    \<and> freed api a fs a' \<and> same_tables tb (- insert frame (set fs)) m2 m'"
  using assms(4-)
proof (induction js arbitrary: m2 a fs)
  case Nil
  then show ?case by (simp add: ret_def freed_def same_tables_def)
next
  case (Cons j js)
  let ?e = "t ! j" and ?gs = "concat (map (\<lambda>j. kids tb below (t ! j)) js)"
  let ?body = "\<lambda>i. bnd (read_entry tb frame i) (\<lambda>e. if is_unused tb e then ret () else bnd (act (entry_frame tb e)) (\<lambda>_. mark i))"
  have r: "read_entry tb frame j (m2, Bitmap a) = (Ok ?e, m2, Bitmap a)"
    using read_entry_eq [OF assms(1)] Cons.prems(2) [of j] by simp
  have fs: "fs = kids tb below ?e @ ?gs" using Cons.prems(3) by simp
  show ?case
  proof (cases "is_unused tb ?e")
    case True
    then have "?body j (m2, Bitmap a) = (Ok (), m2, Bitmap a)" using r by (simp add: bnd_def ret_def)
    moreover have "fs = ?gs" using fs True by (simp add: kids_def)
    ultimately show ?thesis using Cons.IH [of m2 fs a] Cons.prems by (simp add: bnd_def)
  next
    case False
    let ?ks = "below (entry_frame tb ?e)"
    have k: "kids tb below ?e = ?ks" using False by (simp add: kids_def)
    have sub: "set ?ks \<subseteq> set fs" "distinct ?ks" "set ?ks \<inter> set ?gs = {}" "frame \<notin> set ?ks"
      using Cons.prems(4,5) fs k by auto
    obtain m3 a3 where 3: "act (entry_frame tb ?e) (m2, Bitmap a) = (Ok (), m3, Bitmap a3)" "freed api a ?ks a3"
        "same_tables tb (- set ?ks) m2 m3"
      by (rule releasesE [OF assms(3) [of "entry_frame tb ?e"], of m2 a])
        (use Cons.prems(6-8) sub in \<open>auto simp: same_tables_def\<close>)
    obtain m4 where 4: "mark j (m3, Bitmap a3) = (Ok (), m4, Bitmap a3)" "same_tables tb (- {frame}) m3 m4"
        "\<And>i. i \<noteq> j \<Longrightarrow> get_table tb m4 frame ! i = get_table tb m3 frame ! i"
      by (rule marksE [OF assms(2), of j m3 "Bitmap a3"]) blast
    have b: "?body j (m2, Bitmap a) = (Ok (), m4, Bitmap a3)" using r False 3(1) 4(1) by (simp add: bnd_def)
    have inv3: "bm_inv a3" using 3(2) by (simp add: freed_def)
    have "\<exists>m' a'. for_each js ?body (m4, Bitmap a3) = (Ok (), m', Bitmap a') \<and> freed api a3 ?gs a'
        \<and> same_tables tb (- insert frame (set ?gs)) m4 m'"
    proof (rule Cons.IH [OF _ _ refl _ _ _ inv3])
      show "distinct js" "frame \<notin> set ?gs" "distinct ?gs" using Cons.prems(1,4,5) fs by auto
      show "i < 512 \<and> get_table tb m4 frame ! i = t ! i" if i: "i \<in> set js" for i
      proof -
        have "i \<noteq> j" using Cons.prems(1) i by auto
        moreover have "get_table tb m3 frame = get_table tb m2 frame" using 3(3) sub(4) by (simp add: same_tables_def)
        ultimately show ?thesis using 4(3) [of i] Cons.prems(2) [of i] i by simp
      qed
      show "same_tables tb (set ?gs) m m4" unfolding same_tables_def
      proof
        fix f assume f: "f \<in> set ?gs"
        then have "f \<noteq> frame" "f \<notin> set ?ks" "f \<in> set fs" using Cons.prems(4) fs sub(3) by auto
        then show "get_table tb m4 f = get_table tb m f"
          using 3(3) 4(2) Cons.prems(6) by (simp add: same_tables_def)
      qed
      show "allocated api a3 f" if "f \<in> set ?gs" for f
        using freed_allocated [OF 3(2)] Cons.prems(8) [of f] that fs sub(3) by auto
    qed
    then obtain m' a' where *: "for_each js ?body (m4, Bitmap a3) = (Ok (), m', Bitmap a')" "freed api a3 ?gs a'"
      "same_tables tb (- insert frame (set ?gs)) m4 m'" by blast
    have "for_each (j # js) ?body (m2, Bitmap a) = (Ok (), m', Bitmap a')" using b *(1) by (simp add: bnd_def)
    moreover have "freed api a fs a'" using freed_trans [OF 3(2) *(2)] fs k by simp
    moreover have "same_tables tb (- insert frame (set fs)) m2 m'"
      using *(3) 3(3) 4(2) fs k by (auto simp: same_tables_def)
    ultimately show ?thesis by blast
  qed
qed

lemma kids_concat:
  assumes "n \<le> length t"
  shows "concat (map (\<lambda>j. kids tb below (t ! j)) [0..<n]) = concat (map below (used_children tb (take n t)))"
proof -
  have "map (\<lambda>j. kids tb below (t ! j)) [0..<n] = map (kids tb below) (take n t)"
    using assms by (intro nth_equalityI) simp_all
  moreover have "concat (map (kids tb below) u) = concat (map below (used_children tb u))" for u
    by (induction u) (simp_all add: kids_def used_children_def)
  ultimately show ?thesis by simp
qed

lemma set_unused_marks: "table_law tb \<Longrightarrow> marks tb frame (set_unused tb frame)"
  by (simp add: marks_def set_unused_def modify_st_def table_law_def same_tables_def)

lemma ret_marks: "marks tb frame (\<lambda>_. ret ())"
  by (simp add: marks_def ret_def same_tables_def)

lemma table_releases:
  assumes "phys_frames api" "table_law tb" "marks tb frame mark" "\<And>c. releases api tb m (below c) (act c)" "n \<le> 512"
  shows "releases api tb m (concat (map below (used_children tb (take n (get_table tb m frame)))) @ [frame])
    (bnd (for_each [0..<n] (\<lambda>i. bnd (read_entry tb frame i) (\<lambda>e. if is_unused tb e then ret ()
      else bnd (act (entry_frame tb e)) (\<lambda>_. mark i)))) (\<lambda>_. dealloc api frame))"
  unfolding releases_def
proof (intro allI impI, elim conjE)
  let ?fs = "concat (map below (used_children tb (take n (get_table tb m frame))))"
  let ?loop = "for_each [0..<n] (\<lambda>i. bnd (read_entry tb frame i) (\<lambda>e. if is_unused tb e then ret () else bnd (act (entry_frame tb e)) (\<lambda>_. mark i)))"
  fix m2 a assume h: "same_tables tb (set (?fs @ [frame])) m m2" "bm_inv a" "distinct (?fs @ [frame])" "\<forall>f \<in> set (?fs @ [frame]). allocated api a f"
  have len: "n \<le> length (get_table tb m frame)" using assms(2,5) by (simp add: table_law_def)
  have "\<exists>m' a'. ?loop (m2, Bitmap a) = (Ok (), m', Bitmap a') \<and> freed api a ?fs a' \<and> same_tables tb (- insert frame (set ?fs)) m2 m'"
    by (rule entry_loop [OF assms(2-4) _ _ kids_concat [OF len, symmetric]])
      (use h assms(5) in \<open>auto simp: same_tables_def\<close>)
  then obtain m3 a3 where 3: "?loop (m2, Bitmap a) = (Ok (), m3, Bitmap a3)" "freed api a ?fs a3" "same_tables tb (- insert frame (set ?fs)) m2 m3"
    by blast
  have al: "allocated api a3 frame" using freed_allocated [OF 3(2)] h(3,4) by simp
  have inv3: "bm_inv a3" using 3(2) by (simp add: freed_def)
  obtain m4 a4 where 4: "dealloc api frame (m3, Bitmap a3) = (Ok (), m4, Bitmap a4)" "freed api a3 [frame] a4" "same_tables tb (- set [frame]) m3 m4"
    by (rule releasesE [OF dealloc_releases [OF assms(1), of tb m3 frame], of m3 a3])
      (use al inv3 in \<open>auto simp: same_tables_def\<close>)
  have "same_tables tb (- set (?fs @ [frame])) m2 m4" using 3(3) 4(3) by (auto simp: same_tables_def)
  then show "\<exists>m' a'. bnd ?loop (\<lambda>_. dealloc api frame) (m2, Bitmap a) = (Ok (), m', Bitmap a')
      \<and> freed api a (?fs @ [frame]) a' \<and> same_tables tb (- set (?fs @ [frame])) m2 m'"
    using 3(1) 4(1) freed_trans [OF 3(2) 4(2)] by (auto simp: bnd_def)
qed

lemma concat_singletons: "concat (map (\<lambda>c. [c]) xs) = xs"
  by (induction xs) simp_all

lemma free_page_table_releases:
  assumes "phys_frames api" "table_law tb"
  shows "releases api tb m (table_frames tb m level frame) (free_page_table api tb level frame)"
proof (induction level arbitrary: frame)
  case 0
  show ?case
    using table_releases [where below = "\<lambda>c. [c]" and act = "dealloc api" and frame = frame and m = m,
        OF assms set_unused_marks [OF assms(2)] dealloc_releases [OF assms(1)] order_refl] assms(2)
    by (simp add: concat_singletons table_law_def)
next
  case (Suc level)
  let ?below = "\<lambda>c. if level = 0 then [c] else table_frames tb m level c"
  let ?act = "\<lambda>c. if Suc level > 1 then free_page_table api tb level c else dealloc api c"
  have "releases api tb m (?below c) (?act c)" for c
    using Suc.IH dealloc_releases [OF assms(1)] by auto
  note step = table_releases [where below = ?below and act = ?act and frame = frame, OF assms set_unused_marks [OF assms(2)] this order_refl]
  have "concat (map ?below (used_children tb (take 512 (get_table tb m frame)))) @ [frame] = table_frames tb m (Suc level) frame"
    using assms(2) by (cases "level = 0") (simp_all only: table_frames.simps if_True if_False concat_singletons table_law_def take_all order_refl simp_thms)
  then show ?case using step by (simp only: free_page_table.simps(2))
qed

lemma bnd_ret_unit: "bnd p (\<lambda>_. ret ()) = p"
  by (rule ext) (auto simp: bnd_def ret_def split: prod.splits res.splits)

lemma clear_tables_releases:
  assumes "phys_frames api" "table_law tb"
  shows "releases api tb m (process_frames tb m pml4) (clear_tables api tb pml4)"
  using table_releases [where below = "table_frames tb m 3" and act = "free_page_table api tb 3" and frame = pml4 and n = 256,
      OF assms ret_marks free_page_table_releases [OF assms]]
  by (simp add: process_frames_def clear_tables_def bnd_ret_unit cong: if_cong)

lemma clear_process_frames_Ok:
  assumes "phys_frames api" "table_law tb" "frame_allocator s = Some (Bitmap a)" "bm_inv a"
    and "distinct (process_frames tb (tables s) (pml4_frame p))"
    and "\<And>f. f \<in> set (process_frames tb (tables s) (pml4_frame p)) \<Longrightarrow> allocated api a f"
  obtains m a' where "clear_process_frames api tb p s = (Ok (), s\<lparr>tables := m, frame_allocator := Some (Bitmap a')\<rparr>)"
    "freed api a (process_frames tb (tables s) (pml4_frame p)) a'"
    "same_tables tb (- set (process_frames tb (tables s) (pml4_frame p))) (tables s) m"
proof -
  let ?fs = "process_frames tb (tables s) (pml4_frame p)"
  obtain m a' where "clear_tables api tb (pml4_frame p) (tables s, Bitmap a) = (Ok (), m, Bitmap a')" "freed api a ?fs a'"
      "same_tables tb (- set ?fs) (tables s) m"
    by (rule releasesE [OF clear_tables_releases [OF assms(1,2), of "tables s" "pml4_frame p"], of "tables s" a])
      (use assms(4-6) in \<open>auto simp: same_tables_def\<close>)
  then show thesis using that assms(3) by (simp add: clear_process_frames_def)
qed

text \<open>C7: When the frames of a process - its level 4 table, the tables below its lower half and the pages they map - are distinct and
  allocated, \<open>clear_process_frames\<close> succeeds and frees exactly them: afterwards the used frames are the others, the
  invariant of the allocator holds, and no table outside these frames has changed, in particular none of the kernel
  half that the level 4 table shares.\<close>

theorem clear_process_frames_frees:
  assumes "phys_frames api" "table_law tb" "frame_allocator s = Some (Bitmap a)" "bm_inv a"
    and "fs = process_frames tb (tables s) (pml4_frame p)" "distinct fs" "\<And>f. f \<in> set fs \<Longrightarrow> allocated api a f"
  shows "\<exists>s' a'. clear_process_frames api tb p s = (Ok (), s') \<and> frame_allocator s' = Some (Bitmap a') \<and> bm_inv a'
    \<and> bm_used api a' = bm_used api a - set fs \<and> total_frames a' = total_frames a
    \<and> (\<forall>f. f \<notin> set fs \<longrightarrow> get_table tb (tables s') f = get_table tb (tables s) f)"
proof -
  obtain m a' where "clear_process_frames api tb p s = (Ok (), s\<lparr>tables := m, frame_allocator := Some (Bitmap a')\<rparr>)"
      "freed api a fs a'" "same_tables tb (- set fs) (tables s) m"
    using clear_process_frames_Ok [OF assms(1-4), of p] assms(5-7) by blast
  then show ?thesis by (auto simp: freed_def same_tables_def)
qed

text \<open>Tables as functions, an entry as the frame it points to; frame 0 is an unused entry.  The process has level 4 table 9, whose
  first entry leads through the tables 8, 7 and 6 to the page 5.\<close>

definition entry_tables :: "(nat \<Rightarrow> nat \<Rightarrow> nat, nat, nat, nat) table_api" where
  "entry_tables = \<lparr>get_table = (\<lambda>m f. map (m f) [0..<512]), put_table = (\<lambda>f t m. m(f := (\<lambda>i. if i < 512 then t ! i else 0))),
     is_unused = (\<lambda>e. e = 0), unused = 0, entry_frame = (\<lambda>e. e), translate = (\<lambda>_ _ _. None), clean_up = (\<lambda>_. ret ())\<rparr>"

definition tree_sample :: "nat \<Rightarrow> nat \<Rightarrow> nat" where
  "tree_sample f i = (if i = 0 \<and> 6 \<le> f \<and> f \<le> 9 then f - 1 else 0)"

definition bm_all_used :: bitmap_alloc where
  "bm_all_used = \<lparr>total_frames = 64, free_frames = 0, to_allocate = 0, bitmap = [- 1], allocate_count = 0, free_count = 0\<rparr>"

definition vm_process :: "(nat \<Rightarrow> nat \<Rightarrow> nat, nat, nat) vm" where
  "vm_process = \<lparr>tables = tree_sample, frame_allocator = Some (Bitmap bm_all_used), next_eph_offset = 0, tlb_shootdown_addr = [0, 0],
     requested = (\<lambda>_. {}), in_service = (\<lambda>_. []), cr3 = (\<lambda>_. 0), tlb = (\<lambda>_ _. None)\<rparr>"

definition pcb_sample :: "nat pcb" where
  "pcb_sample = \<lparr>pcb_pid = 7, pcb_state = New, kernel_rsp = 0, kernel_rip = 0, registers = registers_new, pml4_frame = 9\<rparr>"

lemma entry_tables_law: "table_law entry_tables"
proof -
  have "get_table entry_tables (put_table entry_tables f t m) g = (if g = f then t else get_table entry_tables m g)"
    if "length t = 512" for m f g and t :: "nat list"
    using that by (auto simp: entry_tables_def simp del: upt_rec_numeral intro: nth_equalityI)
  moreover have "length (get_table entry_tables m f) = 512" "is_unused entry_tables (unused entry_tables)" for m f
    by (simp_all add: entry_tables_def del: upt_rec_numeral)
  ultimately show ?thesis unfolding table_law_def by blast
qed

lemma entry_tables_frame [simp]: "entry_frame entry_tables e = e"
  by (simp add: entry_tables_def)

lemma children_sample:
  assumes "0 < n" "n \<le> 512"
  shows "used_children entry_tables (take n (get_table entry_tables tree_sample f)) = (if 6 \<le> f \<and> f \<le> 9 then [f - 1] else [])"
proof -
  have "take n (map g [0..<k]) = g 0 # map g [1..<n]" if "n \<le> k" for g :: "nat \<Rightarrow> nat" and k
    using assms(1) that by (cases n) (simp_all add: take_map take_upt upt_conv_Cons del: upt_Suc)
  then have "take n (get_table entry_tables tree_sample f) = tree_sample f 0 # map (tree_sample f) [1..<n]"
    using assms(2) by (simp add: entry_tables_def del: upt_rec_numeral)
  then show ?thesis by (auto simp: used_children_def entry_tables_def tree_sample_def filter_empty_conv)
qed

lemma children_sample_all: "used_children entry_tables (get_table entry_tables tree_sample f) = (if 6 \<le> f \<and> f \<le> 9 then [f - 1] else [])"
  using children_sample [of 512 f] entry_tables_law by (simp add: table_law_def)

lemma process_frames_sample: "process_frames entry_tables tree_sample 9 = [5, 6, 7, 8, 9]"
  by (simp add: process_frames_def children_sample children_sample_all numeral_3_eq_3)

lemma all_used: "bm_inv bm_all_used" "f \<in> bm_used api bm_all_used"
proof -
  have "bm_clear_set bm_all_used = {}" by (auto simp: bm_clear_set_def bm_bit_def bm_all_used_def)
  then show "bm_inv bm_all_used" "f \<in> bm_used api bm_all_used"
    by (simp_all add: bm_inv_def bm_shape_def bm_used_def) (simp_all add: bm_all_used_def FRAME_SIZE_def)
qed

lemma allocated_sample: "f < 64 \<Longrightarrow> allocated numbered_frames bm_all_used f"
  by (simp add: allocated_def all_used) (simp add: frame_no_def numbered_frames_def FRAME_SIZE_def bm_all_used_def)

theorem clear_process_frames_frees_witness:
  "\<exists>s' a'. clear_process_frames numbered_frames entry_tables pcb_sample vm_process = (Ok (), s')
     \<and> frame_allocator s' = Some (Bitmap a') \<and> bm_used numbered_frames a' = bm_used numbered_frames bm_all_used - {5, 6, 7, 8, 9}"
proof -
  have fs: "[5, 6, 7, 8, 9] = process_frames entry_tables (tables vm_process) (pml4_frame pcb_sample)"
    by (simp add: vm_process_def pcb_sample_def process_frames_sample)
  have g: "frame_allocator vm_process = Some (Bitmap bm_all_used)" by (simp add: vm_process_def)
  have a: "allocated numbered_frames bm_all_used f" if "f \<in> set [5, 6, 7, 8, 9]" for f
    using that by (intro allocated_sample) auto
  show ?thesis using clear_process_frames_frees [OF numbered.phys_frames_axioms entry_tables_law g all_used(1) fs _ a] by auto
qed

section \<open>The end of a process\<close>

text \<open>C38: \<open>run_process_ring3\<close> loads the level 4 table of the process into the core, and nothing loads another before the process
  ends.  So when the running process exits - its frames distinct and allocated - it leaves the process table and its
  frames are free, but the core goes on to the kernel's return address on a level 4 table whose frame is free: the next
  client of the allocator may receive it.\<close>

theorem exit_keeps_freed_table_loaded:
  assumes "phys_frames api" "table_law tb" "run_process_ring3 core return_address rsp p s0 = (Ok r, s)"
    and "frame_allocator (vmem s) = Some (Bitmap a)" "bm_inv a"
    and "current_running_event_info (of_nat core) (events s) = (Ok ev, events s)" "info_pid ev = p" "p \<noteq> 0"
    and "process_table s p = Some pr" "distinct (process_frames tb (tables (vmem s)) (pml4_frame pr))"
    and "\<And>f. f \<in> set (process_frames tb (tables (vmem s)) (pml4_frame pr)) \<Longrightarrow> allocated api a f"
  shows "\<exists>s' a'. sys_exit api tb core s = (Ok (LeaveTo (rsp - 96) return_address), s') \<and> process_table s' = (process_table s)(p := None)
    \<and> frame_allocator (vmem s') = Some (Bitmap a') \<and> cr3 (vmem s') core = pml4_frame pr
    \<and> pml4_frame pr \<in> bm_used api a \<and> pml4_frame pr \<notin> bm_used api a'"
proof -
  obtain pr0 where "process_table s0 p = Some pr0"
    using assms(3) by (auto simp: run_process_ring3_def bnd_def gets_def expect_some_def panic_def split: option.splits)
  then have pr: "pr = pr0\<lparr>kernel_rip := return_address, pcb_state := Running, kernel_rsp := rsp - 96\<rparr>" "cr3 (vmem s) core = pml4_frame pr0"
    using assms(3,9) by (auto simp: run_process_ring3_def bnd_def prog_simps Let_def expect_some_def)
  let ?s1 = "s\<lparr>process_table := (process_table s)(p \<mapsto> pr\<lparr>pcb_state := Terminated\<rparr>)\<rparr>"
  obtain m a' where c: "clear_process_frames api tb (pr\<lparr>pcb_state := Terminated\<rparr>) (vmem s) = (Ok (), (vmem s)\<lparr>tables := m, frame_allocator := Some (Bitmap a')\<rparr>)"
      "freed api a (process_frames tb (tables (vmem s)) (pml4_frame pr)) a'"
    by (rule clear_process_frames_Ok [OF assms(1,2,4,5), of "pr\<lparr>pcb_state := Terminated\<rparr>"]) (use assms(10,11) in simp_all)
  have e: "on_events (current_running_event_info (of_nat core)) s = (Ok ev, s)"
    using assms(6) by (simp add: on_events_def zoom_def)
  have "sys_exit api tb core s = (Ok (LeaveTo (rsp - 96) return_address),
      ?s1\<lparr>vmem := (vmem s)\<lparr>tables := m, frame_allocator := Some (Bitmap a')\<rparr>, process_table := (process_table s)(p := None)\<rparr>)"
    using e assms(7-9) c(1) pr(1) by (simp add: sys_exit_def bnd_def prog_simps Let_def expect_some_def zoom_def)
  moreover have "pml4_frame pr \<in> set (process_frames tb (tables (vmem s)) (pml4_frame pr))" by (simp add: process_frames_def)
  ultimately show ?thesis using c(2) pr assms(11) by (auto simp: freed_def allocated_def)
qed

definition events_sample :: "unit ev_world" where
  "events_sample = \<lparr>next_id = 1, ev_store = [\<lparr>eid = 0, pid = 7, ev_future = (), ev_rewake_queue = 0, priority = 3, scheduled_clock = 0\<rparr>],
     rewake_store = [[]], runners = [0 \<mapsto> \<lparr>event_queues = [[], [], [], []], rewake_queue = 0, pending_events = {0}, current_event = Some 0, clock = 1\<rparr>]\<rparr>"

definition kernel_with_process :: "(nat \<Rightarrow> nat \<Rightarrow> nat, nat, nat, unit) kernel" where
  "kernel_with_process = \<lparr>vmem = vm_process, ram = (\<lambda>_. replicate 4096 0), events = events_sample, process_table = [7 \<mapsto> pcb_sample], next_pid = 8\<rparr>"

theorem exit_keeps_freed_table_loaded_witness:
  "\<exists>r s s' a'. run_process_ring3 0 0x1000 0x9000 7 kernel_with_process = (Ok r, s)
     \<and> sys_exit numbered_frames entry_tables 0 s = (Ok (LeaveTo 0x8FA0 0x1000), s')
     \<and> frame_allocator (vmem s') = Some (Bitmap a') \<and> cr3 (vmem s') 0 = 9 \<and> 9 \<notin> bm_used numbered_frames a'"
proof -
  let ?pr = "pcb_sample\<lparr>kernel_rip := 0x1000, pcb_state := Running, kernel_rsp := 0x9000 - 96\<rparr>"
  let ?s = "kernel_with_process\<lparr>vmem := vm_process\<lparr>cr3 := (\<lambda>_. 0)(0 := 9), tlb := (\<lambda>_ _. None)(0 := (\<lambda>_. None))\<rparr>, process_table := [7 \<mapsto> ?pr]\<rparr>"
  have r: "run_process_ring3 0 0x1000 0x9000 7 kernel_with_process = (Ok registers_new, ?s)"
    by (simp add: run_process_ring3_def bnd_def prog_simps expect_some_def kernel_with_process_def pcb_sample_def vm_process_def Let_def)
  have e: "current_running_event_info (of_nat 0) (events ?s) = (Ok \<lparr>info_priority = 3, info_pid = 7\<rparr>, events ?s)"
    by (simp add: current_running_event_info_def current_running_event_def get_runner_def get_event_def bnd_def prog_simps kernel_with_process_def
        events_sample_def)
  have t: "frame_allocator (vmem ?s) = Some (Bitmap bm_all_used)" "process_table ?s 7 = Some ?pr"
    "process_frames entry_tables (tables (vmem ?s)) (pml4_frame ?pr) = [5, 6, 7, 8, 9]"
    by (simp_all add: vm_process_def pcb_sample_def process_frames_sample)
  have d: "distinct (process_frames entry_tables (tables (vmem ?s)) (pml4_frame ?pr))" unfolding t(3) by simp
  have a: "allocated numbered_frames bm_all_used f" if "f \<in> set (process_frames entry_tables (tables (vmem ?s)) (pml4_frame ?pr))" for f
    using that unfolding t(3) by (intro allocated_sample) auto
  have "pml4_frame ?pr = 9" "(0x9000 :: u64) - 96 = 0x8FA0" by (simp_all add: pcb_sample_def)
  then show ?thesis
    using r exit_keeps_freed_table_loaded [OF numbered.phys_frames_axioms entry_tables_law r t(1) all_used(1) e _ _ t(2) d a] by auto
qed

section \<open>Preemption\<close>

lemma info_of_running:
  assumes "runners w c = Some r" "current_event r = Some e" "e < length (ev_store w)"
  shows "current_running_event_info c w = (Ok \<lparr>info_priority = priority (ev_store w ! e), info_pid = pid (ev_store w ! e)\<rparr>, w)"
  using assms by (simp add: current_running_event_info_def current_running_event_def bnd_def get_runner_Some [OF assms(1)] get_event_eq prog_simps)

lemma send_eoi_eq: "send_eoi c s = (Ok (), write_eoi c s)"
  by (simp add: send_eoi_def manager_send_eoi_def expect_p_def bnd_def prog_simps)

text \<open>C13: A timer interrupt while a process runs ends its turn: the saved registers become those of its control block, which is marked
  blocked, one new event with its number is queued at the lowest priority, the interrupt is acknowledged, and the
  handler leaves to the kernel stack and address of the process; when the new event runs on any core, it enters the
  process with the saved registers and its own address space.  An interrupt while an event without process runs, or
  while the process is not marked running, is acknowledged and changes nothing else.\<close>

theorem timer_preempts:
  assumes "runners (events s) (of_nat core) = Some r" "length (event_queues r) = 4" "current_event r = Some e" "e < length (ev_store (events s))"
    and "p = pid (ev_store (events s) ! e)" "p \<noteq> 0 \<Longrightarrow> process_table s p = Some pr"
  shows "if p \<noteq> 0 \<and> pcb_state pr = Running
    then \<exists>s'. timer_handler core fut m rsp s = (Ok (LeaveTo (kernel_rsp pr) (kernel_rip pr)), s')
      \<and> process_table s' = (process_table s)(p \<mapsto> pr\<lparr>registers := save_registers m rsp, pcb_state := Blocked\<rparr>)
      \<and> events s' = scheduled (of_nat core) (fut p) 3 p r (events s) \<and> vmem s' = write_eoi core (vmem s)
      \<and> (\<forall>c ra sp. \<exists>s''. run_process_ring3 c ra sp p s' = (Ok (save_registers m rsp), s'') \<and> cr3 (vmem s'') c = pml4_frame pr)
    else timer_handler core fut m rsp s = (Ok ReturnToInterrupted, s\<lparr>vmem := write_eoi core (vmem s)\<rparr>)"
proof -
  let ?i = "\<lparr>info_priority = priority (ev_store (events s) ! e), info_pid = p\<rparr>"
  have i: "on_events (current_running_event_info (of_nat core)) s = (Ok ?i, s)"
    using info_of_running [OF assms(1,3,4)] assms(5) by (simp add: on_events_def zoom_def)
  show ?thesis
  proof (cases "p \<noteq> 0 \<and> pcb_state pr = Running")
    case False
    then show ?thesis using i assms(6)
      by (auto simp: timer_handler_def bnd_def prog_simps Let_def zoom_def send_eoi_eq expect_some_def)
  next
    case True
    let ?pr = "pr\<lparr>registers := save_registers m rsp, pcb_state := Blocked\<rparr>"
    let ?s1 = "s\<lparr>process_table := (process_table s)(p \<mapsto> ?pr)\<rparr>" and ?w = "scheduled (of_nat core) (fut p) 3 p r (events s)"
    have "on_events (schedule_process (of_nat core) (fut p) p) ?s1 = (Ok (), ?s1\<lparr>events := ?w\<rparr>)"
      using runner_schedule_eq [OF assms(1,2), of "fut p" 3 p] by (simp add: on_events_def zoom_def schedule_process_def NUM_EVENT_PRIORITIES_def)
    then have "timer_handler core fut m rsp s = (Ok (LeaveTo (kernel_rsp pr) (kernel_rip pr)), ?s1\<lparr>events := ?w, vmem := write_eoi core (vmem s)\<rparr>)"
      using True i assms(6) by (simp add: timer_handler_def bnd_def prog_simps Let_def zoom_def send_eoi_eq expect_some_def)
    then show ?thesis using True
      by (simp add: run_process_ring3_def bnd_def prog_simps expect_some_def Let_def)
  qed
qed

theorem timer_preempts_witness:
  "\<exists>r s s'. run_process_ring3 0 0x1000 0x9000 7 kernel_with_process = (Ok r, s)
     \<and> timer_handler 0 (\<lambda>_. ()) (\<lambda>a. a) 0x5000 s = (Ok (LeaveTo 0x8FA0 0x1000), s') \<and> length (ev_store (events s')) = 2"
proof -
  let ?pr = "pcb_sample\<lparr>kernel_rip := 0x1000, pcb_state := Running, kernel_rsp := 0x9000 - 96\<rparr>"
  let ?s = "kernel_with_process\<lparr>vmem := vm_process\<lparr>cr3 := (\<lambda>_. 0)(0 := 9), tlb := (\<lambda>_ _. None)(0 := (\<lambda>_. None))\<rparr>, process_table := [7 \<mapsto> ?pr]\<rparr>"
  let ?r = "\<lparr>event_queues = [[], [], [], []], rewake_queue = 0, pending_events = {0}, current_event = Some 0, clock = 1\<rparr>"
  have r: "run_process_ring3 0 0x1000 0x9000 7 kernel_with_process = (Ok registers_new, ?s)"
    by (simp add: run_process_ring3_def bnd_def prog_simps expect_some_def kernel_with_process_def pcb_sample_def vm_process_def Let_def)
  have h: "runners (events ?s) (of_nat 0) = Some ?r" "7 = pid (ev_store (events ?s) ! 0)" "0 < length (ev_store (events ?s))"
    "process_table ?s 7 = Some ?pr" "length (ev_store (events ?s)) = 1"
    by (simp_all add: kernel_with_process_def events_sample_def)
  have "(0x9000 :: u64) - 96 = 0x8FA0" by simp
  then show ?thesis
    using r timer_preempts [OF h(1) _ _ h(3,2) h(4), where m = "\<lambda>a. a" and rsp = "0x5000" and fut = "\<lambda>_. ()"] h(5) by (fastforce simp: scheduled_def)
qed

end
