(* ===== verification/Loader_Props.thy ===== *)
theory Loader_Props
  imports Process_Props
begin

text \<open>
  What the loader puts into the pages of a segment.
\<close>

section \<open>Filling a page\<close>

text \<open>\<open>Page::containing_address\<close> rounds down to a page boundary, and \<open>clean_up\<close> releases empty tables only, so that it changes no
  translation.\<close>

definition page_span_law :: "('m, 'p, 'f) mapper_api \<Rightarrow> bool" where
  "page_span_law mp \<longleftrightarrow> (\<forall>a p. page_containing mp a = Some p \<longrightarrow> page_start mp p = a div 4096 * 4096)"

definition clean_up_law :: "('m, 'p, 'f, 'e) table_api \<Rightarrow> bool" where
  "clean_up_law tb \<longleftrightarrow> (\<forall>h m g m' g'. clean_up tb h (m, g) = (Ok (), m', g') \<longrightarrow> translate tb m' = translate tb m)"

text \<open>The page at distance \<open>off\<close> from the first page of the segment gets the bytes of the file from there on, and zeros beyond the
  size in the file.\<close>

definition page_bytes :: "bytes \<Rightarrow> program_header \<Rightarrow> nat \<Rightarrow> bytes" where
  "page_bytes elf_bytes ph off = map (\<lambda>k. if off + k < p_filesz ph then elf_bytes ! (p_offset ph + off + k) else 0) [0..<4096]"

lemma length_page_bytes [simp]: "length (page_bytes elf_bytes ph off) = 4096"
  by (simp add: page_bytes_def del: upt_rec_numeral)

lemma page_bytes_nth: "k < 4096 \<Longrightarrow> page_bytes elf_bytes ph off ! k = (if off + k < p_filesz ph then elf_bytes ! (p_offset ph + off + k) else 0)"
  by (simp add: page_bytes_def del: upt_rec_numeral)

lemma page_of_offset:
  assumes "page_law mp" "page_span_law mp" "page_containing mp va = Some q" "va mod 4096 = 0" "b < 4096"
    and "page_containing mp (va + b) = Some q'"
  shows "q' = q" "page_start mp q = va"
proof -
  have "va div 4096 * 4096 = va" using assms(4) div_mult_mod_eq [of va 4096] by simp
  moreover have "(va + b) div 4096 = va div 4096" using assms(4,5) by (auto elim!: dvdE simp: mod_eq_0_iff_dvd)
  ultimately have "page_start mp q' = va" "page_start mp q = va"
    using assms(2,3,6) unfolding page_span_law_def by (metis, metis)
  then show "q' = q" "page_start mp q = va" using assms(1) unfolding page_law_def by (metis option.inject, blast)
qed

lemma write_virt_Ok:
  assumes "page_law mp" "page_span_law mp" "page_containing mp va = Some q" "va mod 4096 = 0" "b < 4096"
    and "translate tb (tables (vmem s)) h q = Some (f, fl)" "write_virt mp tb h (va + b) bs s = (Ok (), s')"
  shows "s' = s\<lparr>ram := (ram s)(f := buf_splice (ram s f) b bs)\<rparr>"
proof -
  obtain q' where q': "page_containing mp (va + b) = Some q'"
    using assms(7) by (cases "page_containing mp (va + b)") (simp_all add: write_virt_def)
  note p = page_of_offset [OF assms(1-5) q']
  have "va + b - page_start mp q = b" using p(2) by simp
  then show ?thesis using assms(6,7) q' p(1) by (simp add: write_virt_def)
qed

lemma splice_twice:
  assumes "length buf = 4096" "b < 4096" "off mod 4096 = 0" "b = p_filesz ph - off" "src = take b (drop (p_offset ph + off) elf_bytes)"
    and "length src = b"
  shows "buf_splice (buf_splice buf 0 src) b (replicate (4096 - b) 0) = page_bytes elf_bytes ph off"
proof (rule nth_equalityI)
  show "length (buf_splice (buf_splice buf 0 src) b (replicate (4096 - b) 0)) = length (page_bytes elf_bytes ph off)"
    using assms(1,2,6) by (simp add: buf_simps)
  fix i assume "i < length (buf_splice (buf_splice buf 0 src) b (replicate (4096 - b) 0))"
  then have i: "i < 4096" using assms(1,2,6) by (simp add: buf_simps)
  have "src ! i = elf_bytes ! (p_offset ph + off + i)" if "i < b"
    using that assms(6) unfolding assms(5) by simp
  then show "buf_splice (buf_splice buf 0 src) b (replicate (4096 - b) 0) ! i = page_bytes elf_bytes ph off ! i"
    using i assms(1,2,4,6) by (auto simp: buf_simps page_bytes_nth)
qed

lemma splice_once:
  assumes "length buf = 4096" "4096 \<le> p_filesz ph - off" "src = take 4096 (drop (p_offset ph + off) elf_bytes)" "length src = 4096"
  shows "buf_splice buf 0 src = page_bytes elf_bytes ph off"
proof (rule nth_equalityI)
  show "length (buf_splice buf 0 src) = length (page_bytes elf_bytes ph off)" using assms(1,4) by (simp add: buf_simps)
  fix i assume "i < length (buf_splice buf 0 src)"
  then have i: "i < 4096" using assms(1,4) by (simp add: buf_simps)
  moreover have "src ! i = elf_bytes ! (p_offset ph + off + i)" using i assms(4) unfolding assms(3) by simp
  moreover have "off + i < p_filesz ph" using i assms(2) by linarith
  ultimately show "buf_splice buf 0 src ! i = page_bytes elf_bytes ph off ! i"
    using assms(1,4) by (simp add: buf_simps page_bytes_nth)
qed

lemma copy_page_Ok:
  assumes "page_law mp" "page_span_law mp" "page_containing mp va = Some q" "va mod 4096 = 0"
    and "translate tb (tables (vmem s)) h q = Some (f, fl)" "length (ram s f) = 4096" "off mod 4096 = 0"
    and "copy_page mp tb elf_bytes ph h va off s = (Ok (), s')"
  shows "s' = s\<lparr>ram := (ram s)(f := page_bytes elf_bytes ph off)\<rparr>"
proof -
  let ?b = "p_filesz ph - off" and ?src = "\<lambda>n. take n (drop (p_offset ph + off) elf_bytes)"
  note w = write_virt_Ok [OF assms(1-4)]
  consider "4096 \<le> ?b" | "0 < ?b" "?b < 4096" | "?b = 0" by linarith
  then show ?thesis
  proof cases
    case 1
    then have "write_virt mp tb h va (?src 4096) s = (Ok (), s')" "p_offset ph + off + 4096 \<le> length elf_bytes"
      using assms(7,8) by (auto simp: copy_page_def PAGE_SIZE_def Let_def basic_Ok_iff bnd_Ok_iff sub_slice_def min_def split: if_splits)
    then show ?thesis using w [of 0 tb s h f fl "?src 4096" s'] assms(5) splice_once [OF assms(6) 1 refl] by simp
  next
    case 2
    then obtain t where t: "write_virt mp tb h va (?src ?b) s = (Ok (), t)" "p_offset ph + off + ?b \<le> length elf_bytes"
        "write_virt mp tb h (va + ?b) (replicate (4096 - ?b) 0) t = (Ok (), s')"
      using assms(7,8) by (auto simp: copy_page_def PAGE_SIZE_def Let_def basic_Ok_iff bnd_Ok_iff sub_slice_def min_def split: if_splits)
    then have t': "t = s\<lparr>ram := (ram s)(f := buf_splice (ram s f) 0 (?src ?b))\<rparr>" using w [of 0 tb s h f fl] assms(5) by simp
    have "s' = t\<lparr>ram := (ram t)(f := buf_splice (ram t f) ?b (replicate (4096 - ?b) 0))\<rparr>"
      by (rule w [OF 2(2) _ t(3)]) (simp add: t' assms(5))
    then show ?thesis using t' t(2) splice_twice [OF assms(6) 2(2) assms(7) refl refl] by simp
  next
    case 3
    then have "write_virt mp tb h (va + 0) (replicate 4096 0) s = (Ok (), s')"
      using assms(7,8) by (simp add: copy_page_def PAGE_SIZE_def Let_def basic_Ok_iff bnd_Ok_iff)
    from w [OF _ assms(5) this] have "s' = s\<lparr>ram := (ram s)(f := buf_splice (ram s f) 0 (replicate 4096 0))\<rparr>" by simp
    moreover have "page_bytes elf_bytes ph off = replicate 4096 0" using 3 by (intro nth_equalityI) (simp_all add: page_bytes_nth)
    moreover have "buf_splice (ram s f) 0 (replicate 4096 0) = replicate 4096 0" using assms(6) by (simp add: buf_splice_def)
    ultimately show ?thesis by simp
  qed
qed

section \<open>Loading a page\<close>

lemma map_kernel_frame_Ok:
  assumes "map_to_law api mp tr" "map_kernel_frame mp core h f fl s = Some (Ok va, s')"
  obtains q where "va = EPHEMERAL_KERNEL_MAPPINGS_START + next_eph_offset s" "page_containing mp va = Some q"
    "tr (tables s') h q = Some (f, fl)" "\<And>h' q'. q' \<noteq> q \<Longrightarrow> tr (tables s') h' q' = tr (tables s) h' q'"
proof -
  let ?s = "s\<lparr>next_eph_offset := next_eph_offset s + 0x1000\<rparr>"
  obtain q t where q: "va = EPHEMERAL_KERNEL_MAPPINGS_START + next_eph_offset s" "page_containing mp va = Some q"
      "map_to_vm mp h q f fl ?s = Some (Ok (Ok ()), t)" "s' = invlpg mp core (page_start mp q) t"
    using assms(2) by (auto simp: map_kernel_frame_def dbnd_Ok_iff total_Ok_iff expect_Ok_iff basic_Ok_iff u64_add_def split: if_splits)
  have t: "tables s' = tables t" by (simp add: q(4) invlpg_def split: option.splits)
  obtain g m g' where m: "map_to mp h q f fl (tables s, g) = Some (Ok (), m, g')" "tables t = m"
    using q(3) by (auto simp: map_to_vm_def split: option.splits prod.splits if_splits)
  note law = assms(1) [unfolded map_to_law_def, rule_format, OF m(1)]
  show thesis by (rule that [OF q(1,2)]) (use law m(2) t in auto)
qed

lemma set_shootdown_addr_tables: "set_shootdown_addr c v s = (r, s') \<Longrightarrow> tables s' = tables s"
  by (auto simp: set_shootdown_addr_def bnd_def lift_res_def gets_def modify_st_def index_at_def split: prod.splits res.splits if_splits)

lemma send_ipi_tables: "send_ipi c v s = (r, s') \<Longrightarrow> tables s' = tables s"
  by (auto simp: send_ipi_def manager_send_ipi_def expect_p_def write_icr_def Let_def bnd_def prog_simps modify_st_def split: prod.splits res.splits if_splits)

lemma tlb_shootdown_tables: "tlb_shootdown mp core v s = (r, s') \<Longrightarrow> tables s' = tables s"
proof -
  assume h: "tlb_shootdown mp core v s = (r, s')"
  have k: "keeps (\<lambda>t. tables t = tables s) (for_each [0..<MAX_CORES] (\<lambda>c. if c \<noteq> core
      then bnd (set_shootdown_addr c v) (\<lambda>_. send_ipi (of_nat c) TLB_SHOOTDOWN_VECTOR) else ret ()))"
    by (intro keeps_rules) (simp_all add: keeps_def set_shootdown_addr_tables [OF prod.collapse [symmetric]] send_ipi_tables [OF prod.collapse [symmetric]] ret_def)
  show ?thesis using h k
    by (auto simp: tlb_shootdown_def keeps_def bnd_def modify_st_def invlpg_def split: prod.splits res.splits option.splits)
qed

lemma update_permissions_flags:
  assumes "update_flags_law mp tr" "update_permissions mp core h p fl s = (Ok (), s')" "tr (tables s) h p = Some (f, fl0)"
  shows "tr (tables s') h p = Some (f, fl)" "\<And>h' q. q \<noteq> p \<Longrightarrow> tr (tables s') h' q = tr (tables s) h' q"
proof -
  obtain m where m: "update_flags mp h p fl (tables s) = (Ok (), m)" "tlb_shootdown mp core (page_start mp p) (s\<lparr>tables := m\<rparr>) = (Ok (), s')"
    using assms(2) by (auto simp: update_permissions_def bnd_Ok_iff expect_p_def zoom_def split: prod.splits res.splits)
  have "tables s' = m" using tlb_shootdown_tables [OF m(2)] by simp
  moreover obtain f' where "tr (tables s) h p = Some (f', fl0)" "tr m h p = Some (f', fl)" "\<And>h' q. q \<noteq> p \<Longrightarrow> tr m h' q = tr (tables s) h' q"
    by (rule update_flags_Ok [where tr = tr, OF assms(1) m(1)]) (use assms(3) in auto)
  ultimately show "tr (tables s') h p = Some (f, fl)" "\<And>h' q. q \<noteq> p \<Longrightarrow> tr (tables s') h' q = tr (tables s) h' q"
    using assms(3) by auto
qed

lemma on_vm_Ok_iff: "on_vm p s = Some (Ok x, s') \<longleftrightarrow> (\<exists>v. p (vmem s) = Some (Ok x, v) \<and> s' = s\<lparr>vmem := v\<rparr>)"
  by (simp add: on_vm_def dzoom_Ok_iff)

lemma clean_up_vm_Ok:
  assumes "clean_up_law tb" "clean_up_vm tb h s = (Ok (), s')"
  shows "translate tb (tables s') = translate tb (tables s)"
proof -
  obtain g m g' where "clean_up tb h (tables s, g) = (Ok (), m, g')" "tables s' = m"
    using assms(2) by (auto simp: clean_up_vm_def split: option.splits prod.splits)
  then show ?thesis using assms(1) unfolding clean_up_law_def by blast
qed

text \<open>The stages of \<open>load_page\<close>.\<close>

lemma load_page_stages:
  assumes "load_page api mp tb core elf_bytes ph user kpml4 sp page s = Some (Ok (), s')"
  obtains f v1 va v2 s3 v4 q f' v5 v6 v7 where
    "create_mapping api mp user page (Some (PRESENT OR USER_ACCESSIBLE OR WRITABLE)) (vmem s) = Some (Ok f, v1)"
    "map_kernel_frame mp core kpml4 f (PRESENT OR USER_ACCESSIBLE OR WRITABLE) v1 = Some (Ok va, v2)"
    "copy_page mp tb elf_bytes ph kpml4 va (page_start mp page - page_start mp sp) (s\<lparr>vmem := v2\<rparr>) = (Ok (), s3)"
    "update_permissions mp core user page (segment_flags ph) (vmem s3) = (Ok (), v4)"
    "page_containing mp va = Some q" "unmap_vm mp kpml4 q v4 = (Ok f', v5)"
    "clean_up_vm tb kpml4 (invlpg mp core (page_start mp q) v5) = (Ok (), v6)"
    "update_permissions mp core user page (segment_flags ph) v6 = (Ok (), v7)" "s' = s3\<lparr>vmem := v7\<rparr>"
  using assms unfolding load_page_def Let_def
  by (auto simp: dbnd_Ok_iff on_vm_Ok_iff total_Ok_iff expect_Ok_iff basic_Ok_iff intro: that)

text \<open>C11: When \<open>load_elf\<close> has loaded one page of a segment, the page, which was not mapped, is mapped in the new address space to a
  frame with the flags of the segment, the frame holds the bytes of the file from the file offset of the segment plus the
  distance of the page from the first page of the segment, followed by zeros beyond the file size, no other
  frame has changed, and the temporary kernel alias is unmapped again.  The distance counts from the page boundary and not
  from \<open>p_vaddr\<close>: the byte at address \<open>p_vaddr + i\<close> is byte \<open>p_offset + p_vaddr mod 4096 + i\<close> of the file, the right one
  only for aligned segments.\<close>

theorem load_page_contents:
  assumes "lawful_mapper api mp (translate tb)" "page_span_law mp" "clean_up_law tb"
    and "load_page api mp tb core elf_bytes ph user kpml4 start_page page s = Some (Ok (), s')"
    and "page_containing mp (p_vaddr ph) = Some start_page" "page_start mp page < EPHEMERAL_KERNEL_MAPPINGS_START"
    and "next_eph_offset (vmem s) mod 4096 = 0" "\<And>f. length (ram s f) = 4096"
  shows "\<exists>f q. translate tb (tables (vmem s)) user page = None
    \<and> translate tb (tables (vmem s')) user page = Some (f, segment_flags ph)
    \<and> ram s' = (ram s)(f := page_bytes elf_bytes ph (page_start mp page - page_start mp start_page))
    \<and> page_containing mp (EPHEMERAL_KERNEL_MAPPINGS_START + next_eph_offset (vmem s)) = Some q
    \<and> translate tb (tables (vmem s')) kpml4 q = None
    \<and> (\<forall>i k. p_vaddr ph + i = page_start mp page + k \<and> k < 4096 \<and> page_start mp start_page \<le> page_start mp page \<longrightarrow>
         ram s' f ! k = (if p_vaddr ph mod 4096 + i < p_filesz ph then elf_bytes ! (p_offset ph + p_vaddr ph mod 4096 + i) else 0))"
proof -
  let ?tr = "translate tb" and ?E = EPHEMERAL_KERNEL_MAPPINGS_START and ?o = "next_eph_offset (vmem s)"
  let ?off = "page_start mp page - page_start mp start_page"
  note laws = lawful_mapperD [OF assms(1)]
  obtain f v1 va v2 s3 v4 q f' v5 v6 v7 where st:
    "create_mapping api mp user page (Some (PRESENT OR USER_ACCESSIBLE OR WRITABLE)) (vmem s) = Some (Ok f, v1)"
    "map_kernel_frame mp core kpml4 f (PRESENT OR USER_ACCESSIBLE OR WRITABLE) v1 = Some (Ok va, v2)"
    "copy_page mp tb elf_bytes ph kpml4 va ?off (s\<lparr>vmem := v2\<rparr>) = (Ok (), s3)"
    "update_permissions mp core user page (segment_flags ph) (vmem s3) = (Ok (), v4)"
    "page_containing mp va = Some q" "unmap_vm mp kpml4 q v4 = (Ok f', v5)"
    "clean_up_vm tb kpml4 (invlpg mp core (page_start mp q) v5) = (Ok (), v6)"
    "update_permissions mp core user page (segment_flags ph) v6 = (Ok (), v7)" "s' = s3\<lparr>vmem := v7\<rparr>"
    by (rule load_page_stages [OF assms(4)]) (rule that)
  obtain m g2 where c: "v1 = (vmem s)\<lparr>tables := m, frame_allocator := Some g2\<rparr>" "?tr (tables (vmem s)) user page = None"
      "?tr m user page = Some (f, PRESENT OR USER_ACCESSIBLE OR WRITABLE)"
    by (rule create_mapping_Ok [where tr = ?tr, OF laws(1) st(1)]) (rule that, simp_all)
  obtain k: "va = ?E + ?o" and kt: "?tr (tables v2) kpml4 q = Some (f, PRESENT OR USER_ACCESSIBLE OR WRITABLE)"
      and ko: "\<And>h' q'. q' \<noteq> q \<Longrightarrow> ?tr (tables v2) h' q' = ?tr (tables v1) h' q'"
    by (rule map_kernel_frame_Ok [where tr = ?tr, OF laws(1) st(2)]) (use st(5) c(1) in auto)
  have al: "va mod 4096 = 0" using k assms(7) by (simp add: EPHEMERAL_KERNEL_MAPPINGS_START_def mod_add_eq [symmetric])
  have am: "page_start mp p mod 4096 = 0" for p using laws(4) assms(2) unfolding page_law_def page_span_law_def by (metis mod_mult_self2_is_0)
  have sp: "page_start mp start_page = p_vaddr ph div 4096 * 4096" using assms(2,5) by (simp add: page_span_law_def)
  have om: "?off mod 4096 = 0" using am by (simp add: mod_eq_0_iff_dvd dvd_diff_nat)
  have pq: "page \<noteq> q"
    using page_of_offset(2) [OF laws(4) assms(2) st(5) al, of 0 q] st(5) assms(6) k by auto
  have s3: "s3 = s\<lparr>vmem := v2, ram := (ram s)(f := page_bytes elf_bytes ph ?off)\<rparr>"
    using copy_page_Ok [OF laws(4) assms(2) st(5) al _ _ om st(3)] kt assms(8) by simp
  have u2: "?tr (tables v2) user page = Some (f, PRESENT OR USER_ACCESSIBLE OR WRITABLE)" using ko [OF pq] c(1,3) by simp
  note p4 = update_permissions_flags [where tr = ?tr, OF laws(3) st(4), of f]
  have u4: "?tr (tables v4) user page = Some (f, segment_flags ph)" using p4(1) u2 s3 by simp
  obtain m5 where 5: "v5 = v4\<lparr>tables := m5\<rparr>" "?tr m5 kpml4 q = None" "\<And>h' q'. q' \<noteq> q \<Longrightarrow> ?tr m5 h' q' = ?tr (tables v4) h' q'"
    by (rule unmap_vm_Ok [where tr = ?tr, OF laws(2) st(6)]) (rule that)
  have t6: "?tr (tables v6) = ?tr m5" using clean_up_vm_Ok [OF assms(3) st(7)] 5(1) by (simp add: invlpg_def split: option.splits)
  have u6: "?tr (tables v6) user page = Some (f, segment_flags ph)" using t6 5(3) [OF pq] u4 by simp
  note p7 = update_permissions_flags [where tr = ?tr, OF laws(3) st(8) u6]
  have q7: "?tr (tables v7) kpml4 q = None" using p7(2) [of q kpml4] pq t6 5(2) by simp
  have by_addr: "page_bytes elf_bytes ph ?off ! k = (if p_vaddr ph mod 4096 + i < p_filesz ph then elf_bytes ! (p_offset ph + p_vaddr ph mod 4096 + i) else 0)"
    if "p_vaddr ph + i = page_start mp page + k" "k < 4096" "page_start mp start_page \<le> page_start mp page" for i k
  proof -
    have "?off + k = p_vaddr ph mod 4096 + i" using that(1,3) sp div_mult_mod_eq [of "p_vaddr ph" 4096] by linarith
    then show ?thesis using page_bytes_nth [OF that(2), of elf_bytes ph ?off] by (simp add: add.assoc)
  qed
  show ?thesis using c(2) p7(1) q7 st(5,9) s3 k by_addr by auto
qed

text \<open>A file of three bytes whose segment is to start at address 1: its first page is loaded with the first byte of the file at
  address 0.\<close>

definition flat_table_api :: "(flat_tables, nat, nat, nat) table_api" where
  "flat_table_api = \<lparr>get_table = (\<lambda>_ _. []), put_table = (\<lambda>_ _ m. m), is_unused = (\<lambda>_. True), unused = 0, entry_frame = (\<lambda>e. e),
     translate = flat_tr, clean_up = (\<lambda>_. ret ())\<rparr>"

definition ph_sample :: program_header where
  "ph_sample = \<lparr>p_type = 1, p_flags = 6, p_offset = 0, p_vaddr = 1, p_filesz = 3, p_memsz = 3\<rparr>"

definition kernel_loading :: "(flat_tables, nat, nat, unit) kernel" where
  "kernel_loading = \<lparr>vmem = vm_sample, ram = (\<lambda>_. page_bytes [] ph_sample 4096), events = events_sample, process_table = (\<lambda>_. None), next_pid = 1\<rparr>"

lemma shootdown_sample: "length (tlb_shootdown_addr s) = 2 \<Longrightarrow> tlb_shootdown mp 0 v s = (Ok (), shot mp 0 v s)"
  by (rule tlb_shootdown_eq) (simp_all add: MAX_CORES_def)

lemma update_permissions_flat:
  assumes "tables s h p = Some (f, fl0)" "length (tlb_shootdown_addr s) = 2"
  shows "update_permissions flat_mapper 0 h p fl s
    = (Ok (), shot flat_mapper 0 (page_start flat_mapper p) (s\<lparr>tables := (tables s)(h := (tables s h)(p \<mapsto> (f, fl)))\<rparr>))"
proof -
  have "update_flags flat_mapper h p fl (tables s) = (Ok (), (tables s)(h := (tables s h)(p \<mapsto> (f, fl))))"
    using assms(1) by (simp add: flat_mapper_def)
  then show ?thesis using assms(2) by (simp add: update_permissions_def bnd_def expect_p_def zoom_def shootdown_sample)
qed

lemma load_page_flat:
  "\<exists>s'. load_page numbered_frames flat_mapper flat_table_api 0 [10, 20, 30] ph_sample 2 0 0 0 kernel_loading = Some (Ok (), s')"
proof -
  let ?E = EPHEMERAL_KERNEL_MAPPINGS_START and ?q = "EPHEMERAL_KERNEL_MAPPINGS_START div 4096" and ?fl = "PRESENT OR USER_ACCESSIBLE OR WRITABLE"
  let ?v1 = "vm_sample\<lparr>tables := (tables vm_sample)(2 := (tables vm_sample 2)(0 \<mapsto> (1, ?fl))), frame_allocator := Some (Bitmap bm_sample_next)\<rparr>"
  let ?m2 = "(tables ?v1)(0 := (tables ?v1 0)(?q \<mapsto> (1, ?fl)))"
  let ?v2 = "invlpg flat_mapper 0 (?q * 4096) (?v1\<lparr>next_eph_offset := 0x1000, tables := ?m2\<rparr>)"
  have E: "?q * 4096 = ?E" "?E + 3 < 2 ^ 64" "(?E + 3) div 4096 = ?q" "?q \<noteq> 0" "?q \<noteq> 5" "?q \<noteq> 6" by (simp_all add: EPHEMERAL_KERNEL_MAPPINGS_START_def)
  have c: "create_mapping numbered_frames flat_mapper 2 0 (Some ?fl) vm_sample = Some (Ok 1, ?v1)"
    using bm_sample_allocate
    by (simp add: create_mapping_def alloc_frame_vm_def dzoom_def alloc_frame_def with_generic_allocator_def dbnd_def prog_simps
        map_to_vm_def flat_mapper_def vm_sample_def)
  have k: "map_kernel_frame flat_mapper 0 0 1 ?fl ?v1 = Some (Ok ?E, ?v2)"
    using E by (simp add: map_kernel_frame_def dbnd_def prog_simps u64_add_def expect_some_def map_to_vm_def flat_mapper_def vm_sample_def expect_ok_def)
  have t2: "tables ?v2 = ?m2" "tlb_shootdown_addr ?v2 = [0, 0]" "frame_allocator ?v2 = Some (Bitmap bm_sample_next)"
    by (simp_all add: invlpg_def flat_mapper_def vm_sample_def)
  have cp: "\<exists>s3. copy_page flat_mapper flat_table_api [10, 20, 30] ph_sample 0 ?E 0 (kernel_loading\<lparr>vmem := ?v2\<rparr>) = (Ok (), s3) \<and> vmem s3 = ?v2"
    using E t2 by (simp add: copy_page_def PAGE_SIZE_def ph_sample_def bnd_def prog_simps sub_slice_def write_virt_def flat_mapper_def flat_table_api_def)
  then obtain s3 where s3: "copy_page flat_mapper flat_table_api [10, 20, 30] ph_sample 0 ?E 0 (kernel_loading\<lparr>vmem := ?v2\<rparr>) = (Ok (), s3)" "vmem s3 = ?v2"
    by blast
  let ?f = "segment_flags ph_sample"
  let ?v4 = "shot flat_mapper 0 (page_start flat_mapper 0) (?v2\<lparr>tables := ?m2(2 := (?m2 2)(0 \<mapsto> (1, ?f)))\<rparr>)"
  have 4: "update_permissions flat_mapper 0 2 0 ?f (vmem s3) = (Ok (), ?v4)"
    using update_permissions_flat [of ?v2 2 0 1 ?fl ?f] t2 s3(2) by simp
  have "\<exists>v5. unmap_vm flat_mapper 0 ?q ?v4 = (Ok 1, v5) \<and> tables v5 2 0 = Some (1, ?f) \<and> length (tlb_shootdown_addr v5) = 2 \<and> frame_allocator v5 \<noteq> None"
    using t2 by (simp add: unmap_vm_def expect_p_def zoom_def flat_mapper_def)
  then obtain v5 where 5: "unmap_vm flat_mapper 0 ?q ?v4 = (Ok 1, v5)" "tables v5 2 0 = Some (1, ?f)" "length (tlb_shootdown_addr v5) = 2" "frame_allocator v5 \<noteq> None"
    by blast
  let ?v6 = "invlpg flat_mapper 0 (?q * 4096) v5"
  have 6: "clean_up_vm flat_table_api 0 ?v6 = (Ok (), ?v6)" "tables ?v6 2 0 = Some (1, ?f)" "length (tlb_shootdown_addr ?v6) = 2"
    using 5(2-4) by (auto simp: clean_up_vm_def flat_table_api_def ret_def invlpg_def flat_mapper_def)
  have u: "page_containing flat_mapper ?E = Some ?q" "page_start flat_mapper ?q = ?q * 4096" "page_start flat_mapper 0 = 0" "vmem kernel_loading = vm_sample"
    by (simp_all add: flat_mapper_def kernel_loading_def)
  show ?thesis
    unfolding load_page_def Let_def
    using c k s3 4 5(1) 6(1) u update_permissions_flat [OF 6(2,3), of ?f]
    by (simp add: dbnd_def on_vm_def dzoom_def total_def expect_some_def ret_def modify_st_def)
qed

theorem load_page_contents_witness:
  "\<exists>s' f. load_page numbered_frames flat_mapper flat_table_api 0 [10, 20, 30] ph_sample 2 0 0 0 kernel_loading = Some (Ok (), s')
     \<and> translate flat_table_api (tables (vmem s')) 2 0 = Some (f, segment_flags ph_sample) \<and> ram s' f ! 1 = 20"
proof -
  have tr: "translate flat_table_api = flat_tr" by (simp add: flat_table_api_def)
  have h: "lawful_mapper numbered_frames flat_mapper (translate flat_table_api)" "page_span_law flat_mapper" "clean_up_law flat_table_api"
    unfolding tr using flat_mapper_lawful
    by (simp_all add: page_span_law_def flat_mapper_def clean_up_law_def flat_table_api_def ret_def)
  have k: "page_containing flat_mapper (p_vaddr ph_sample) = Some 0" "page_start flat_mapper 0 = 0" "0 < EPHEMERAL_KERNEL_MAPPINGS_START"
    "next_eph_offset (vmem kernel_loading) mod 4096 = 0" "length (ram kernel_loading f) = 4096" for f
    by (simp_all add: flat_mapper_def ph_sample_def kernel_loading_def vm_sample_def EPHEMERAL_KERNEL_MAPPINGS_START_def)
  obtain s' where s': "load_page numbered_frames flat_mapper flat_table_api 0 [10, 20, 30] ph_sample 2 0 0 0 kernel_loading = Some (Ok (), s')"
    using load_page_flat by blast
  have lt: "page_start flat_mapper 0 < EPHEMERAL_KERNEL_MAPPINGS_START" using k(2,3) by simp
  obtain f where f: "translate flat_table_api (tables (vmem s')) 2 0 = Some (f, segment_flags ph_sample)"
      "\<And>i j. p_vaddr ph_sample + i = page_start flat_mapper 0 + j \<and> j < 4096 \<and> page_start flat_mapper 0 \<le> page_start flat_mapper 0 \<Longrightarrow>
         ram s' f ! j = (if p_vaddr ph_sample mod 4096 + i < p_filesz ph_sample
           then [10, 20, 30] ! (p_offset ph_sample + p_vaddr ph_sample mod 4096 + i) else 0)"
    using load_page_contents [OF h s' k(1) lt k(4,5)] by blast
  have "ram s' f ! 1 = 20" using f(2) [of 0 1] k(2) by (simp add: ph_sample_def)
  then show ?thesis using s' f(1) by blast
qed

end
