(* ===== verification/Pci.thy ===== *)
theory Pci
  imports Kernel_Prelude
begin

text \<open>
  The PCI bus (\<open>devices/pci.rs\<close>): configuration space through the ports \<open>0xCF8\<close> and \<open>0xCFC\<close>, the scan of the bus, and the search
  for an SD host controller (\<open>find_sd_card\<close> of \<open>devices/sd_card.rs\<close>).

  The ports are hardware, so the model takes them as the record \<open>port_api\<close> over a state \<open>'h\<close> of the machine; \<open>config_law\<close>
  states the configuration mechanism: the address port latches an address, and the data port reads and writes
  the register that the latched address selects.
\<close>

section \<open>Ports\<close>

record 'h port_api =
  port_out :: "u16 \<Rightarrow> u32 \<Rightarrow> 'h \<Rightarrow> 'h"
  port_in :: "u16 \<Rightarrow> 'h \<Rightarrow> u32 \<times> 'h"

definition CONFIG_ADDRESS_BUS :: u16 where "CONFIG_ADDRESS_BUS = 0xCF8"
definition CONFIG_DATA_BUS :: u16 where "CONFIG_DATA_BUS = 0xCFC"

definition outl :: "'h port_api \<Rightarrow> u16 \<Rightarrow> u32 \<Rightarrow> ('h, 'e, unit) prog" where
  "outl io port v = modify_st (port_out io port v)"

definition inl :: "'h port_api \<Rightarrow> u16 \<Rightarrow> ('h, 'e, u32) prog" where
  "inl io port h = (case port_in io port h of (v, h') \<Rightarrow> (Ok v, h'))"

section \<open>Configuration space\<close>

definition PCI_BUS_MASTER :: u16 where "PCI_BUS_MASTER = 4"
definition PCI_MEMORY_SPACE :: u16 where "PCI_MEMORY_SPACE = 2"

record device_info =
  bus :: u8
  device :: u8
  device_id :: u16
  vendor_id :: u16
  status :: u16
  command :: u16
  class_code :: u8
  sub_class :: u8
  programming_interface :: u8
  revision_id :: u8
  built_in_self_test :: u8
  header_type :: u8
  latency_timer :: u8
  cache_line_size :: u8

definition get_pci_addres :: "u8 \<Rightarrow> u8 \<Rightarrow> u8 \<Rightarrow> u8 \<Rightarrow> ('e, u32) res" where
  "get_pci_addres b d f offset =
    (if offset mod 4 \<noteq> 0 \<or> \<not> f < 8 \<or> \<not> d < 32 then Panic
     else Ok (push_bit 31 1 OR push_bit 16 (ucast b) OR push_bit 11 (ucast d) OR push_bit 8 (ucast f) OR ucast offset))"

text \<open>\<open>PCI_LOCK.lock();\<close> drops its guard at the end of the statement, so what follows runs without the lock.\<close>

definition read_config :: "'h port_api \<Rightarrow> u8 \<Rightarrow> u8 \<Rightarrow> u8 \<Rightarrow> u8 \<Rightarrow> ('h, 'e, u32) prog" where
  "read_config io b d f offset =
    bnd (lift_res (get_pci_addres b d f offset)) (\<lambda>address.
    bnd (outl io CONFIG_ADDRESS_BUS address) (\<lambda>_.
    bnd (inl io CONFIG_DATA_BUS) (\<lambda>data.
    bnd (outl io CONFIG_ADDRESS_BUS 0) (\<lambda>_.
    ret data))))"

definition write_pci_data :: "'h port_api \<Rightarrow> u8 \<Rightarrow> u8 \<Rightarrow> u8 \<Rightarrow> u8 \<Rightarrow> u32 \<Rightarrow> ('h, 'e, unit) prog" where
  "write_pci_data io b d f offset data =
    bnd (lift_res (get_pci_addres b d f offset)) (\<lambda>address.
    bnd (outl io CONFIG_ADDRESS_BUS address) (\<lambda>_.
    bnd (outl io CONFIG_DATA_BUS data) (\<lambda>_.
    outl io CONFIG_ADDRESS_BUS 0)))"

definition write_pci_command :: "'h port_api \<Rightarrow> u8 \<Rightarrow> u8 \<Rightarrow> u8 \<Rightarrow> u16 \<Rightarrow> ('h, 'e, unit) prog" where
  "write_pci_command io b d f cmd =
    bnd (lift_res (get_pci_addres b d f 4)) (\<lambda>address.
    bnd (outl io CONFIG_ADDRESS_BUS address) (\<lambda>_.
    bnd (inl io CONFIG_DATA_BUS) (\<lambda>data.
    bnd (outl io CONFIG_DATA_BUS ((data AND 0xFFFF0000) OR ucast cmd)) (\<lambda>_.
    outl io CONFIG_ADDRESS_BUS 0))))"

definition device_connected :: "'h port_api \<Rightarrow> u8 \<Rightarrow> u8 \<Rightarrow> ('h, 'e, device_info option) prog" where
  "device_connected io b d =
    bnd (read_config io b d 0 0) (\<lambda>w0.
    let vendor = ucast (w0 AND 0xFFFF) :: u16
    in if vendor = 0xFFFF then ret None
    else bnd (read_config io b d 0 4) (\<lambda>w1.
    bnd (read_config io b d 0 8) (\<lambda>w2.
    bnd (read_config io b d 0 12) (\<lambda>w3.
    ret (Some \<lparr>bus = b, device = d, device_id = ucast (drop_bit 16 w0), vendor_id = vendor,
      status = ucast (drop_bit 16 w1), command = ucast (w1 AND 0xFFFF),
      class_code = ucast (drop_bit 24 w2), sub_class = ucast (drop_bit 16 (w2 AND 0x00FF0000)),
      programming_interface = ucast (drop_bit 8 (w2 AND 0x0000FF00)), revision_id = ucast (w2 AND 0xFF),
      built_in_self_test = ucast (drop_bit 24 w3), header_type = ucast (drop_bit 16 (w3 AND 0x00FF0000)),
      latency_timer = ucast (drop_bit 8 (w3 AND 0x0000FF00)), cache_line_size = ucast (w3 AND 0xFF)\<rparr>)))))"

text \<open>The two loops over the buses and the devices of a bus, with the vector of devices found so far.\<close>

fun walk_slots :: "'h port_api \<Rightarrow> (u8 \<times> u8) list \<Rightarrow> ('h, 'e, device_info list) prog" where
  "walk_slots io [] = ret []"
| "walk_slots io ((b, d) # slots) =
    bnd (device_connected io b d) (\<lambda>r.
    bnd (walk_slots io slots) (\<lambda>rest.
    ret (case r of None \<Rightarrow> rest | Some i \<Rightarrow> i # rest)))"

definition pci_slots :: "(u8 \<times> u8) list" where
  "pci_slots = concat (map (\<lambda>b. map (\<lambda>d. (of_nat b, of_nat d)) [0..<32]) [0..<256])"

definition walk_pci_bus :: "'h port_api \<Rightarrow> ('h, 'e, device_info list) prog" where
  "walk_pci_bus io = walk_slots io pci_slots"

definition SD_CLASS_CODE :: u8 where "SD_CLASS_CODE = 8"
definition SD_SUB_CLASS :: u8 where "SD_SUB_CLASS = 5"
definition SD_NO_DMA_INTERFACE :: u8 where "SD_NO_DMA_INTERFACE = 0"
definition SD_DMA_INTERFACE :: u8 where "SD_DMA_INTERFACE = 1"

fun find_sd_card :: "device_info list \<Rightarrow> device_info option" where
  "find_sd_card [] = None"
| "find_sd_card (i # devices) =
    (if class_code i = SD_CLASS_CODE \<and> sub_class i = SD_SUB_CLASS
        \<and> (programming_interface i = SD_DMA_INTERFACE \<or> programming_interface i = SD_NO_DMA_INTERFACE)
     then Some i else find_sd_card devices)"

section \<open>The configuration mechanism\<close>

text \<open>\<open>latch h\<close> is the address port, \<open>config h a\<close> the register at address \<open>a\<close>; bit 31 of the address enables the data port.  A write
  to a register may store something else than the given value, since some bits are read-only.\<close>

definition config_law :: "'h port_api \<Rightarrow> ('h \<Rightarrow> u32) \<Rightarrow> ('h \<Rightarrow> u32 \<Rightarrow> u32) \<Rightarrow> (u32 \<Rightarrow> u32 \<Rightarrow> u32 \<Rightarrow> u32) \<Rightarrow> bool" where
  "config_law io latch config accepts \<longleftrightarrow>
     (\<forall>v h. latch (port_out io CONFIG_ADDRESS_BUS v h) = v \<and> config (port_out io CONFIG_ADDRESS_BUS v h) = config h)
     \<and> (\<forall>h. bit (latch h) 31 \<longrightarrow> fst (port_in io CONFIG_DATA_BUS h) = config h (latch h))
     \<and> (\<forall>h. latch (snd (port_in io CONFIG_DATA_BUS h)) = latch h \<and> config (snd (port_in io CONFIG_DATA_BUS h)) = config h)
     \<and> (\<forall>v h. bit (latch h) 31 \<longrightarrow> config (port_out io CONFIG_DATA_BUS v h) = (config h)(latch h := accepts (latch h) (config h (latch h)) v)
          \<and> latch (port_out io CONFIG_DATA_BUS v h) = latch h)"

text \<open>The address of a register.\<close>

definition config_address :: "u8 \<Rightarrow> u8 \<Rightarrow> u8 \<Rightarrow> u8 \<Rightarrow> u32" where
  "config_address b d f offset = push_bit 31 1 OR push_bit 16 (ucast b) OR push_bit 11 (ucast d) OR push_bit 8 (ucast f) OR ucast offset"

lemma get_pci_addres_eq: "d < 32 \<Longrightarrow> f < 8 \<Longrightarrow> offset mod 4 = 0 \<Longrightarrow> get_pci_addres b d f offset = Ok (config_address b d f offset)"
  by (simp add: get_pci_addres_def config_address_def)

lemma config_address_enabled: "bit (config_address b d f offset) 31"
  by (simp add: config_address_def bit_simps)

lemma read_config_eq:
  assumes "config_law io latch config acc" "d < 32" "f < 8" "offset mod 4 = 0"
  obtains h' where "read_config io b d f offset h = (Ok (config h (config_address b d f offset)), h')"
    "config h' = config h" "latch h' = 0"
proof -
  let ?a = "config_address b d f offset" and ?h1 = "port_out io CONFIG_ADDRESS_BUS (config_address b d f offset) h"
  let ?h2 = "snd (port_in io CONFIG_DATA_BUS ?h1)" and ?h3 = "port_out io CONFIG_ADDRESS_BUS 0 (snd (port_in io CONFIG_DATA_BUS ?h1))"
  have "fst (port_in io CONFIG_DATA_BUS ?h1) = config h ?a"
    using assms(1) config_address_enabled [of b d f offset] unfolding config_law_def by simp
  then have "read_config io b d f offset h = (Ok (config h ?a), ?h3)"
    using assms(2-4) by (simp add: read_config_def get_pci_addres_eq bnd_def prog_simps outl_def inl_def case_prod_beta)
  then show thesis by (rule that) (use assms(1) in \<open>simp_all add: config_law_def\<close>)
qed

section \<open>The scan finds the devices\<close>

definition config_word :: "(u32 \<Rightarrow> u32) \<Rightarrow> device_info \<Rightarrow> u8 \<Rightarrow> u32" where
  "config_word cfg i offset = cfg (config_address (bus i) (device i) 0 offset)"

text \<open>The four header words of a device, from its fields.\<close>

definition header_words :: "device_info \<Rightarrow> u32 list" where
  "header_words i =
    [push_bit 16 (ucast (device_id i)) OR ucast (vendor_id i),
     push_bit 16 (ucast (status i)) OR ucast (command i),
     push_bit 24 (ucast (class_code i)) OR push_bit 16 (ucast (sub_class i)) OR push_bit 8 (ucast (programming_interface i)) OR ucast (revision_id i),
     push_bit 24 (ucast (built_in_self_test i)) OR push_bit 16 (ucast (header_type i)) OR push_bit 8 (ucast (latency_timer i)) OR ucast (cache_line_size i)]"

definition present :: "(u32 \<Rightarrow> u32) \<Rightarrow> u8 \<Rightarrow> u8 \<Rightarrow> bool" where
  "present cfg b d \<longleftrightarrow> (ucast (cfg (config_address b d 0 0) AND 0xFFFF) :: u16) \<noteq> 0xFFFF"

definition describes :: "(u32 \<Rightarrow> u32) \<Rightarrow> u8 \<Rightarrow> u8 \<Rightarrow> device_info \<Rightarrow> bool" where
  "describes cfg b d i \<longleftrightarrow> bus i = b \<and> device i = d \<and> header_words i = map (config_word cfg i) [0, 4, 8, 12]"

lemma byte_masks:
  "(0xFFFF :: u32) = mask 16" "(0xFF :: u32) = mask 8" "(0x00FF0000 :: u32) = push_bit 16 (mask 8)" "(0x0000FF00 :: u32) = push_bit 8 (mask 8)"
  by (simp_all add: mask_eq_exp_minus_1 push_bit_eq_mult)

lemma halves: "push_bit 16 (ucast (ucast (drop_bit 16 w) :: u16)) OR ucast (ucast (w AND 0xFFFF) :: u16) = (w :: u32)"
  unfolding byte_masks by (rule bit_word_eqI) (auto simp: bit_simps le_less_linear)

lemma quarters: "push_bit 24 (ucast (ucast (drop_bit 24 w) :: u8)) OR push_bit 16 (ucast (ucast (drop_bit 16 w AND 0xFF) :: u8))
    OR push_bit 8 (ucast (ucast (drop_bit 8 w AND 0xFF) :: u8)) OR ucast (ucast (w AND 0xFF) :: u8) = (w :: u32)"
  unfolding byte_masks
proof (rule bit_word_eqI)
  fix n assume "n < LENGTH(32)"
  then consider "n < 8" | "8 \<le> n" "n < 16" | "16 \<le> n" "n < 24" | "24 \<le> n" "n < 32" by fastforce
  then show "bit (push_bit 24 (ucast (ucast (drop_bit 24 w) :: u8)) OR push_bit 16 (ucast (ucast (drop_bit 16 w AND mask 8) :: u8))
      OR push_bit 8 (ucast (ucast (drop_bit 8 w AND mask 8) :: u8)) OR ucast (ucast (w AND mask 8) :: u8) :: u32) n \<longleftrightarrow> bit w n"
    by cases (auto simp: bit_simps)
qed

lemma device_connected_eq:
  assumes "config_law io latch config acc" "d < 32"
  obtains r h' where "device_connected io b d h = (Ok r :: ('e, device_info option) res, h')" "config h' = config h"
    "case r of None \<Rightarrow> \<not> present (config h) b d | Some i \<Rightarrow> present (config h) b d \<and> describes (config h) b d i"
proof -
  let ?w = "\<lambda>off. config h (config_address b d 0 off)"
  have rd: "\<exists>k'. read_config io b d 0 off k = (Ok (?w off) :: ('e, u32) res, k') \<and> config k' = config h"
    if "config k = config h" "off mod 4 = 0" for k off
    by (rule read_config_eq [OF assms(1,2) _ that(2), of 0 b k]) (use that(1) in auto)
  obtain h1 where 1: "read_config io b d 0 0 h = (Ok (?w 0) :: ('e, u32) res, h1)" "config h1 = config h" using rd [of h 0] by auto
  show thesis
  proof (cases "present (config h) b d")
    case False
    then show thesis using that [of None h1] 1 by (simp add: device_connected_def bnd_def prog_simps present_def)
  next
    case True
    obtain h2 where 2: "read_config io b d 0 4 h1 = (Ok (?w 4) :: ('e, u32) res, h2)" "config h2 = config h" using rd [OF 1(2), of 4] by auto
    obtain h3 where 3: "read_config io b d 0 8 h2 = (Ok (?w 8) :: ('e, u32) res, h3)" "config h3 = config h" using rd [OF 2(2), of 8] by auto
    obtain h4 where 4: "read_config io b d 0 12 h3 = (Ok (?w 12) :: ('e, u32) res, h4)" "config h4 = config h" using rd [OF 3(2), of 12] by auto
    obtain i where i: "device_connected io b d h = (Ok (Some i) :: ('e, device_info option) res, h4)" "describes (config h) b d i"
      using 1 2 3 4 True
      by (auto simp: device_connected_def bnd_def prog_simps present_def describes_def header_words_def config_word_def halves quarters)
    then show thesis using that [of "Some i" h4] 4(2) True by simp
  qed
qed

lemma walk_slots_finds:
  assumes "config_law io latch config acc" "\<And>b d. (b, d) \<in> set slots \<Longrightarrow> d < 32"
  shows "\<exists>devs h'. walk_slots io slots h = (Ok devs :: ('e, device_info list) res, h') \<and> config h' = config h
    \<and> map (\<lambda>i. (bus i, device i)) devs = filter (\<lambda>(b, d). present (config h) b d) slots
    \<and> list_all (\<lambda>i. describes (config h) (bus i) (device i) i) devs"
  using assms(2)
proof (induction slots arbitrary: h)
  case (Cons x slots)
  obtain b d where x: "x = (b, d)" by (cases x)
  obtain r h1 where 1: "device_connected io b d h = (Ok r :: ('e, device_info option) res, h1)" "config h1 = config h"
    "case r of None \<Rightarrow> \<not> present (config h) b d | Some i \<Rightarrow> present (config h) b d \<and> describes (config h) b d i"
    by (rule device_connected_eq [OF assms(1), of d b h]) (use Cons.prems [of b d] x in auto)
  obtain devs h2 where 2: "walk_slots io slots h1 = (Ok devs :: ('e, device_info list) res, h2)" "config h2 = config h"
    "map (\<lambda>i. (bus i, device i)) devs = filter (\<lambda>(b, d). present (config h) b d) slots"
    "list_all (\<lambda>i. describes (config h) (bus i) (device i) i) devs"
    using Cons.IH [of h1] Cons.prems 1(2) by auto
  show ?case
  proof (cases r)
    case None
    then show ?thesis using 1 2 x by (simp add: bnd_def prog_simps)
  next
    case (Some i)
    then have "bus i = b" "device i = d" using 1(3) by (simp_all add: describes_def)
    then show ?thesis using Some 1 2 x by (simp add: bnd_def prog_simps)
  qed
qed (simp add: prog_simps)

lemma pci_slots_all: "distinct pci_slots" "set pci_slots = {(b, d). d < 32}"
proof -
  let ?f = "\<lambda>(b, d). (of_nat b :: u8, of_nat d :: u8)"
  have p: "pci_slots = map ?f (List.product [0..<256] [0..<32])"
    unfolding pci_slots_def product_concat_map map_concat map_map comp_def by simp
  have "inj_on ?f ({0..<256} \<times> {0..<32})"
    by (auto simp: inj_on_def word_of_nat_eq_iff take_bit_nat_eq_self)
  then show "distinct pci_slots" unfolding p by (simp add: distinct_map distinct_product)
  have "(b, d) \<in> ?f ` ({0..<256} \<times> {0..<32})" if "d < 32" for b d :: u8
  proof -
    have "(b, d) = ?f (unat b, unat d)" by simp
    moreover have "unat b < 256" "unat d < 32" using unsigned_less [of b] that by (simp_all add: word_less_nat_alt)
    ultimately show ?thesis by (intro image_eqI [where x = "(unat b, unat d)"]) auto
  qed
  moreover have "(of_nat d :: u8) < 32" if "d < 32" for d
    using that by (simp add: word_less_nat_alt unsigned_of_nat take_bit_nat_eq_self)
  ultimately show "set pci_slots = {(b, d). d < 32}" unfolding p by auto
qed


text \<open>A bus with one device, at slot 3 of bus 0; every other register reads as ones.\<close>

definition bus_sample :: "(u32 \<times> (u32 \<Rightarrow> u32)) port_api" where
  "bus_sample = \<lparr>port_out = (\<lambda>p v (l, c). if p = CONFIG_ADDRESS_BUS then (v, c) else if p = CONFIG_DATA_BUS then (l, c(l := v)) else (l, c)),
     port_in = (\<lambda>p (l, c). (if p = CONFIG_DATA_BUS then c l else 0, l, c))\<rparr>"

definition config_sample :: "u32 \<Rightarrow> u32" where
  "config_sample a = (if a = config_address 0 3 0 0 then 0x12345678 else if a = config_address 0 3 0 8 then 0x08050101 else - 1)"

lemma bus_sample_law: "config_law bus_sample fst snd (\<lambda>_ _ v. v)"
  by (auto simp: config_law_def bus_sample_def CONFIG_ADDRESS_BUS_def CONFIG_DATA_BUS_def)


section \<open>Two cores\<close>

text \<open>The port accesses of a read of address \<open>a\<close>, and runs of the accesses of several cores in some order; the result has the values
  read, with the core that read them.\<close>

datatype port_op = AddressOut u32 | DataIn

definition read_ops :: "u32 \<Rightarrow> port_op list" where
  "read_ops a = [AddressOut a, DataIn, AddressOut 0]"

fun run_ops :: "'h port_api \<Rightarrow> (nat \<times> port_op) list \<Rightarrow> 'h \<Rightarrow> (nat \<times> u32) list \<times> 'h" where
  "run_ops io [] h = ([], h)"
| "run_ops io ((c, AddressOut a) # ops) h = run_ops io ops (port_out io CONFIG_ADDRESS_BUS a h)"
| "run_ops io ((c, DataIn) # ops) h =
    (case port_in io CONFIG_DATA_BUS h of (v, h1) \<Rightarrow> case run_ops io ops h1 of (vs, h2) \<Rightarrow> ((c, v) # vs, h2))"

definition ops_of :: "nat \<Rightarrow> (nat \<times> port_op) list \<Rightarrow> port_op list" where
  "ops_of c ops = map snd (filter (\<lambda>x. fst x = c) ops)"

text \<open>\<open>read_config\<close> is the run of these accesses by one core.\<close>

lemma read_config_run:
  assumes "get_pci_addres b d f offset = (Ok a :: ('e, u32) res)"
  shows "read_config io b d f offset h = (case run_ops io (map (Pair 0) (read_ops a)) h of (vs, h') \<Rightarrow> (Ok (snd (vs ! 0)) :: ('e, u32) res, h'))"
  using assms by (simp add: read_config_def read_ops_def bnd_def prog_simps outl_def inl_def split: prod.splits)

text \<open>The lock of the PCI bus is released before the ports are used, so the accesses of two cores can interleave.  While
  \<open>read_config\<close> alone returns the register it was asked for, two cores that read the registers \<open>a\<close> and \<open>b\<close> of two slots can run in an order in which
  the first core gets the contents of \<open>b\<close>.\<close>

theorem unlocked_config_reads_race:
  assumes "config_law io latch config accepts" "d1 < 32" "d2 < 32"
    and "a1 = config_address b1 d1 0 0" "a2 = config_address b2 d2 0 0"
  shows "(\<exists>h'. read_config io b1 d1 0 0 h = (Ok (config h a1) :: ('e, u32) res, h'))
    \<and> (\<exists>ops vs h'. ops_of 0 ops = read_ops a1 \<and> ops_of 1 ops = read_ops a2 \<and> run_ops io ops h = (vs, h') \<and> vs ! 0 = (0, config h a2))"
proof
  show "\<exists>h'. read_config io b1 d1 0 0 h = (Ok (config h a1) :: ('e, u32) res, h')"
    using read_config_eq [OF assms(1,2), of 0 0 b1 h] unfolding assms(4) by auto
  let ?ops = "[(0, AddressOut a1), (1, AddressOut a2), (0, DataIn), (0, AddressOut 0), (1, DataIn), (1, AddressOut 0)]"
  have "fst (port_in io CONFIG_DATA_BUS (port_out io CONFIG_ADDRESS_BUS a2 (port_out io CONFIG_ADDRESS_BUS a1 h))) = config h a2"
    using assms(1) config_address_enabled [of b2 d2 0 0] unfolding assms(5) config_law_def by simp
  then have "\<exists>vs h'. run_ops io ?ops h = (vs, h') \<and> vs ! 0 = (0, config h a2)" by (auto simp: case_prod_beta)
  moreover have "ops_of 0 ?ops = read_ops a1" "ops_of 1 ?ops = read_ops a2" by (simp_all add: ops_of_def read_ops_def)
  ultimately show "\<exists>ops vs h'. ops_of 0 ops = read_ops a1 \<and> ops_of 1 ops = read_ops a2 \<and> run_ops io ops h = (vs, h') \<and> vs ! 0 = (0, config h a2)"
    by blast
qed

theorem unlocked_config_reads_race_witness:
  "\<exists>ops vs h'. ops_of 0 ops = read_ops (config_address 0 3 0 0) \<and> ops_of 1 ops = read_ops (config_address 0 4 0 0)
     \<and> run_ops bus_sample ops (0, config_sample) = (vs, h') \<and> vs ! 0 = (0, - 1) \<and> config_sample (config_address 0 3 0 0) = 0x12345678"
proof -
  have "config_address 0 4 0 0 \<noteq> config_address 0 3 0 0" "config_address 0 4 0 0 \<noteq> config_address 0 3 0 8"
    by (simp_all add: config_address_def)
  then have "config_sample (config_address 0 4 0 0) = - 1" "config_sample (config_address 0 3 0 0) = 0x12345678" by (simp_all add: config_sample_def)
  then show ?thesis
    using unlocked_config_reads_race [OF bus_sample_law, where ?d1.0 = 3 and ?d2.0 = 4 and ?b1.0 = 0 and ?b2.0 = 0 and h = "(0, config_sample)" and 'e = unit] by auto
qed

end
