(* ===== verification/Sd_Card.thy ===== *)
theory Sd_Card
  imports Pci Paging Block_Device
begin

text \<open>
  The SD card driver (\<open>devices/sd_card.rs\<close>) and the set-up of devices (\<open>devices/mod.rs\<close>).

  The registers of the host controller are memory-mapped hardware: the record \<open>mmio\<close> has a volatile read and write of each
  width the code uses, over a machine state \<open>'h\<close>, addressed by virtual address.  A read may change the state.
\<close>

section \<open>Registers\<close>

record 'h mmio =
  read8 :: "nat \<Rightarrow> 'h \<Rightarrow> u8 \<times> 'h"
  read16 :: "nat \<Rightarrow> 'h \<Rightarrow> u16 \<times> 'h"
  read32 :: "nat \<Rightarrow> 'h \<Rightarrow> u32 \<times> 'h"
  read64 :: "nat \<Rightarrow> 'h \<Rightarrow> u64 \<times> 'h"
  write8 :: "nat \<Rightarrow> u8 \<Rightarrow> 'h \<Rightarrow> 'h"
  write16 :: "nat \<Rightarrow> u16 \<Rightarrow> 'h \<Rightarrow> 'h"
  write32 :: "nat \<Rightarrow> u32 \<Rightarrow> 'h \<Rightarrow> 'h"

record sd_card_info_internal =
  capabilities :: u64
  base_address_register :: nat

record sd_card_info =
  internal_info :: sd_card_info_internal
  sd_block_size :: nat
  total_blocks :: nat
  reletave_card_address :: u32

datatype sd_card_error = CommandInhibited | CommandStoppedDueToError | SDTimeout | FrequencyUnableToBeSet
  | VoltageUnableToBeSet | GenericSDError

datatype sd_command_response = NoResponse | Response32Bits u32 | Response128Bits "128 word"

datatype sd_response_types = R0 | R2 | R1 | R1b | R3 | R4 | R5 | R5b | R6 | R7

definition ReadToCard :: u16 where "ReadToCard = push_bit 4 1"
definition Voltage1_8Support :: u64 where "Voltage1_8Support = push_bit 26 1"
definition Voltage3_0Support :: u64 where "Voltage3_0Support = push_bit 25 1"
definition Voltage3_3Support :: u64 where "Voltage3_3Support = push_bit 24 1"
definition CommandNotIssuedError :: u32 where "CommandNotIssuedError = push_bit 27 1"
definition BufferReadEnable :: u32 where "BufferReadEnable = push_bit 11 1"
definition BufferWriteEnable :: u32 where "BufferWriteEnable = push_bit 10 1"
definition CommandInhibitData :: u32 where "CommandInhibitData = push_bit 1 1"
definition CommandInhibitCmd :: u32 where "CommandInhibitCmd = 1"
definition DataPresentSelect :: u16 where "DataPresentSelect = push_bit 5 1"
definition CommandIndexCheckEnable :: u16 where "CommandIndexCheckEnable = push_bit 4 1"
definition CommandCRCCheckEnable :: u16 where "CommandCRCCheckEnable = push_bit 3 1"
definition MAX_ITERATIONS :: nat where "MAX_ITERATIONS = 1000"
definition SD_BLOCK_SIZE :: nat where "SD_BLOCK_SIZE = 512"

type_synonym ('h, 'a) sd = "('h, sd_card_error, 'a) prog"

text \<open>\<open>(base_address_register + off) as *mut T\<close>, read or written.\<close>

definition reg_read :: "(nat \<Rightarrow> 'h \<Rightarrow> 'v \<times> 'h) \<Rightarrow> sd_card_info_internal \<Rightarrow> nat \<Rightarrow> ('h, 'v) sd" where
  "reg_read rd sd off = bnd (lift_res (u64_add (base_address_register sd) off)) (\<lambda>a h. case rd a h of (v, h') \<Rightarrow> (Ok v, h'))"

definition reg_write :: "(nat \<Rightarrow> 'v \<Rightarrow> 'h \<Rightarrow> 'h) \<Rightarrow> sd_card_info_internal \<Rightarrow> nat \<Rightarrow> 'v \<Rightarrow> ('h, unit) sd" where
  "reg_write wr sd off v = bnd (lift_res (u64_add (base_address_register sd) off)) (\<lambda>a. modify_st (wr a v))"

text \<open>\<open>for _ in 0..n\<close> with a flag that is set, and the loop left, when the condition holds.\<close>

fun wait_for :: "nat \<Rightarrow> ('h, bool) sd \<Rightarrow> ('h, bool) sd" where
  "wait_for 0 cond = ret False"
| "wait_for (Suc n) cond = bnd cond (\<lambda>c. if c then ret True else wait_for n cond)"

section \<open>Commands\<close>

definition check_no_errors :: "'h mmio \<Rightarrow> sd_card_info_internal \<Rightarrow> ('h, unit) sd" where
  "check_no_errors m sd =
    bnd (reg_read (read16 m) sd 0x32) (\<lambda>error_state.
    if error_state \<noteq> 0 then raise GenericSDError else ret ())"

definition sending_command_valid :: "'h mmio \<Rightarrow> sd_card_info_internal \<Rightarrow> ('h, unit) sd" where
  "sending_command_valid m sd =
    bnd (check_no_errors m sd) (\<lambda>_.
    bnd (reg_read (read32 m) sd 0x24) (\<lambda>present_state.
    if (CommandInhibitCmd OR CommandInhibitData) AND present_state \<noteq> 0 then raise CommandInhibited
    else if CommandNotIssuedError AND present_state = present_state then raise CommandStoppedDueToError
    else ret ()))"

definition determine_sd_card_response :: "'h mmio \<Rightarrow> sd_card_info_internal \<Rightarrow> sd_response_types \<Rightarrow> ('h, sd_command_response) sd" where
  "determine_sd_card_response m sd rt =
    (if rt \<in> {R1b, R1, R3, R4, R5b, R5, R6}
     then bnd (reg_read (read32 m) sd 0x10) (\<lambda>response. ret (Response32Bits response))
     else if rt = R2
     then bnd (reg_read (read32 m) sd 0x10) (\<lambda>w0.
          bnd (reg_read (read32 m) sd 0x14) (\<lambda>w1.
          bnd (reg_read (read32 m) sd 0x18) (\<lambda>w2.
          bnd (reg_read (read32 m) sd 0x1C) (\<lambda>w3.
          ret (Response128Bits (push_bit 8 (ucast w0 OR push_bit 32 (ucast w1) OR push_bit 64 (ucast w2) OR push_bit 96 (ucast w3))))))))
     else ret NoResponse)"

definition command_word :: "u8 \<Rightarrow> sd_response_types \<Rightarrow> u16 \<Rightarrow> u16" where
  "command_word command_idx rt flags =
    (let command = push_bit 8 (ucast command_idx)
     in case rt of
          R2 \<Rightarrow> command OR 1 OR (flags OR CommandCRCCheckEnable)
        | R3 \<Rightarrow> command OR 2 OR flags
        | R4 \<Rightarrow> command OR 2 OR flags
        | R1 \<Rightarrow> command OR 2 OR (flags OR CommandIndexCheckEnable OR CommandCRCCheckEnable)
        | R5 \<Rightarrow> command OR 2 OR (flags OR CommandIndexCheckEnable OR CommandCRCCheckEnable)
        | R7 \<Rightarrow> command OR 2 OR (flags OR CommandIndexCheckEnable OR CommandCRCCheckEnable)
        | R6 \<Rightarrow> command OR 2 OR (flags OR CommandIndexCheckEnable OR CommandCRCCheckEnable)
        | R1b \<Rightarrow> command OR 3 OR (flags OR CommandIndexCheckEnable OR CommandCRCCheckEnable)
        | R5b \<Rightarrow> command OR 3 OR (flags OR CommandIndexCheckEnable OR CommandCRCCheckEnable)
        | R0 \<Rightarrow> command OR flags)"

text \<open>The loop returns the response from inside; other interrupt bits are only printed.\<close>

fun await_command :: "'h mmio \<Rightarrow> sd_card_info_internal \<Rightarrow> sd_response_types \<Rightarrow> nat \<Rightarrow> ('h, sd_command_response) sd" where
  "await_command m sd rt 0 = bnd (check_no_errors m sd) (\<lambda>_. raise SDTimeout)"
| "await_command m sd rt (Suc n) =
    bnd (reg_read (read16 m) sd 0x30) (\<lambda>command_done.
    if command_done AND 1 = 1
    then bnd (reg_write (write16 m) sd 0x30 1) (\<lambda>_. determine_sd_card_response m sd rt)
    else await_command m sd rt n)"

definition send_sd_command :: "'h mmio \<Rightarrow> sd_card_info_internal \<Rightarrow> u8 \<Rightarrow> sd_response_types \<Rightarrow> u16 \<Rightarrow> ('h, sd_command_response) sd" where
  "send_sd_command m sd command_idx rt flags =
    bnd (assert_p (command_idx < 64)) (\<lambda>_.
    bnd (sending_command_valid m sd) (\<lambda>_.
    bnd (sending_command_valid m sd) (\<lambda>_.
    bnd (reg_write (write16 m) sd 0xE (command_word command_idx rt flags)) (\<lambda>_.
    bnd (check_no_errors m sd) (\<lambda>_.
    await_command m sd rt MAX_ITERATIONS)))))"

section \<open>Reset\<close>

definition software_reset_sd_card :: "'h mmio \<Rightarrow> sd_card_info_internal \<Rightarrow> ('h, unit) sd" where
  "software_reset_sd_card m sd =
    bnd (reg_write (write8 m) sd 0x2f 1) (\<lambda>_.
    bnd (wait_for MAX_ITERATIONS (bnd (reg_read (read8 m) sd 0x2f) (\<lambda>reset_taken. ret (reset_taken AND 1 = 0)))) (\<lambda>finished.
    if \<not> finished then raise SDTimeout else ret ()))"

definition enable_sd_card_interrupts :: "'h mmio \<Rightarrow> sd_card_info_internal \<Rightarrow> ('h, unit) sd" where
  "enable_sd_card_interrupts m sd =
    bnd (reg_write (write16 m) sd 0x34 0x1FF) (\<lambda>_.
    bnd (sending_command_valid m sd) (\<lambda>_.
    bnd (reg_write (write16 m) sd 0x36 0x0FB) (\<lambda>_.
    bnd (sending_command_valid m sd) (\<lambda>_.
    bnd (reg_write (write16 m) sd 0x38 0x1FF) (\<lambda>_.
    bnd (sending_command_valid m sd) (\<lambda>_.
    bnd (reg_write (write16 m) sd 0x3A 0x0FB) (\<lambda>_.
    sending_command_valid m sd)))))))"

definition power_on_sd_card :: "'h mmio \<Rightarrow> sd_card_info_internal \<Rightarrow> ('h, unit) sd" where
  "power_on_sd_card m sd =
    bnd (reg_write (write8 m) sd 0x29 0) (\<lambda>_.
    bnd (if Voltage3_3Support AND capabilities sd \<noteq> 0 then ret (push_bit 1 7)
         else if Voltage1_8Support AND capabilities sd \<noteq> 0 then ret (push_bit 1 5)
         else if Voltage3_0Support AND capabilities sd \<noteq> 0 then ret (push_bit 1 6)
         else raise VoltageUnableToBeSet) (\<lambda>power_control.
    bnd (reg_write (write8 m) sd 0x29 power_control) (\<lambda>_.
    reg_write (write8 m) sd 0x29 (power_control OR 1))))"

definition set_sd_clock :: "'h mmio \<Rightarrow> sd_card_info_internal \<Rightarrow> ('h, unit) sd" where
  "set_sd_clock m sd =
    bnd (reg_read (read16 m) sd 0x2c) (\<lambda>r.
    let c1 = r AND 0xFFFE
    in bnd (reg_write (write16 m) sd 0x2c c1) (\<lambda>_.
    let c2 = (c1 AND 0x00FF) OR push_bit 8 0x80
    in bnd (reg_write (write16 m) sd 0x2c c2) (\<lambda>_.
    let c3 = c2 OR 1
    in bnd (reg_write (write16 m) sd 0x2c c3) (\<lambda>_.
    bnd (wait_for MAX_ITERATIONS (bnd (reg_read (read16 m) sd 0x2c) (\<lambda>clock_taken. ret (clock_taken AND 2 \<noteq> 0)))) (\<lambda>finished.
    if \<not> finished then raise SDTimeout
    else reg_write (write16 m) sd 0x2c (c3 OR push_bit 1 3))))))"

definition enable_timeouts :: "'h mmio \<Rightarrow> sd_card_info_internal \<Rightarrow> ('h, unit) sd" where
  "enable_timeouts m sd = bnd (reg_write (write8 m) sd 0x2e 0xE) (\<lambda>_. sending_command_valid m sd)"

definition get_full_sd_card_info :: "sd_card_info_internal \<Rightarrow> u32 \<Rightarrow> 128 word \<Rightarrow> ('h, sd_card_info) sd" where
  "get_full_sd_card_info sd rca csd =
    (let csd_structre = drop_bit 126 csd; c_size = unat (drop_bit 48 csd AND 0xFFFFFF)
     in bnd (assert_p (csd_structre = 1)) (\<lambda>_.
     ret \<lparr>internal_info = sd, sd_block_size = SD_BLOCK_SIZE, total_blocks = c_size + 1, reletave_card_address = rca\<rparr>))"

text \<open>An argument and a command.\<close>

definition command_with :: "'h mmio \<Rightarrow> sd_card_info_internal \<Rightarrow> u32 \<Rightarrow> u8 \<Rightarrow> sd_response_types \<Rightarrow> ('h, sd_command_response) sd" where
  "command_with m sd arg idx rt = bnd (reg_write (write32 m) sd 0x8 arg) (\<lambda>_. send_sd_command m sd idx rt 0)"

definition send_sd_reset_commands :: "'h mmio \<Rightarrow> sd_card_info_internal \<Rightarrow> ('h, sd_card_info) sd" where
  "send_sd_reset_commands m sd =
    bnd (command_with m sd 0 0 R0) (\<lambda>_.
    bnd (command_with m sd 0x1aa 8 R7) (\<lambda>_.
    bnd (command_with m sd 0 55 R1) (\<lambda>_.
    bnd (send_sd_command m sd 41 R3 0) (\<lambda>acmd_response_enum.
    bnd (case acmd_response_enum of
           Response32Bits acmd_response \<Rightarrow>
             bnd (command_with m sd 0 0 R0) (\<lambda>_.
             bnd (command_with m sd 0x1aa 8 R7) (\<lambda>_.
             bnd (command_with m sd 0 55 R1) (\<lambda>_.
             bnd (command_with m sd ((acmd_response AND 0xFF) OR push_bit 22 1) 41 R3) (\<lambda>_. ret ()))))
         | _ \<Rightarrow> panic) (\<lambda>_.
    bnd (command_with m sd 0 2 R2) (\<lambda>_.
    bnd (command_with m sd 0 3 R6) (\<lambda>rca_enum.
    case rca_enum of
      Response32Bits rca \<Rightarrow>
        bnd (command_with m sd rca 9 R2) (\<lambda>csd_enum.
        bnd (case csd_enum of
               Response128Bits csd \<Rightarrow> bnd (get_full_sd_card_info sd rca csd) (\<lambda>i. ret (Some i))
             | _ \<Rightarrow> ret None) (\<lambda>result.
        bnd (command_with m sd rca 13 R1) (\<lambda>_.
        bnd (command_with m sd rca 7 R1b) (\<lambda>_.
        case result of Some i \<Rightarrow> ret i | None \<Rightarrow> raise GenericSDError))))
    | _ \<Rightarrow> panic)))))))"

definition reset_sd_card :: "'h mmio \<Rightarrow> sd_card_info_internal \<Rightarrow> ('h, sd_card_info) sd" where
  "reset_sd_card m sd =
    bnd (software_reset_sd_card m sd) (\<lambda>_.
    bnd (enable_sd_card_interrupts m sd) (\<lambda>_.
    bnd (power_on_sd_card m sd) (\<lambda>_.
    bnd (set_sd_clock m sd) (\<lambda>_.
    bnd (enable_timeouts m sd) (\<lambda>_.
    send_sd_reset_commands m sd)))))"

section \<open>Blocks\<close>

text \<open>\<open>transmute\<close> between 128 words and 512 bytes, on a little-endian machine.\<close>

definition words_to_bytes :: "u32 list \<Rightarrow> bytes" where
  "words_to_bytes ws = concat (map u32_to_le ws)"

fun bytes_to_words :: "bytes \<Rightarrow> u32 list" where
  "bytes_to_words (b0 # b1 # b2 # b3 # bs) = u32_from_le b0 b1 b2 b3 # bytes_to_words bs"
| "bytes_to_words _ = []"

fun read_words :: "'h mmio \<Rightarrow> sd_card_info_internal \<Rightarrow> nat \<Rightarrow> ('h, u32 list) sd" where
  "read_words m sd 0 = ret []"
| "read_words m sd (Suc n) = bnd (reg_read (read32 m) sd 0x20) (\<lambda>w. bnd (read_words m sd n) (\<lambda>ws. ret (w # ws)))"

text \<open>What both transfers do before the data: block size and count, the argument, the mode, and the command.\<close>

definition start_transfer :: "'h mmio \<Rightarrow> sd_card_info_internal \<Rightarrow> u32 \<Rightarrow> u16 \<Rightarrow> u8 \<Rightarrow> ('h, unit) sd" where
  "start_transfer m sd block mode idx =
    bnd (reg_write (write16 m) sd 0x4 0x200) (\<lambda>_.
    bnd (reg_write (write16 m) sd 0x6 1) (\<lambda>_.
    bnd (sending_command_valid m sd) (\<lambda>_.
    bnd (assert_p (unat block * SD_BLOCK_SIZE < 2 ^ 32)) (\<lambda>_.
    bnd (reg_write (write32 m) sd 0x8 (block * of_nat SD_BLOCK_SIZE)) (\<lambda>_.
    bnd (reg_write (write16 m) sd 0xC mode) (\<lambda>_.
    bnd (send_sd_command m sd idx R1 DataPresentSelect) (\<lambda>_. ret ())))))))"

definition read_sd_card :: "'h mmio \<Rightarrow> sd_card_info \<Rightarrow> u32 \<Rightarrow> ('h, bytes) sd" where
  "read_sd_card m sd_card block =
    (let sd = internal_info sd_card
     in bnd (start_transfer m sd block ReadToCard 17) (\<lambda>_.
     bnd (wait_for MAX_ITERATIONS (bnd (reg_read (read32 m) sd 0x24) (\<lambda>present_state. ret (BufferReadEnable AND present_state \<noteq> 0)))) (\<lambda>finished.
     if \<not> finished then raise SDTimeout
     else bnd (read_words m sd 128) (\<lambda>data. ret (words_to_bytes data)))))"

definition write_sd_card :: "'h mmio \<Rightarrow> sd_card_info \<Rightarrow> u32 \<Rightarrow> bytes \<Rightarrow> ('h, unit) sd" where
  "write_sd_card m sd_card block data =
    (let sd = internal_info sd_card
     in bnd (start_transfer m sd block 0 24) (\<lambda>_.
     bnd (wait_for MAX_ITERATIONS (bnd (reg_read (read32 m) sd 0x24) (\<lambda>present_state. ret (BufferWriteEnable AND present_state \<noteq> 0)))) (\<lambda>finished.
     if \<not> finished then bnd (reg_read (read32 m) sd 0x24) (\<lambda>_. raise SDTimeout)
     else for_each (bytes_to_words data) (reg_write (write32 m) sd 0x20))))"

text \<open>\<open>impl BlockDevice for SDCardInfo\<close>.\<close>

definition map_err :: "'e \<Rightarrow> ('h, 'x, 'a) prog \<Rightarrow> ('h, 'e, 'a) prog" where
  "map_err e p h = (case p h of (Ok x, h') \<Rightarrow> (Ok x, h') | (Err _, h') \<Rightarrow> (Err e, h') | (Panic, h') \<Rightarrow> (Panic, h'))"

definition sd_read_block :: "'h mmio \<Rightarrow> sd_card_info \<Rightarrow> nat \<Rightarrow> bytes \<Rightarrow> ('h, fs_error, bytes) prog" where
  "sd_read_block m sd block_num buf =
    (if block_num > total_blocks sd then raise IOError
     else bnd (assert_p (block_num < 2 ^ 32)) (\<lambda>_.
     bnd (map_err IOError (read_sd_card m sd (of_nat block_num))) (\<lambda>data.
     lift_res (copy_from_slice buf data))))"

definition sd_write_block :: "'h mmio \<Rightarrow> sd_card_info \<Rightarrow> nat \<Rightarrow> bytes \<Rightarrow> ('h, fs_error, unit) prog" where
  "sd_write_block m sd block_num buf =
    (if block_num > total_blocks sd then raise IOError
     else bnd (lift_res (copy_from_slice (replicate 512 0) buf)) (\<lambda>data.
     bnd (assert_p (block_num < 2 ^ 32)) (\<lambda>_.
     map_err IOError (write_sd_card m sd (of_nat block_num) data))))"

definition sd_ops :: "'h mmio \<Rightarrow> sd_card_info \<Rightarrow> 'h block_device" where
  "sd_ops m sd = \<lparr>bd_read = sd_read_block m sd, bd_write = sd_write_block m sd,
     bd_block_size = (\<lambda>_. SD_BLOCK_SIZE), bd_total_blocks = (\<lambda>_. total_blocks sd)\<rparr>"

section \<open>Set-up\<close>

text \<open>\<open>mapper.translate\<close> tells the size of the mapping of an address; \<open>update_flags\<close> exists for each size.\<close>

datatype page_size = Size4KiB | Size2MiB | Size1GiB

datatype translate_result = Mapped page_size u64 | InvalidFrameAddress | NotMapped

record ('m, 'f) bar_api =
  phys_offset :: nat
  bar_translate :: "'m \<Rightarrow> 'f \<Rightarrow> nat \<Rightarrow> translate_result"
  bar_update_flags :: "page_size \<Rightarrow> 'f \<Rightarrow> nat \<Rightarrow> u64 \<Rightarrow> ('m, unit, unit) prog"

definition NO_CACHE :: u64 where "NO_CACHE = push_bit 4 1"

record ('h, 'm, 'p, 'f) machine =
  hw :: 'h
  mvm :: "('m, 'p, 'f) vm"
  SD_CARD :: "sd_card_info option"

definition on_hw :: "('h, 'e, 'a) prog \<Rightarrow> (('h, 'm, 'p, 'f) machine, 'e, 'a) dprog" where
  "on_hw p = total (zoom hw (\<lambda>x s. s\<lparr>hw := x\<rparr>) p)"

definition never_err :: "(('h, 'm, 'p, 'f) machine, unit, 'a) dprog \<Rightarrow> (('h, 'm, 'p, 'f) machine, 'e, 'a) dprog" where
  "never_err p s = (case p s of None \<Rightarrow> None | Some (Ok x, t) \<Rightarrow> Some (Ok x, t) | Some (_, t) \<Rightarrow> Some (Panic, t))"

text \<open>The virtual address of the registers: the direct map when it covers them, a new kernel mapping otherwise.\<close>

definition map_bar :: "'f frame_api \<Rightarrow> ('m, 'p, 'f) mapper_api \<Rightarrow> ('m, 'f) bar_api \<Rightarrow> nat \<Rightarrow> 'f \<Rightarrow> nat
    \<Rightarrow> (('h, 'm, 'p, 'f) machine, sd_card_error, nat) dprog" where
  "map_bar api mp bar core kpml4 bar_address =
    dbnd (total (lift_res (u64_add bar_address (phys_offset bar)))) (\<lambda>offset_bar.
    dbnd (total (gets (\<lambda>s. bar_translate bar (tables (mvm s)) kpml4 offset_bar))) (\<lambda>r.
    case r of
      Mapped psize flags \<Rightarrow>
        dbnd (total (zoom mvm (\<lambda>x s. s\<lparr>mvm := x\<rparr>)
          (map_err GenericSDError (zoom tables (\<lambda>x s. s\<lparr>tables := x\<rparr>) (bar_update_flags bar psize kpml4 offset_bar (flags OR NO_CACHE OR WRITABLE)))))) (\<lambda>_.
        dbnd (total (modify_st (\<lambda>s. s\<lparr>mvm := invlpg mp core offset_bar (mvm s)\<rparr>))) (\<lambda>_.
        total (ret offset_bar)))
    | InvalidFrameAddress \<Rightarrow> total panic
    | NotMapped \<Rightarrow>
        dbnd (total (expect_some (frame_containing api bar_address))) (\<lambda>bar_frame.
        never_err (dzoom mvm (\<lambda>x s. s\<lparr>mvm := x\<rparr>) (map_kernel_frame mp core kpml4 bar_frame (PRESENT OR NO_CACHE OR WRITABLE))))))"

definition initalize_sd_card :: "'h port_api \<Rightarrow> 'h mmio \<Rightarrow> 'f frame_api \<Rightarrow> ('m, 'p, 'f) mapper_api \<Rightarrow> ('m, 'f) bar_api \<Rightarrow> nat \<Rightarrow> 'f \<Rightarrow> device_info
    \<Rightarrow> (('h, 'm, 'p, 'f) machine, sd_card_error, unit) dprog" where
  "initalize_sd_card io m api mp bar core kpml4 sd_card =
    dbnd (on_hw (write_pci_command io (bus sd_card) (device sd_card) 0 (command sd_card AND NOT PCI_MEMORY_SPACE))) (\<lambda>_.
    dbnd (on_hw (read_config io (bus sd_card) (device sd_card) 0 0x10)) (\<lambda>base_register.
    dbnd (map_bar api mp bar core kpml4 (unat (base_register AND 0xFFFFFF00))) (\<lambda>offset_bar.
    dbnd (on_hw (write_pci_command io (bus sd_card) (device sd_card) 0 (command sd_card OR PCI_MEMORY_SPACE OR PCI_BUS_MASTER))) (\<lambda>_.
    dbnd (total (lift_res (u64_add offset_bar 0x40))) (\<lambda>a.
    dbnd (on_hw (\<lambda>h. case read64 m a h of (v, h') \<Rightarrow> (Ok v, h'))) (\<lambda>caps.
    dbnd (on_hw (reset_sd_card m \<lparr>capabilities = caps, base_address_register = offset_bar\<rparr>)) (\<lambda>new_info.
    total (modify_st (\<lambda>s. s\<lparr>SD_CARD := Some new_info\<rparr>)))))))))"

text \<open>\<open>devices::init\<close>; the test pattern that it draws into the frame buffer of the bootloader is not modelled.\<close>

definition devices_init :: "'h port_api \<Rightarrow> 'h mmio \<Rightarrow> 'f frame_api \<Rightarrow> ('m, 'p, 'f) mapper_api \<Rightarrow> ('m, 'f) bar_api \<Rightarrow> 'f \<Rightarrow> u32
    \<Rightarrow> (('h, 'm, 'p, 'f) machine, sd_card_error, unit) dprog" where
  "devices_init io m api mp bar kpml4 cpu_id =
    (if cpu_id = 0
     then dbnd (on_hw (walk_pci_bus io)) (\<lambda>devices.
          dbnd (total (expect_some (find_sd_card devices))) (\<lambda>sd_card_device.
          \<lambda>s. case initalize_sd_card io m api mp bar 0 kpml4 sd_card_device s of
                Some (Err _, t) \<Rightarrow> Some (Panic, t) | r \<Rightarrow> r))
     else total (ret ()))"

end
