(* ===== verification/Sd_Props.thy ===== *)
theory Sd_Props
  imports Sd_Card
begin

text \<open>
  Transfers of the SD card driver on a host controller that reports no error.
\<close>

section \<open>The controller\<close>

text \<open>What the driver can tell of the controller and the card: the argument register, whether the last command has completed, the words
  that wait to be read, the transfer to the card in progress with the words it has received, and the contents of the card, a
  block of 512 bytes for every argument of a read or write command.\<close>

record controller =
  c_arg :: u32
  c_done :: bool
  c_fifo :: "u32 list"
  c_writing :: "(u32 \<times> u32 list) option"
  c_card :: "u32 \<Rightarrow> bytes"

text \<open>Command 17 reads a block into the buffer, command 24 starts a write; the block is written with its last word.\<close>

definition issue :: "u16 \<Rightarrow> controller \<Rightarrow> controller" where
  "issue idx c = (if idx = 17 then c\<lparr>c_done := True, c_fifo := bytes_to_words (c_card c (c_arg c))\<rparr>
     else if idx = 24 then c\<lparr>c_done := True, c_writing := Some (c_arg c, [])\<rparr>
     else c\<lparr>c_done := True\<rparr>)"

definition feed :: "u32 \<Rightarrow> controller \<Rightarrow> controller" where
  "feed w c = (case c_writing c of
     None \<Rightarrow> c
   | Some (a, ws) \<Rightarrow> if length ws = 127 then c\<lparr>c_writing := None, c_card := (c_card c)(a := words_to_bytes (ws @ [w]))\<rparr>
       else c\<lparr>c_writing := Some (a, ws @ [w])\<rparr>)"

text \<open>The registers of the host controller specification, at a base address, as far as the transfers use them.  The controller reports no
  error, is not busy, has a card inserted (bit 16 of the present state), and completes a command at once.\<close>

definition controller_law :: "'h mmio \<Rightarrow> nat \<Rightarrow> ('h \<Rightarrow> controller) \<Rightarrow> bool" where
  "controller_law m base view \<longleftrightarrow>
     (\<forall>h. fst (read16 m (base + 0x32) h) = 0 \<and> view (snd (read16 m (base + 0x32) h)) = view h)
     \<and> (\<forall>h. view (snd (read32 m (base + 0x24) h)) = view h \<and> fst (read32 m (base + 0x24) h) AND 3 = 0 \<and> bit (fst (read32 m (base + 0x24) h)) 16
          \<and> bit (fst (read32 m (base + 0x24) h)) 11 = (c_fifo (view h) \<noteq> []) \<and> bit (fst (read32 m (base + 0x24) h)) 10 = (c_writing (view h) \<noteq> None))
     \<and> (\<forall>h. view (snd (read16 m (base + 0x30) h)) = view h \<and> bit (fst (read16 m (base + 0x30) h)) 0 = c_done (view h))
     \<and> (\<forall>h. view (write16 m (base + 0x30) 1 h) = (view h)\<lparr>c_done := False\<rparr>)
     \<and> (\<forall>h. view (snd (read32 m (base + 0x10) h)) = view h)
     \<and> (\<forall>v h. view (write32 m (base + 0x8) v h) = (view h)\<lparr>c_arg := v\<rparr>)
     \<and> (\<forall>v h. view (write16 m (base + 0x4) v h) = view h \<and> view (write16 m (base + 0x6) v h) = view h \<and> view (write16 m (base + 0xC) v h) = view h)
     \<and> (\<forall>v h. view (write16 m (base + 0xE) v h) = issue (drop_bit 8 v AND 0x3F) (view h))
     \<and> (\<forall>h w ws. c_fifo (view h) = w # ws \<longrightarrow> fst (read32 m (base + 0x20) h) = w \<and> view (snd (read32 m (base + 0x20) h)) = (view h)\<lparr>c_fifo := ws\<rparr>)
     \<and> (\<forall>v h. view (write32 m (base + 0x20) v h) = feed v (view h))"

section \<open>Programs seen through the controller\<close>

definition runs :: "('h \<Rightarrow> controller) \<Rightarrow> ('h, 'a) sd \<Rightarrow> controller \<Rightarrow> ('a \<Rightarrow> bool) \<Rightarrow> controller \<Rightarrow> bool" where
  "runs view p c Q c' \<longleftrightarrow> (\<forall>h. view h = c \<longrightarrow> (\<exists>x h'. p h = (Ok x, h') \<and> Q x \<and> view h' = c'))"

lemma runs_bnd: "runs view p c Q c1 \<Longrightarrow> (\<And>x. Q x \<Longrightarrow> runs view (f x) c1 R c2) \<Longrightarrow> runs view (bnd p f) c R c2"
  unfolding runs_def bnd_def by fastforce

lemma runs_ret: "Q x \<Longrightarrow> runs view (ret x) c Q c"
  by (simp add: runs_def ret_def)

lemma runs_assert: "b \<Longrightarrow> runs view (assert_p b) c (\<lambda>_. True) c"
  by (simp add: runs_def assert_p_def ret_def)

lemma runsD:
  assumes "runs view p c Q c'" "view h = c"
  obtains x h' where "p h = (Ok x, h')" "Q x" "view h' = c'"
  using assms unfolding runs_def by blast

lemma runs_read:
  assumes "base_address_register sd + off < 2 ^ 64"
    and "\<And>h. view h = c \<Longrightarrow> Q (fst (rd (base_address_register sd + off) h)) \<and> view (snd (rd (base_address_register sd + off) h)) = c'"
  shows "runs view (reg_read rd sd off) c Q c'"
  using assms by (simp add: runs_def reg_read_def bnd_def prog_simps case_prod_beta)

lemma runs_write:
  assumes "base_address_register sd + off < 2 ^ 64" "\<And>h. view h = c \<Longrightarrow> view (wr (base_address_register sd + off) v h) = c'"
  shows "runs view (reg_write wr sd off v) c (\<lambda>_. True) c'"
  using assms by (simp add: runs_def reg_write_def bnd_def prog_simps)

lemma wait_for_at_once: "runs view cond c (\<lambda>x. x) c \<Longrightarrow> 0 < n \<Longrightarrow> runs view (wait_for n cond) c (\<lambda>x. x) c"
proof (cases n)
  case (Suc k)
  assume "runs view cond c (\<lambda>x. x) c"
  then show ?thesis unfolding Suc wait_for.simps by (rule runs_bnd) (simp add: runs_ret)
qed simp

definition sd_ready :: "'h mmio \<Rightarrow> sd_card_info_internal \<Rightarrow> ('h \<Rightarrow> controller) \<Rightarrow> bool" where
  "sd_ready m sd view \<longleftrightarrow> controller_law m (base_address_register sd) view \<and> base_address_register sd + 0x100 < 2 ^ 64"

lemma off_ok: "sd_ready m sd view \<Longrightarrow> off < 0x100 \<Longrightarrow> base_address_register sd + off < 2 ^ 64"
  unfolding sd_ready_def by linarith

lemma sd_facts:
  assumes "sd_ready m sd view"
  defines "base \<equiv> base_address_register sd"
  shows "fst (read16 m (base + 0x32) h) = 0" "view (snd (read16 m (base + 0x32) h)) = view h"
    "view (snd (read32 m (base + 0x24) h)) = view h" "fst (read32 m (base + 0x24) h) AND 3 = 0" "bit (fst (read32 m (base + 0x24) h)) 16"
    "bit (fst (read32 m (base + 0x24) h)) 11 = (c_fifo (view h) \<noteq> [])" "bit (fst (read32 m (base + 0x24) h)) 10 = (c_writing (view h) \<noteq> None)"
    "view (snd (read16 m (base + 0x30) h)) = view h" "bit (fst (read16 m (base + 0x30) h)) 0 = c_done (view h)"
    "view (snd (read32 m (base + 0x10) h)) = view h"
    "c_fifo (view h) = w # ws \<Longrightarrow> fst (read32 m (base + 0x20) h) = w"
    "c_fifo (view h) = w # ws \<Longrightarrow> view (snd (read32 m (base + 0x20) h)) = (view h)\<lparr>c_fifo := ws\<rparr>"
  using assms(1) unfolding sd_ready_def controller_law_def base_def by blast+

lemma sd_write_facts:
  assumes "sd_ready m sd view"
  defines "base \<equiv> base_address_register sd"
  shows "view (write16 m (base + 0x30) 1 h) = (view h)\<lparr>c_done := False\<rparr>" "view (write32 m (base + 0x8) w h) = (view h)\<lparr>c_arg := w\<rparr>"
    "view (write16 m (base + 0x4) v h) = view h" "view (write16 m (base + 0x6) v h) = view h" "view (write16 m (base + 0xC) v h) = view h"
    "view (write16 m (base + 0xE) v h) = issue (drop_bit 8 v AND 0x3F) (view h)" "view (write32 m (base + 0x20) w h) = feed w (view h)"
  using assms(1) unfolding sd_ready_def controller_law_def base_def by blast+

lemma runs_check:
  assumes "sd_ready m sd view"
  shows "runs view (check_no_errors m sd) c (\<lambda>_. True) c"
proof -
  have "runs view (reg_read (read16 m) sd 0x32) c (\<lambda>x. x = 0) c"
    by (rule runs_read [OF off_ok [OF assms]]) (simp_all add: sd_facts [OF assms])
  then show ?thesis unfolding check_no_errors_def by (rule runs_bnd) (simp add: runs_ret)
qed

lemma runs_present_state:
  assumes "sd_ready m sd view"
  shows "runs view (reg_read (read32 m) sd 0x24) c
    (\<lambda>x. x AND 3 = 0 \<and> bit x 16 \<and> bit x 11 = (c_fifo c \<noteq> []) \<and> bit x 10 = (c_writing c \<noteq> None)) c"
  by (rule runs_read [OF off_ok [OF assms]]) (simp, use sd_facts(3-7) [OF assms] in blast)

lemma runs_valid:
  assumes "sd_ready m sd view"
  shows "runs view (sending_command_valid m sd) c (\<lambda>_. True) c"
  unfolding sending_command_valid_def
proof (intro runs_bnd [OF runs_check [OF assms]] runs_bnd [OF runs_present_state [OF assms]])
  fix ps :: u32 assume ps: "ps AND 3 = 0 \<and> bit ps 16 \<and> bit ps 11 = (c_fifo c \<noteq> []) \<and> bit ps 10 = (c_writing c \<noteq> None)"
  have "(CommandInhibitCmd OR CommandInhibitData) AND ps = 0"
    using ps by (simp add: CommandInhibitCmd_def CommandInhibitData_def and.commute)
  moreover have "CommandNotIssuedError AND ps \<noteq> ps"
  proof
    assume "CommandNotIssuedError AND ps = ps"
    then have "bit (CommandNotIssuedError AND ps) 16" using ps by simp
    then show False by (simp add: CommandNotIssuedError_def bit_simps)
  qed
  ultimately show "runs view (if (CommandInhibitCmd OR CommandInhibitData) AND ps \<noteq> 0 then raise CommandInhibited
      else if CommandNotIssuedError AND ps = ps then raise CommandStoppedDueToError else ret ()) c (\<lambda>_. True) c"
    by (simp add: runs_ret)
qed

text \<open>The writes of the transfers.\<close>

lemma runs_writes:
  assumes "sd_ready m sd view"
  shows "runs view (reg_write (write16 m) sd 0x4 v) c (\<lambda>_. True) c" "runs view (reg_write (write16 m) sd 0x6 v) c (\<lambda>_. True) c"
    "runs view (reg_write (write16 m) sd 0xC v) c (\<lambda>_. True) c" "runs view (reg_write (write32 m) sd 0x8 w) c (\<lambda>_. True) (c\<lparr>c_arg := w\<rparr>)"
    "runs view (reg_write (write16 m) sd 0xE v) c (\<lambda>_. True) (issue (drop_bit 8 v AND 0x3F) c)"
    "runs view (reg_write (write16 m) sd 0x30 1) c (\<lambda>_. True) (c\<lparr>c_done := False\<rparr>)"
    "runs view (reg_write (write32 m) sd 0x20 w) c (\<lambda>_. True) (feed w c)"
  by (rule runs_write [OF off_ok [OF assms]], simp, simp add: sd_write_facts [OF assms])+

lemma runs_response_R1:
  assumes "sd_ready m sd view"
  shows "runs view (determine_sd_card_response m sd R1) c (\<lambda>_. True) c"
proof -
  have "runs view (reg_read (read32 m) sd 0x10) c (\<lambda>_. True) c"
    by (rule runs_read [OF off_ok [OF assms]]) (simp_all add: sd_facts [OF assms])
  then have "runs view (bnd (reg_read (read32 m) sd 0x10) (\<lambda>r. ret (Response32Bits r))) c (\<lambda>_. True) c"
    by (rule runs_bnd) (simp add: runs_ret)
  then show ?thesis by (simp add: determine_sd_card_response_def)
qed

lemma runs_await:
  assumes "sd_ready m sd view" "c_done c" "0 < n"
  shows "runs view (await_command m sd R1 n) c (\<lambda>_. True) (c\<lparr>c_done := False\<rparr>)"
proof -
  have "runs view (reg_read (read16 m) sd 0x30) c (\<lambda>x. bit x 0) c"
    by (rule runs_read [OF off_ok [OF assms(1)]]) (simp, use assms(2) sd_facts(8,9) [OF assms(1)] in blast)
  then have "runs view (await_command m sd R1 (Suc k)) c (\<lambda>_. True) (c\<lparr>c_done := False\<rparr>)" for k
    unfolding await_command.simps
  proof (rule runs_bnd)
    fix x :: u16 assume "bit x 0"
    then have "x AND 1 = 1" by (simp add: and_one_eq bit_0 odd_iff_mod_2_eq_one)
    then show "runs view (if x AND 1 = 1 then bnd (reg_write (write16 m) sd 0x30 1) (\<lambda>_. determine_sd_card_response m sd R1)
        else await_command m sd R1 k) c (\<lambda>_. True) (c\<lparr>c_done := False\<rparr>)"
      using runs_bnd [OF runs_writes(6) [OF assms(1)] runs_response_R1 [OF assms(1)]] by simp
  qed
  then show ?thesis using assms(3) by (cases n) simp_all
qed

lemma runs_command_R1:
  assumes "sd_ready m sd view" "idx < 64" "issue (drop_bit 8 (command_word idx R1 fl) AND 0x3F) c = c1" "c_done c1"
  shows "runs view (send_sd_command m sd idx R1 fl) c (\<lambda>_. True) (c1\<lparr>c_done := False\<rparr>)"
  unfolding send_sd_command_def
  using runs_writes(5) [OF assms(1), of "command_word idx R1 fl" c] assms(2,3) runs_await [OF assms(1,4), of MAX_ITERATIONS]
  by (intro runs_bnd [OF runs_assert] runs_bnd [OF runs_valid [OF assms(1)]] runs_bnd [OF _ runs_bnd [OF runs_check [OF assms(1)]]])
    (auto simp: MAX_ITERATIONS_def)

section \<open>Transfers\<close>

lemma bytes_to_words_to_bytes: "length bs mod 4 = 0 \<Longrightarrow> words_to_bytes (bytes_to_words bs) = bs"
proof (induction bs rule: bytes_to_words.induct)
  case (1 b0 b1 b2 b3 bs)
  have "length (b0 # b1 # b2 # b3 # bs) = length bs + 4" by simp
  then have "length bs mod 4 = 0" using "1.prems" by (simp only: mod_add_self2)
  then have "words_to_bytes (bytes_to_words bs) = bs" by (rule "1.IH")
  then show ?case by (simp add: words_to_bytes_def)
qed (simp_all add: words_to_bytes_def)

lemma length_bytes_to_words: "length (bytes_to_words bs) = length bs div 4"
  by (induction bs rule: bytes_to_words.induct) simp_all

lemma runs_start:
  assumes "sd_ready m sd view" "unat block * 512 < 2 ^ 32" "idx < 64"
    and "issue (drop_bit 8 (command_word idx R1 DataPresentSelect) AND 0x3F) (c\<lparr>c_arg := block * 512\<rparr>) = c1" "c_done c1"
  shows "runs view (start_transfer m sd block mode idx) c (\<lambda>_. True) (c1\<lparr>c_done := False\<rparr>)"
  unfolding start_transfer_def SD_BLOCK_SIZE_def
  using runs_writes(4) [OF assms(1), of "block * 512" c] runs_command_R1 [OF assms(1,3-5)] assms(2)
  by (intro runs_bnd [OF runs_writes(1) [OF assms(1)]] runs_bnd [OF runs_writes(2) [OF assms(1)]] runs_bnd [OF runs_valid [OF assms(1)]]
      runs_bnd [OF runs_assert]) (auto intro!: runs_bnd [OF _ runs_bnd [OF runs_writes(3) [OF assms(1)]]] intro: runs_bnd runs_ret)

lemma runs_poll:
  assumes "sd_ready m sd view" "k = 11 \<and> c_fifo c \<noteq> [] \<or> k = 10 \<and> c_writing c \<noteq> None"
  shows "runs view (wait_for MAX_ITERATIONS (bnd (reg_read (read32 m) sd 0x24) (\<lambda>ps. ret (push_bit k 1 AND ps \<noteq> 0)))) c (\<lambda>x. x) c"
proof (rule wait_for_at_once)
  show "runs view (bnd (reg_read (read32 m) sd 0x24) (\<lambda>ps. ret (push_bit k 1 AND ps \<noteq> 0))) c (\<lambda>x. x) c"
  proof (rule runs_bnd [OF runs_present_state [OF assms(1)]])
    fix ps :: u32 assume "ps AND 3 = 0 \<and> bit ps 16 \<and> bit ps 11 = (c_fifo c \<noteq> []) \<and> bit ps 10 = (c_writing c \<noteq> None)"
    then have "bit ps k" "k < 32" using assms(2) by auto
    then have "bit (push_bit k 1 AND ps) k" by (simp add: bit_simps)
    then have "push_bit k 1 AND ps \<noteq> 0" by auto
    then show "runs view (ret (push_bit k 1 AND ps \<noteq> 0)) c (\<lambda>x. x) c" by (simp add: runs_ret)
  qed
qed (simp add: MAX_ITERATIONS_def)

lemma runs_read_words:
  assumes "sd_ready m sd view"
  shows "runs view (read_words m sd (length ws)) (c\<lparr>c_fifo := ws\<rparr>) (\<lambda>x. x = ws) (c\<lparr>c_fifo := []\<rparr>)"
proof (induction ws)
  case (Cons w ws)
  have "runs view (reg_read (read32 m) sd 0x20) (c\<lparr>c_fifo := w # ws\<rparr>) (\<lambda>x. x = w) (c\<lparr>c_fifo := ws\<rparr>)"
    by (rule runs_read [OF off_ok [OF assms]]) (simp_all add: sd_facts(11,12) [OF assms])
  then show ?case using Cons by (auto intro!: runs_bnd runs_ret)
qed (simp add: runs_ret)

lemma runs_write_words:
  assumes "sd_ready m sd view" "c_writing c = Some (a, us)" "length us + length ws = 128" "ws \<noteq> []"
  shows "runs view (for_each ws (reg_write (write32 m) sd 0x20)) c (\<lambda>_. True)
    (c\<lparr>c_writing := None, c_card := (c_card c)(a := words_to_bytes (us @ ws))\<rparr>)"
  using assms(2-)
proof (induction ws arbitrary: c us)
  case (Cons w ws)
  show ?case
  proof (cases "ws = []")
    case True
    then have f: "feed w c = c\<lparr>c_writing := None, c_card := (c_card c)(a := words_to_bytes (us @ [w]))\<rparr>"
      using Cons.prems by (simp add: feed_def)
    have "runs view (for_each [w] (reg_write (write32 m) sd 0x20)) c (\<lambda>_. True) (feed w c)"
      unfolding for_each.simps by (rule runs_bnd [OF runs_writes(7) [OF assms(1)]]) (simp add: runs_ret)
    then show ?thesis unfolding True f .
  next
    case False
    then have f: "feed w c = c\<lparr>c_writing := Some (a, us @ [w])\<rparr>" using Cons.prems by (cases ws) (simp_all add: feed_def)
    have "runs view (for_each ws (reg_write (write32 m) sd 0x20)) (feed w c) (\<lambda>_. True)
        ((feed w c)\<lparr>c_writing := None, c_card := (c_card (feed w c))(a := words_to_bytes ((us @ [w]) @ ws))\<rparr>)"
      by (rule Cons.IH) (use f Cons.prems False in auto)
    moreover have "(feed w c)\<lparr>c_writing := None, c_card := (c_card (feed w c))(a := words_to_bytes ((us @ [w]) @ ws))\<rparr>
        = c\<lparr>c_writing := None, c_card := (c_card c)(a := words_to_bytes (us @ w # ws))\<rparr>" by (simp add: f)
    ultimately show ?thesis unfolding for_each.simps by (intro runs_bnd [OF runs_writes(7) [OF assms(1), of w c]]) (simp only:)
  qed
qed simp

lemma issue_read: "issue (drop_bit 8 (command_word 17 R1 DataPresentSelect) AND 0x3F) c = c\<lparr>c_done := True, c_fifo := bytes_to_words (c_card c (c_arg c))\<rparr>"
  by (simp add: issue_def command_word_def DataPresentSelect_def CommandIndexCheckEnable_def CommandCRCCheckEnable_def)

lemma issue_write: "issue (drop_bit 8 (command_word 24 R1 DataPresentSelect) AND 0x3F) c = c\<lparr>c_done := True, c_writing := Some (c_arg c, [])\<rparr>"
  by (simp add: issue_def command_word_def DataPresentSelect_def CommandIndexCheckEnable_def CommandCRCCheckEnable_def)

lemma read_sd_card_runs:
  assumes "sd_ready m (internal_info sd) view" "unat block * 512 < 2 ^ 32" "length (c_card c (block * 512)) = 512"
  shows "runs view (read_sd_card m sd block) c (\<lambda>x. x = c_card c (block * 512)) (c\<lparr>c_arg := block * 512, c_done := False, c_fifo := []\<rparr>)"
proof -
  let ?ws = "bytes_to_words (c_card c (block * 512))" and ?c = "c\<lparr>c_arg := block * 512, c_done := False\<rparr>"
  have ws: "length ?ws = 128" "?ws \<noteq> []" "words_to_bytes ?ws = c_card c (block * 512)"
    using assms(3) length_bytes_to_words [of "c_card c (block * 512)"] bytes_to_words_to_bytes [of "c_card c (block * 512)"] by auto
  note st = runs_start [OF assms(1,2) _ issue_read, where c = c and mode = ReadToCard]
  have eq: "c\<lparr>c_arg := block * 512, c_fifo := ?ws, c_done := False\<rparr> = ?c\<lparr>c_fifo := ?ws\<rparr>" by (cases c) simp
  have "runs view (start_transfer m (internal_info sd) block ReadToCard 17) c (\<lambda>_. True) (c\<lparr>c_arg := block * 512, c_fifo := ?ws, c_done := False\<rparr>)"
    using st by simp
  then have "runs view (start_transfer m (internal_info sd) block ReadToCard 17) c (\<lambda>_. True) (?c\<lparr>c_fifo := ?ws\<rparr>)" unfolding eq .
  moreover note runs_poll [OF assms(1), of 11 "?c\<lparr>c_fifo := ?ws\<rparr>"]
  moreover have "runs view (bnd (read_words m (internal_info sd) 128) (\<lambda>data. ret (words_to_bytes data))) (?c\<lparr>c_fifo := ?ws\<rparr>)
      (\<lambda>x. x = c_card c (block * 512)) (?c\<lparr>c_fifo := []\<rparr>)"
    by (rule runs_bnd [OF runs_read_words [OF assms(1), of ?ws ?c, unfolded ws(1)]]) (simp add: runs_ret ws(3))
  ultimately show ?thesis unfolding read_sd_card_def Let_def BufferReadEnable_def using ws(2)
    by (auto intro!: runs_bnd)
qed

lemma write_sd_card_runs:
  assumes "sd_ready m (internal_info sd) view" "unat block * 512 < 2 ^ 32" "length data = 512"
  shows "runs view (write_sd_card m sd block data) c (\<lambda>_. True)
    (c\<lparr>c_arg := block * 512, c_done := False, c_writing := None, c_card := (c_card c)(block * 512 := data)\<rparr>)"
proof -
  let ?c = "c\<lparr>c_arg := block * 512, c_done := False, c_writing := Some (block * 512, [])\<rparr>"
  have ws: "length (bytes_to_words data) = 128" "words_to_bytes (bytes_to_words data) = data"
    using assms(3) length_bytes_to_words [of data] bytes_to_words_to_bytes [of data] by auto
  have eq: "c\<lparr>c_arg := block * 512, c_writing := Some (block * 512, []), c_done := False\<rparr> = ?c" by (cases c) simp
  have "runs view (start_transfer m (internal_info sd) block 0 24) c (\<lambda>_. True) (c\<lparr>c_arg := block * 512, c_writing := Some (block * 512, []), c_done := False\<rparr>)"
    using runs_start [OF assms(1,2) _ issue_write, where c = c and mode = 0] by simp
  then have "runs view (start_transfer m (internal_info sd) block 0 24) c (\<lambda>_. True) ?c" unfolding eq .
  moreover note runs_poll [OF assms(1), of 10 ?c]
  moreover have "runs view (for_each (bytes_to_words data) (reg_write (write32 m) (internal_info sd) 0x20)) ?c (\<lambda>_. True)
      (c\<lparr>c_arg := block * 512, c_done := False, c_writing := None, c_card := (c_card c)(block * 512 := data)\<rparr>)"
    using runs_write_words [OF assms(1), of ?c "block * 512" "[]" "bytes_to_words data"] ws by fastforce
  ultimately show ?thesis unfolding write_sd_card_def Let_def BufferWriteEnable_def by (auto intro!: runs_bnd)
qed

text \<open>A controller at address 0 with a blank card.\<close>

definition present_bits :: "controller \<Rightarrow> u32" where
  "present_bits c = push_bit 16 1 OR (if c_fifo c \<noteq> [] then push_bit 11 1 else 0) OR (if c_writing c \<noteq> None then push_bit 10 1 else 0)"

definition controller_mmio :: "controller mmio" where
  "controller_mmio = \<lparr>read8 = (\<lambda>a c. (0, c)), read16 = (\<lambda>a c. (if a = 0x30 \<and> c_done c then 1 else 0, c)),
     read32 = (\<lambda>a c. if a = 0x24 then (present_bits c, c)
       else if a = 0x20 then (case c_fifo c of [] \<Rightarrow> (0, c) | w # ws \<Rightarrow> (w, c\<lparr>c_fifo := ws\<rparr>)) else (0, c)),
     read64 = (\<lambda>a c. (0, c)), write8 = (\<lambda>a v c. c),
     write16 = (\<lambda>a v c. if a = 0x30 then c\<lparr>c_done := False\<rparr> else if a = 0xE then issue (drop_bit 8 v AND 0x3F) c else c),
     write32 = (\<lambda>a v c. if a = 0x8 then c\<lparr>c_arg := v\<rparr> else if a = 0x20 then feed v c else c)\<rparr>"

definition controller_sample :: controller where
  "controller_sample = \<lparr>c_arg = 0, c_done = False, c_fifo = [], c_writing = None, c_card = (\<lambda>_. replicate 512 0)\<rparr>"

definition sd_sample :: sd_card_info where
  "sd_sample = \<lparr>internal_info = \<lparr>capabilities = 0, base_address_register = 0\<rparr>, sd_block_size = 512, total_blocks = 8, reletave_card_address = 1\<rparr>"

lemma present_bits_facts:
  "present_bits c AND 3 = 0" "bit (present_bits c) 16" "bit (present_bits c) 11 = (c_fifo c \<noteq> [])" "bit (present_bits c) 10 = (c_writing c \<noteq> None)"
  by (auto simp: present_bits_def bit_simps)

lemma sample_ready: "sd_ready controller_mmio (internal_info sd_sample) (\<lambda>c. c)"
  using present_bits_facts
  by (auto simp: sd_ready_def controller_law_def controller_mmio_def sd_sample_def bit_0)

lemma sample_blocks: "length (c_card controller_sample a) = 512"
  by (simp add: controller_sample_def)



lemma start_transfer_overflow:
  assumes "sd_ready m sd view" "2 ^ 32 \<le> unat block * 512"
  shows "fst (start_transfer m sd block mode idx h) = Panic"
proof -
  obtain h1 where 1: "reg_write (write16 m) sd 0x4 0x200 h = (Ok (), h1)" by (rule runsD [OF runs_writes(1) [OF assms(1)] refl]) auto
  obtain h2 where 2: "reg_write (write16 m) sd 0x6 1 h1 = (Ok (), h2)" by (rule runsD [OF runs_writes(2) [OF assms(1)] refl]) auto
  obtain h3 where 3: "sending_command_valid m sd h2 = (Ok (), h3)" by (rule runsD [OF runs_valid [OF assms(1)] refl]) auto
  show ?thesis using 1 2 3 assms(2) by (simp add: start_transfer_def bnd_def SD_BLOCK_SIZE_def assert_p_def panic_def)
qed

lemma transfer_overflow:
  assumes "sd_ready m (internal_info sd) view" "2 ^ 32 \<le> unat block * 512"
  shows "fst (read_sd_card m sd block h) = Panic" "fst (write_sd_card m sd block data h) = Panic"
  using start_transfer_overflow [OF assms, of ReadToCard 17 h] start_transfer_overflow [OF assms, of 0 24 h]
  by (auto simp: read_sd_card_def write_sd_card_def Let_def bnd_def split: prod.splits)

lemma unat_block: "n < 2 ^ 32 \<Longrightarrow> unat (of_nat n :: u32) = n"
  by (simp add: unsigned_of_nat take_bit_nat_eq_self)

text \<open>C40: The bounds of the block device: a block number above \<open>total_blocks\<close> is refused, but \<open>total_blocks\<close> itself, one past the last
  block, is accepted and transferred, a number of \<open>2\<^sup>2\<^sup>3\<close> or more makes the byte address overflow and panics, and so does a buffer that is
  not 512 bytes long.\<close>

theorem sd_block_bounds:
  assumes "sd_ready m (internal_info sd) view" "\<And>a. length (c_card (view h) a) = 512"
  shows "(total_blocks sd < n \<longrightarrow> sd_read_block m sd n buf h = (Err IOError, h) \<and> sd_write_block m sd n buf h = (Err IOError, h))
    \<and> (n \<le> total_blocks sd \<and> n < 2 ^ 23 \<and> length buf = 512 \<longrightarrow>
         (\<exists>h1. sd_read_block m sd n buf h = (Ok (c_card (view h) (of_nat n * 512)), h1) \<and> c_card (view h1) = c_card (view h))
         \<and> (\<exists>h1. sd_write_block m sd n buf h = (Ok (), h1) \<and> c_card (view h1) = (c_card (view h))(of_nat n * 512 := buf)))
    \<and> (n \<le> total_blocks sd \<and> (2 ^ 23 \<le> n \<or> length buf \<noteq> 512) \<longrightarrow>
         fst (sd_read_block m sd n buf h) = Panic \<and> fst (sd_write_block m sd n buf h) = Panic)"
proof -
  note defs = sd_read_block_def sd_write_block_def bnd_def assert_p_def map_err_def copy_from_slice_def lift_res_def panic_def ret_def
  have panics: "fst (sd_read_block m sd n buf h) = Panic \<and> fst (sd_write_block m sd n buf h) = Panic"
    if h: "n \<le> total_blocks sd" "2 ^ 23 \<le> n \<or> length buf \<noteq> 512"
  proof -
    consider "n < 2 ^ 23" | "2 ^ 23 \<le> n" "n < 2 ^ 32" | "2 ^ 32 \<le> n" by linarith
    then show ?thesis
    proof cases
      case 1
      then have u: "unat (of_nat n :: u32) * 512 < 2 ^ 32" "n < 2 ^ 32" by (simp_all add: unat_block)
      obtain h1 where "read_sd_card m sd (of_nat n) h = (Ok (c_card (view h) (of_nat n * 512)), h1)"
        by (rule runsD [OF read_sd_card_runs [OF assms(1) u(1) assms(2)] refl]) auto
      then show ?thesis using h u(2) 1 assms(2) [of "of_nat n * 512"] by (simp add: defs)
    next
      case 2
      then have o: "2 ^ 32 \<le> unat (of_nat n :: u32) * 512" by (simp add: unat_block)
      obtain h1 h2 where "read_sd_card m sd (of_nat n) h = (Panic, h1)" "write_sd_card m sd (of_nat n) buf h = (Panic, h2)"
        using transfer_overflow(1) [OF assms(1) o, of h] transfer_overflow(2) [OF assms(1) o, of buf h] by (metis prod.collapse)
      then show ?thesis using h(1) 2 by (simp add: defs)
    next
      case 3
      then show ?thesis using h(1) by (simp add: defs)
    qed
  qed
  have transfers: "(\<exists>h1. sd_read_block m sd n buf h = (Ok (c_card (view h) (of_nat n * 512)), h1) \<and> c_card (view h1) = c_card (view h))
      \<and> (\<exists>h1. sd_write_block m sd n buf h = (Ok (), h1) \<and> c_card (view h1) = (c_card (view h))(of_nat n * 512 := buf))"
    if h: "n \<le> total_blocks sd" "n < 2 ^ 23" "length buf = 512"
  proof -
    have u: "unat (of_nat n :: u32) * 512 < 2 ^ 32" "n < 2 ^ 32" using h(2) by (simp_all add: unat_block)
    obtain h1 where r: "read_sd_card m sd (of_nat n) h = (Ok (c_card (view h) (of_nat n * 512)), h1)" "c_card (view h1) = c_card (view h)"
      by (rule runsD [OF read_sd_card_runs [OF assms(1) u(1) assms(2)] refl]) auto
    obtain h2 where w: "write_sd_card m sd (of_nat n) buf h = (Ok (), h2)" "c_card (view h2) = (c_card (view h))(of_nat n * 512 := buf)"
      by (rule runsD [where h = h, OF write_sd_card_runs [OF assms(1) u(1) h(3)] refl]) auto
    show ?thesis using h u(2) r w assms(2) by (simp add: defs)
  qed
  have "sd_read_block m sd n buf h = (Err IOError, h) \<and> sd_write_block m sd n buf h = (Err IOError, h)" if "total_blocks sd < n"
    using that by (simp add: sd_read_block_def sd_write_block_def raise_def)
  then show ?thesis using panics transfers by blast
qed

theorem sd_block_bounds_witness:
  "\<exists>c1. sd_write_block controller_mmio sd_sample 8 (replicate 512 7) controller_sample = (Ok (), c1) \<and> total_blocks sd_sample = 8
     \<and> c_card c1 (8 * 512) = replicate 512 7"
proof -
  have "8 \<le> total_blocks sd_sample" "total_blocks sd_sample = 8" by (simp_all add: sd_sample_def)
  then show ?thesis
    using sd_block_bounds [OF sample_ready sample_blocks, of 8 "replicate 512 7"] by fastforce
qed

end
