(* ===== verification/X2apic.thy ===== *)
theory X2apic
  imports Paging
begin

text \<open>
  The local interrupt controller and its timer (\<open>interrupts/x2apic.rs\<close>), with the set-up of a core (\<open>interrupts/mod.rs\<close>).
  Sending interrupts and acknowledging them is in \<open>Paging\<close>.

  Model-specific registers, ports and \<open>cpuid\<close> are hardware: the record \<open>apic_api\<close> over a machine state \<open>'h\<close>, as the executing core
  sees it.  An access to a register may fault (\<open>None\<close>); the kernel has no handler for that, so it ends in a panic.
\<close>

section \<open>Registers\<close>

record 'h apic_api =
  rdmsr :: "u32 \<Rightarrow> 'h \<Rightarrow> (u64 \<times> 'h) option"
  wrmsr :: "u32 \<Rightarrow> u64 \<Rightarrow> 'h \<Rightarrow> 'h option"
  in8 :: "u16 \<Rightarrow> 'h \<Rightarrow> u8 \<times> 'h"
  out8 :: "u16 \<Rightarrow> u8 \<Rightarrow> 'h \<Rightarrow> 'h"
  has_x2apic :: "'h \<Rightarrow> bool"

definition IA32_APIC_BASE_MSR :: u32 where "IA32_APIC_BASE_MSR = 0x1B"
definition X2APIC_SIVR :: u32 where "X2APIC_SIVR = 0x80F"
definition X2APIC_TPR :: u32 where "X2APIC_TPR = 0x808"
definition X2APIC_ID :: u32 where "X2APIC_ID = 0x802"
definition X2APIC_LVT_TIMER :: u32 where "X2APIC_LVT_TIMER = 0x832"
definition X2APIC_TIMER_ICR :: u32 where "X2APIC_TIMER_ICR = 0x838"
definition X2APIC_TIMER_CCR :: u32 where "X2APIC_TIMER_CCR = 0x839"
definition X2APIC_TIMER_DCR :: u32 where "X2APIC_TIMER_DCR = 0x83E"
definition PIT_FREQUENCY :: nat where "PIT_FREQUENCY = 1193182"
definition CHANNEL_2_PORT :: u16 where "CHANNEL_2_PORT = 0x42"
definition COMMAND_PORT :: u16 where "COMMAND_PORT = 0x43"
definition CONTROL_PORT :: u16 where "CONTROL_PORT = 0x61"
definition TIMER_VECTOR :: u8 where "TIMER_VECTOR = 32"
definition CPU_FREQUENCY :: u32 where "CPU_FREQUENCY = 100"

lemmas apic_constants = IA32_APIC_BASE_MSR_def X2APIC_SIVR_def X2APIC_TPR_def X2APIC_ID_def X2APIC_LVT_TIMER_def
  X2APIC_TIMER_ICR_def X2APIC_TIMER_CCR_def X2APIC_TIMER_DCR_def CHANNEL_2_PORT_def COMMAND_PORT_def CONTROL_PORT_def

datatype pit_error = InvalidDuration | CalibrationFailed

text \<open>The slots of \<open>APIC_MANAGER\<close> hold the flag \<open>enabled\<close> of each core's controller.\<close>

record 'h apic_state =
  apic_hw :: 'h
  apics :: "bool option list"
  calibrated_timer_count :: u32

type_synonym ('h, 'e, 'a) apic = "('h apic_state, 'e, 'a) prog"

definition msr_read :: "'h apic_api \<Rightarrow> u32 \<Rightarrow> ('h, 'e, u64) apic" where
  "msr_read io r s = (case rdmsr io r (apic_hw s) of None \<Rightarrow> (Panic, s) | Some (v, h) \<Rightarrow> (Ok v, s\<lparr>apic_hw := h\<rparr>))"

definition msr_write :: "'h apic_api \<Rightarrow> u32 \<Rightarrow> u64 \<Rightarrow> ('h, 'e, unit) apic" where
  "msr_write io r v s = (case wrmsr io r v (apic_hw s) of None \<Rightarrow> (Panic, s) | Some h \<Rightarrow> (Ok (), s\<lparr>apic_hw := h\<rparr>))"

definition port_read :: "'h apic_api \<Rightarrow> u16 \<Rightarrow> ('h, 'e, u8) apic" where
  "port_read io p s = (case in8 io p (apic_hw s) of (v, h) \<Rightarrow> (Ok v, s\<lparr>apic_hw := h\<rparr>))"

definition port_write :: "'h apic_api \<Rightarrow> u16 \<Rightarrow> u8 \<Rightarrow> ('h, 'e, unit) apic" where
  "port_write io p v = modify_st (\<lambda>s. s\<lparr>apic_hw := out8 io p v (apic_hw s)\<rparr>)"

section \<open>Operations\<close>

definition mask_timer :: "'h apic_api \<Rightarrow> ('h, 'e, unit) apic" where
  "mask_timer io = bnd (msr_read io X2APIC_LVT_TIMER) (\<lambda>val. msr_write io X2APIC_LVT_TIMER (val OR push_bit 16 1))"

definition unmask_timer :: "'h apic_api \<Rightarrow> ('h, 'e, unit) apic" where
  "unmask_timer io = bnd (msr_read io X2APIC_LVT_TIMER) (\<lambda>val. msr_write io X2APIC_LVT_TIMER (val AND NOT (push_bit 16 1)))"

definition current_core_id :: "'h apic_api \<Rightarrow> ('h, 'e, nat) apic" where
  "current_core_id io = bnd (msr_read io X2APIC_ID) (\<lambda>v. ret (unat v))"

definition x2apic_new :: "'h apic_api \<Rightarrow> ('h, x2apic_error, bool) apic" where
  "x2apic_new io = bnd (gets (\<lambda>s. has_x2apic io (apic_hw s))) (\<lambda>b. if \<not> b then raise NotSupportedApic else ret False)"

definition x2apic_enable :: "'h apic_api \<Rightarrow> bool \<Rightarrow> ('h, x2apic_error, bool) apic" where
  "x2apic_enable io enabled =
    (if enabled then ret True
     else bnd (msr_read io IA32_APIC_BASE_MSR) (\<lambda>v.
     bnd (msr_write io IA32_APIC_BASE_MSR (v OR push_bit 11 1 OR push_bit 10 1)) (\<lambda>_.
     bnd (msr_read io IA32_APIC_BASE_MSR) (\<lambda>new_value.
     if new_value AND (push_bit 11 1 OR push_bit 10 1) \<noteq> push_bit 11 1 OR push_bit 10 1 then raise EnableFailed
     else bnd (msr_write io X2APIC_SIVR (0xFF OR push_bit 8 1)) (\<lambda>_.
     bnd (msr_write io X2APIC_TPR 0) (\<lambda>_.
     ret True))))))"

definition initialize_current_core :: "'h apic_api \<Rightarrow> ('h, x2apic_error, unit) apic" where
  "initialize_current_core io =
    bnd (x2apic_new io) (\<lambda>apic.
    bnd (x2apic_enable io apic) (\<lambda>apic.
    bnd (current_core_id io) (\<lambda>i.
    if i \<ge> MAX_CORES then raise CoreOutOfRange
    else modify_st (\<lambda>s. s\<lparr>apics := (apics s)[i := Some apic]\<rparr>))))"

text \<open>The loop that counts changes of the output bit of the timer chip may run for ever.\<close>

partial_function (option) count_changes :: "'h apic_api \<Rightarrow> nat \<Rightarrow> u8 \<Rightarrow> 'h \<Rightarrow> 'h option" where
  "count_changes io changes prev h =
    (if changes < 40
     then (case in8 io CONTROL_PORT h of (v, h') \<Rightarrow>
       let t = v AND 0x20
       in if t \<noteq> prev then count_changes io (changes + 1) t h' else count_changes io changes prev h')
     else Some h)"

definition calibrate_apic_timer :: "'h apic_api \<Rightarrow> u32 \<Rightarrow> ('h apic_state, pit_error, u32) dprog" where
  "calibrate_apic_timer io hz =
    dbnd (total (mask_timer io)) (\<lambda>_.
    dbnd (total (msr_write io X2APIC_TIMER_DCR 0xB)) (\<lambda>_.
    let initial = - 1 :: u32
    in dbnd (total (msr_write io X2APIC_TIMER_ICR (ucast initial))) (\<lambda>_.
    dbnd (total (port_write io CONTROL_PORT 1)) (\<lambda>_.
    dbnd (total (port_write io COMMAND_PORT 0xB6)) (\<lambda>_.
    let pit_divider = of_nat PIT_FREQUENCY div 20 :: u32
    in if pit_divider > 0xFFFF then total (raise InvalidDuration)
    else dbnd (total (port_write io CHANNEL_2_PORT (ucast (pit_divider AND 0xFF)))) (\<lambda>_.
    dbnd (total (port_write io CHANNEL_2_PORT (ucast (drop_bit 8 pit_divider)))) (\<lambda>_.
    dbnd (total (port_read io CONTROL_PORT)) (\<lambda>v.
    dbnd (\<lambda>s. case count_changes io 0 (v AND 0x20) (apic_hw s) of None \<Rightarrow> None | Some h \<Rightarrow> Some (Ok (), s\<lparr>apic_hw := h\<rparr>)) (\<lambda>_.
    dbnd (total (port_write io CONTROL_PORT 0)) (\<lambda>_.
    dbnd (total (msr_read io X2APIC_TIMER_CCR)) (\<lambda>c.
    let final_count = ucast c; diff = initial - final_count
    in if hz = 0 then total panic else total (ret (diff div hz)))))))))))))"

definition calibrate_timer :: "'h apic_api \<Rightarrow> u32 \<Rightarrow> ('h apic_state, x2apic_error, u32) dprog" where
  "calibrate_timer io hz s = (case calibrate_apic_timer io hz s of
      None \<Rightarrow> None | Some (Ok x, t) \<Rightarrow> Some (Ok x, t) | Some (Err _, t) \<Rightarrow> Some (Err TimerError, t) | Some (Panic, t) \<Rightarrow> Some (Panic, t))"

definition configure_timer_current_core :: "'h apic_api \<Rightarrow> u32 \<Rightarrow> ('h, x2apic_error, unit) apic" where
  "configure_timer_current_core io counter =
    (let timer_config = push_bit 17 1 OR ucast TIMER_VECTOR
     in bnd (msr_write io X2APIC_LVT_TIMER timer_config) (\<lambda>_.
     bnd (msr_write io X2APIC_TIMER_DCR 0xB) (\<lambda>_.
     msr_write io X2APIC_TIMER_ICR (ucast counter))))"

definition bsp_init :: "'h apic_api \<Rightarrow> u32 \<Rightarrow> ('h apic_state, x2apic_error, unit) dprog" where
  "bsp_init io hz =
    dbnd (calibrate_timer io hz) (\<lambda>count.
    dbnd (total (modify_st (\<lambda>s. s\<lparr>calibrated_timer_count := count\<rparr>))) (\<lambda>_.
    dbnd (total (initialize_current_core io)) (\<lambda>_.
    total (configure_timer_current_core io count))))"

definition ap_init :: "'h apic_api \<Rightarrow> ('h, x2apic_error, unit) apic" where
  "ap_init io =
    bnd (gets calibrated_timer_count) (\<lambda>count.
    bnd (initialize_current_core io) (\<lambda>_.
    configure_timer_current_core io count))"

text \<open>\<open>interrupts::init\<close>; the descriptor tables are data of the processor that the kernel only loads.\<close>

definition interrupts_init :: "'h apic_api \<Rightarrow> u32 \<Rightarrow> ('h apic_state, unit, unit) dprog" where
  "interrupts_init io cpu_id s =
    (case (if cpu_id = 0 then bsp_init io CPU_FREQUENCY s else total (ap_init io) s) of
       None \<Rightarrow> None | Some (Ok x, t) \<Rightarrow> Some (Ok x, t) | Some (_, t) \<Rightarrow> Some (Panic, t))"

section \<open>Start of the timer\<close>

text \<open>The registers: \<open>msr h r\<close> is what register \<open>r\<close> holds.  The registers \<open>0x800\<close> to \<open>0x8FF\<close> exist only in x2APIC mode, with bits 10 and 11 of the base
  register set, and fault otherwise.  Of the bits of a register only the defined ones may be written, and x2APIC mode can be entered when bit 11 is set
  already.  Port accesses leave the registers alone.\<close>

definition apic_on :: "('h \<Rightarrow> u32 \<Rightarrow> u64) \<Rightarrow> 'h \<Rightarrow> bool" where
  "apic_on msr h \<longleftrightarrow> msr h IA32_APIC_BASE_MSR AND 0xC00 = 0xC00"

definition x2_reg :: "u32 \<Rightarrow> bool" where
  "x2_reg r \<longleftrightarrow> 0x800 \<le> r \<and> r \<le> 0x8FF"

definition legal_value :: "u32 \<Rightarrow> u64 \<Rightarrow> bool" where
  "legal_value r v \<longleftrightarrow>
     r = X2APIC_SIVR \<and> v AND NOT 0x13FF = 0 \<or> r = X2APIC_TPR \<and> v AND NOT 0xFF = 0 \<or> r = X2APIC_LVT_TIMER \<and> v AND NOT 0x710FF = 0
     \<or> r = X2APIC_TIMER_ICR \<and> v AND NOT 0xFFFFFFFF = 0 \<or> r = X2APIC_TIMER_DCR \<and> v AND NOT 0xB = 0"

definition msr_fault_law :: "'h apic_api \<Rightarrow> ('h \<Rightarrow> u32 \<Rightarrow> u64) \<Rightarrow> bool" where
  "msr_fault_law io msr \<longleftrightarrow> (\<forall>r h. x2_reg r \<longrightarrow> \<not> apic_on msr h \<longrightarrow> rdmsr io r h = None \<and> (\<forall>v. wrmsr io r v h = None))"

definition msr_read_law :: "'h apic_api \<Rightarrow> ('h \<Rightarrow> u32 \<Rightarrow> u64) \<Rightarrow> bool" where
  "msr_read_law io msr \<longleftrightarrow>
     (\<forall>h. \<exists>h'. rdmsr io IA32_APIC_BASE_MSR h = Some (msr h IA32_APIC_BASE_MSR, h') \<and> msr h' = msr h)
     \<and> (\<forall>h. apic_on msr h \<longrightarrow> (\<exists>h'. rdmsr io X2APIC_ID h = Some (msr h X2APIC_ID, h') \<and> msr h' = msr h))
     \<and> (\<forall>h. apic_on msr h \<longrightarrow> (\<exists>v h'. rdmsr io X2APIC_LVT_TIMER h = Some (v, h') \<and> msr h' = msr h \<and> legal_value X2APIC_LVT_TIMER v))
     \<and> (\<forall>h. apic_on msr h \<longrightarrow> (\<exists>v h'. rdmsr io X2APIC_TIMER_CCR h = Some (v, h') \<and> msr h' = msr h))"

definition msr_write_law :: "'h apic_api \<Rightarrow> ('h \<Rightarrow> u32 \<Rightarrow> u64) \<Rightarrow> bool" where
  "msr_write_law io msr \<longleftrightarrow>
     (\<forall>h. bit (msr h IA32_APIC_BASE_MSR) 11 \<longrightarrow>
        (let v = msr h IA32_APIC_BASE_MSR OR 0xC00
         in \<exists>h'. wrmsr io IA32_APIC_BASE_MSR v h = Some h' \<and> msr h' = (msr h)(IA32_APIC_BASE_MSR := v)))
     \<and> (\<forall>r v h. legal_value r v \<longrightarrow> apic_on msr h \<longrightarrow> (\<exists>h'. wrmsr io r v h = Some h' \<and> msr h' = (msr h)(r := v)))"

definition apic_law :: "'h apic_api \<Rightarrow> ('h \<Rightarrow> u32 \<Rightarrow> u64) \<Rightarrow> bool" where
  "apic_law io msr \<longleftrightarrow> msr_fault_law io msr \<and> msr_read_law io msr \<and> msr_write_law io msr
     \<and> (\<forall>p h. msr (snd (in8 io p h)) = msr h) \<and> (\<forall>p v h. msr (out8 io p v h) = msr h) \<and> (\<forall>h. has_x2apic io h)"

text \<open>However often the control port is read, the output bit of the timer chip will at some later read differ from any earlier value.\<close>

definition after_read :: "'h apic_api \<Rightarrow> 'h \<Rightarrow> 'h" where
  "after_read io h = snd (in8 io CONTROL_PORT h)"

definition pit_toggles :: "'h apic_api \<Rightarrow> bool" where
  "pit_toggles io \<longleftrightarrow> (\<forall>h prev. \<exists>n. fst (in8 io CONTROL_PORT ((after_read io ^^ n) h)) AND 0x20 \<noteq> prev)"

lemma next_change:
  assumes "fst (in8 io CONTROL_PORT ((after_read io ^^ n) h)) AND 0x20 \<noteq> prev" "changes < 40"
    "\<And>p h. msr (snd (in8 io p h)) = msr h"
  shows "\<exists>t h'. count_changes io changes prev h = count_changes io (changes + 1) t h' \<and> msr h' = msr h"
  using assms(1)
proof (induction n arbitrary: h)
  case 0
  then have "count_changes io changes prev h = count_changes io (changes + 1) (fst (in8 io CONTROL_PORT h) AND 0x20) (snd (in8 io CONTROL_PORT h))"
    using assms(2) by (subst count_changes.simps) (simp add: case_prod_beta Let_def)
  then show ?case using assms(3) by blast
next
  case (Suc n)
  let ?h = "snd (in8 io CONTROL_PORT h)"
  show ?case
  proof (cases "fst (in8 io CONTROL_PORT h) AND 0x20 = prev")
    case True
    then have "count_changes io changes prev h = count_changes io changes prev ?h"
      using assms(2) by (subst count_changes.simps) (simp add: case_prod_beta Let_def)
    moreover have "\<exists>t h'. count_changes io changes prev ?h = count_changes io (changes + 1) t h' \<and> msr h' = msr ?h"
      by (rule Suc.IH) (use Suc.prems in \<open>simp add: funpow_swap1 after_read_def [symmetric]\<close>)
    ultimately show ?thesis using assms(3) by simp
  next
    case False
    then have "count_changes io changes prev h = count_changes io (changes + 1) (fst (in8 io CONTROL_PORT h) AND 0x20) ?h"
      using assms(2) by (subst count_changes.simps) (simp add: case_prod_beta Let_def)
    then show ?thesis using assms(3) by blast
  qed
qed

lemma count_changes_returns:
  assumes "pit_toggles io" "\<And>p h. msr (snd (in8 io p h)) = msr h"
  shows "\<exists>h'. count_changes io changes prev h = Some h' \<and> msr h' = msr h"
proof (induction "40 - changes" arbitrary: changes prev h)
  case 0
  then show ?case by (subst count_changes.simps) simp
next
  case (Suc k)
  obtain n where n: "fst (in8 io CONTROL_PORT ((after_read io ^^ n) h)) AND 0x20 \<noteq> prev"
    using assms(1) unfolding pit_toggles_def by blast
  have "changes < 40" "k = 40 - (changes + 1)" using Suc.hyps(2) by simp_all
  then show ?case using next_change [OF n _ assms(2)] Suc.hyps(1) by metis
qed

text \<open>Single accesses under the law.\<close>

lemma x2_regs [simp]:
  "x2_reg X2APIC_SIVR" "x2_reg X2APIC_TPR" "x2_reg X2APIC_ID" "x2_reg X2APIC_LVT_TIMER" "x2_reg X2APIC_TIMER_ICR"
  "x2_reg X2APIC_TIMER_CCR" "x2_reg X2APIC_TIMER_DCR"
  by (simp_all add: x2_reg_def apic_constants)

lemma read_base:
  assumes "apic_law io msr"
  obtains h where "msr_read io IA32_APIC_BASE_MSR s = (Ok (msr (apic_hw s) IA32_APIC_BASE_MSR) :: ('e, u64) res, s\<lparr>apic_hw := h\<rparr>)"
    "msr h = msr (apic_hw s)"
proof -
  have "\<exists>h'. rdmsr io IA32_APIC_BASE_MSR (apic_hw s) = Some (msr (apic_hw s) IA32_APIC_BASE_MSR, h') \<and> msr h' = msr (apic_hw s)"
    using assms unfolding apic_law_def msr_read_law_def by (elim conjE allE)
  then show thesis using that by (auto simp: msr_read_def)
qed

lemma read_id:
  assumes "apic_law io msr" "apic_on msr (apic_hw s)"
  obtains h where "msr_read io X2APIC_ID s = (Ok (msr (apic_hw s) X2APIC_ID) :: ('e, u64) res, s\<lparr>apic_hw := h\<rparr>)"
    "msr h = msr (apic_hw s)"
proof -
  have "\<forall>h. apic_on msr h \<longrightarrow> (\<exists>h'. rdmsr io X2APIC_ID h = Some (msr h X2APIC_ID, h') \<and> msr h' = msr h)"
    using assms(1) unfolding apic_law_def msr_read_law_def by (elim conjE)
  with assms(2) have "\<exists>h'. rdmsr io X2APIC_ID (apic_hw s) = Some (msr (apic_hw s) X2APIC_ID, h') \<and> msr h' = msr (apic_hw s)" by blast
  then show thesis using that by (auto simp: msr_read_def)
qed

lemma read_lvt:
  assumes "apic_law io msr" "apic_on msr (apic_hw s)"
  obtains v h where "msr_read io X2APIC_LVT_TIMER s = (Ok v :: ('e, u64) res, s\<lparr>apic_hw := h\<rparr>)" "msr h = msr (apic_hw s)"
    "legal_value X2APIC_LVT_TIMER v"
proof -
  have "\<forall>h. apic_on msr h \<longrightarrow> (\<exists>v h'. rdmsr io X2APIC_LVT_TIMER h = Some (v, h') \<and> msr h' = msr h \<and> legal_value X2APIC_LVT_TIMER v)"
    using assms(1) unfolding apic_law_def msr_read_law_def by (elim conjE)
  with assms(2) obtain v h where "rdmsr io X2APIC_LVT_TIMER (apic_hw s) = Some (v, h)" "msr h = msr (apic_hw s)" "legal_value X2APIC_LVT_TIMER v"
    by blast
  then show thesis using that by (simp add: msr_read_def)
qed

lemma read_ccr:
  assumes "apic_law io msr" "apic_on msr (apic_hw s)"
  obtains v h where "msr_read io X2APIC_TIMER_CCR s = (Ok v :: ('e, u64) res, s\<lparr>apic_hw := h\<rparr>)" "msr h = msr (apic_hw s)"
proof -
  have "\<forall>h. apic_on msr h \<longrightarrow> (\<exists>v h'. rdmsr io X2APIC_TIMER_CCR h = Some (v, h') \<and> msr h' = msr h)"
    using assms(1) unfolding apic_law_def msr_read_law_def by (elim conjE)
  with assms(2) obtain v h where "rdmsr io X2APIC_TIMER_CCR (apic_hw s) = Some (v, h)" "msr h = msr (apic_hw s)" by blast
  then show thesis using that by (simp add: msr_read_def)
qed

lemma write_base:
  assumes "apic_law io msr" "bit (msr (apic_hw s) IA32_APIC_BASE_MSR) 11" "v = msr (apic_hw s) IA32_APIC_BASE_MSR OR 0xC00"
  obtains h where "msr_write io IA32_APIC_BASE_MSR v s = (Ok () :: ('e, unit) res, s\<lparr>apic_hw := h\<rparr>)"
    "msr h = (msr (apic_hw s))(IA32_APIC_BASE_MSR := v)"
proof -
  have "\<forall>h. bit (msr h IA32_APIC_BASE_MSR) 11 \<longrightarrow>
      (let v = msr h IA32_APIC_BASE_MSR OR 0xC00
       in \<exists>h'. wrmsr io IA32_APIC_BASE_MSR v h = Some h' \<and> msr h' = (msr h)(IA32_APIC_BASE_MSR := v))"
    using assms(1) unfolding apic_law_def msr_write_law_def by (elim conjE)
  with assms(2,3) obtain h where "wrmsr io IA32_APIC_BASE_MSR v (apic_hw s) = Some h" "msr h = (msr (apic_hw s))(IA32_APIC_BASE_MSR := v)"
    unfolding Let_def by blast
  then show thesis using that by (simp add: msr_write_def)
qed

lemma legal_not_base: "legal_value r v \<Longrightarrow> r \<noteq> IA32_APIC_BASE_MSR \<and> r \<noteq> X2APIC_ID"
  by (auto simp: legal_value_def apic_constants)

lemma write_legal:
  assumes "apic_law io msr" "apic_on msr (apic_hw s)" "legal_value r v"
  obtains h where "msr_write io r v s = (Ok () :: ('e, unit) res, s\<lparr>apic_hw := h\<rparr>)" "msr h = (msr (apic_hw s))(r := v)" "apic_on msr h"
proof -
  have "\<forall>r v h. legal_value r v \<longrightarrow> apic_on msr h \<longrightarrow> (\<exists>h'. wrmsr io r v h = Some h' \<and> msr h' = (msr h)(r := v))"
    using assms(1) unfolding apic_law_def msr_write_law_def by (elim conjE)
  with assms(2,3) obtain h where h: "wrmsr io r v (apic_hw s) = Some h" "msr h = (msr (apic_hw s))(r := v)" by blast
  moreover have "apic_on msr h" using assms(2) legal_not_base [OF assms(3)] h(2) by (auto simp: apic_on_def)
  ultimately show thesis using that by (simp add: msr_write_def)
qed

lemma legal_values [simp]:
  "legal_value X2APIC_SIVR 0x1FF" "legal_value X2APIC_TPR 0" "legal_value X2APIC_LVT_TIMER 0x20020"
  "legal_value X2APIC_TIMER_DCR 0xB" "legal_value X2APIC_TIMER_ICR (ucast (c :: u32))"
proof -
  have m: "(0xFFFFFFFF :: u64) = mask 32" by (simp add: mask_eq_exp_minus_1)
  have "ucast c AND NOT (0xFFFFFFFF :: u64) = 0" unfolding m by (rule bit_word_eqI) (auto simp: bit_simps dest: bit_imp_le_length)
  then show "legal_value X2APIC_TIMER_ICR (ucast c)" by (simp add: legal_value_def)
qed (simp_all add: legal_value_def)

lemma legal_masked: "legal_value X2APIC_LVT_TIMER v \<Longrightarrow> legal_value X2APIC_LVT_TIMER (v OR 0x10000)"
  by (auto simp: legal_value_def apic_constants bit.conj_disj_distrib2)

text \<open>Operations of a core in x2APIC mode.\<close>

lemma hw_twice: "s\<lparr>apic_hw := a, apic_hw := b\<rparr> = s\<lparr>apic_hw := b\<rparr>" "apic_hw (s\<lparr>apic_hw := a\<rparr>) = a"
  by simp_all

lemma mask_timer_on:
  assumes "apic_law io msr" "apic_on msr (apic_hw s)"
  obtains h v where "mask_timer io s = (Ok () :: ('e, unit) res, s\<lparr>apic_hw := h\<rparr>)" "msr h = (msr (apic_hw s))(X2APIC_LVT_TIMER := v)" "apic_on msr h"
proof -
  obtain v h where 1: "msr_read io X2APIC_LVT_TIMER s = (Ok v :: ('e, u64) res, s\<lparr>apic_hw := h\<rparr>)" "msr h = msr (apic_hw s)"
      "legal_value X2APIC_LVT_TIMER v"
    by (rule read_lvt [OF assms]) (rule that)
  have "apic_on msr (apic_hw (s\<lparr>apic_hw := h\<rparr>))" using assms(2) 1(2) by (simp add: apic_on_def)
  then obtain h' where 2: "msr_write io X2APIC_LVT_TIMER (v OR 0x10000) (s\<lparr>apic_hw := h\<rparr>) = (Ok () :: ('e, unit) res, s\<lparr>apic_hw := h, apic_hw := h'\<rparr>)"
      "msr h' = (msr (apic_hw (s\<lparr>apic_hw := h\<rparr>)))(X2APIC_LVT_TIMER := v OR 0x10000)" "apic_on msr h'"
    by (rule write_legal [OF assms(1) _ legal_masked [OF 1(3)]]) (rule that)
  show thesis by (rule that [of h' "v OR 0x10000"]) (use 1(1,2) 2 in \<open>simp_all add: mask_timer_def bnd_def\<close>)
qed

lemma calibrate_on:
  assumes law: "apic_law io msr" and pit: "pit_toggles io" and on: "apic_on msr (apic_hw s)" and hz: "hz \<noteq> 0"
  obtains c h where "calibrate_apic_timer io hz s = Some (Ok ((- 1 - c) div hz), s\<lparr>apic_hw := h\<rparr>)"
    "apic_on msr h" "msr h X2APIC_ID = msr (apic_hw s) X2APIC_ID"
proof -
  have ports: "msr (snd (in8 io p h)) = msr h" "msr (out8 io p v h) = msr h" for p v h
    using law by (simp_all add: apic_law_def)
  obtain h1 v1 where 1: "mask_timer io s = (Ok () :: (pit_error, unit) res, s\<lparr>apic_hw := h1\<rparr>)"
      "msr h1 = (msr (apic_hw s))(X2APIC_LVT_TIMER := v1)" "apic_on msr h1"
    by (rule mask_timer_on [OF law on]) (rule that)
  obtain h2 where 2: "msr_write io X2APIC_TIMER_DCR 0xB (s\<lparr>apic_hw := h1\<rparr>) = (Ok () :: (pit_error, unit) res, s\<lparr>apic_hw := h2\<rparr>)"
      "msr h2 = (msr h1)(X2APIC_TIMER_DCR := 0xB)" "apic_on msr h2"
    by (rule write_legal [OF law, of "s\<lparr>apic_hw := h1\<rparr>" X2APIC_TIMER_DCR "0xB"]) (use 1(3) in simp_all)
  obtain h3 where 3: "msr_write io X2APIC_TIMER_ICR (ucast (- 1 :: u32)) (s\<lparr>apic_hw := h2\<rparr>) = (Ok () :: (pit_error, unit) res, s\<lparr>apic_hw := h3\<rparr>)"
      "msr h3 = (msr h2)(X2APIC_TIMER_ICR := ucast (- 1 :: u32))" "apic_on msr h3"
    by (rule write_legal [OF law, of "s\<lparr>apic_hw := h2\<rparr>" X2APIC_TIMER_ICR "ucast (- 1 :: u32)"]) (use 2(3) legal_values(5) in simp_all)
  let ?d = "of_nat PIT_FREQUENCY div 20 :: u32"
  let ?h4 = "out8 io CHANNEL_2_PORT (ucast (drop_bit 8 ?d)) (out8 io CHANNEL_2_PORT (ucast (?d AND 0xFF)) (out8 io COMMAND_PORT 0xB6 (out8 io CONTROL_PORT 1 h3)))"
  have m4: "msr (snd (in8 io CONTROL_PORT ?h4)) = msr h3" by (simp add: ports)
  obtain h5 where 5: "count_changes io 0 (fst (in8 io CONTROL_PORT ?h4) AND 0x20) (snd (in8 io CONTROL_PORT ?h4)) = Some h5" "msr h5 = msr h3"
    using count_changes_returns [where msr = msr, OF pit ports(1)] m4 by metis
  have "apic_on msr (out8 io CONTROL_PORT 0 h5)" using 3(3) 5(2) ports(2) by (simp add: apic_on_def)
  then obtain c h6 where 6: "msr_read io X2APIC_TIMER_CCR (s\<lparr>apic_hw := out8 io CONTROL_PORT 0 h5\<rparr>) = (Ok c :: (pit_error, u64) res, s\<lparr>apic_hw := h6\<rparr>)"
      "msr h6 = msr (out8 io CONTROL_PORT 0 h5)"
    by (rule read_ccr [OF law, of "s\<lparr>apic_hw := out8 io CONTROL_PORT 0 h5\<rparr>", simplified]) (rule that)
  have d: "(?d > 0xFFFF) = False" by (simp add: PIT_FREQUENCY_def)
  have m6: "msr h6 = msr h3" using 6(2) 5(2) ports(2) by simp
  show thesis
  proof (rule that)
    show "calibrate_apic_timer io hz s = Some (Ok ((- 1 - ucast c) div hz), s\<lparr>apic_hw := h6\<rparr>)"
      unfolding calibrate_apic_timer_def Let_def d if_False
      using hz by (simp only: dbnd_def total_def 1(1) 2(1) 3(1) 5(1) 6(1) port_write_def port_read_def modify_st_def case_prod_beta ret_def
        option.case res.case prod.case fst_conv snd_conv hw_twice if_False)
    show "apic_on msr h6" using 3(3) m6 by (simp add: apic_on_def)
    show "msr h6 X2APIC_ID = msr (apic_hw s) X2APIC_ID" using m6 3(2) 2(2) 1(2) by (simp add: apic_constants)
  qed
qed

lemma or_and_self: "(v OR x) AND x = (x :: u64)"
  by (rule bit_word_eqI) (auto simp: bit_simps)

lemma apic_on_bit: "apic_on msr h \<Longrightarrow> bit (msr h IA32_APIC_BASE_MSR) 11"
proof -
  assume "apic_on msr h"
  then have "bit (msr h IA32_APIC_BASE_MSR AND 0xC00) 11 = bit (0xC00 :: u64) 11" by (simp add: apic_on_def)
  then show ?thesis by (simp add: bit_and_iff)
qed

lemma enable_from_xapic:
  assumes law: "apic_law io msr" and xapic: "bit (msr (apic_hw s) IA32_APIC_BASE_MSR) 11"
  obtains h where "x2apic_enable io False s = (Ok True, s\<lparr>apic_hw := h\<rparr>)" "apic_on msr h"
    "msr h = (msr (apic_hw s))(IA32_APIC_BASE_MSR := msr (apic_hw s) IA32_APIC_BASE_MSR OR 0xC00, X2APIC_SIVR := 0x1FF, X2APIC_TPR := 0)"
proof -
  let ?B = "msr (apic_hw s) IA32_APIC_BASE_MSR"
  obtain h1 where 1: "msr_read io IA32_APIC_BASE_MSR s = (Ok ?B :: (x2apic_error, u64) res, s\<lparr>apic_hw := h1\<rparr>)" "msr h1 = msr (apic_hw s)"
    by (rule read_base [OF law]) (rule that)
  obtain h2 where 2: "msr_write io IA32_APIC_BASE_MSR (?B OR 0xC00) (s\<lparr>apic_hw := h1\<rparr>) = (Ok () :: (x2apic_error, unit) res, s\<lparr>apic_hw := h2\<rparr>)"
      "msr h2 = (msr h1)(IA32_APIC_BASE_MSR := ?B OR 0xC00)"
    by (rule write_base [OF law, of "s\<lparr>apic_hw := h1\<rparr>" "?B OR 0xC00"]) (use xapic 1(2) in simp_all)
  obtain h3 where 3: "msr_read io IA32_APIC_BASE_MSR (s\<lparr>apic_hw := h2\<rparr>) = (Ok (?B OR 0xC00) :: (x2apic_error, u64) res, s\<lparr>apic_hw := h3\<rparr>)"
      "msr h3 = msr h2"
    by (rule read_base [OF law, of "s\<lparr>apic_hw := h2\<rparr>"]) (use 2(2) in simp)
  have on3: "apic_on msr h3" using 2(2) 3(2) by (simp add: apic_on_def or_and_self)
  obtain h4 where 4: "msr_write io X2APIC_SIVR 0x1FF (s\<lparr>apic_hw := h3\<rparr>) = (Ok () :: (x2apic_error, unit) res, s\<lparr>apic_hw := h4\<rparr>)"
      "msr h4 = (msr h3)(X2APIC_SIVR := 0x1FF)" "apic_on msr h4"
    by (rule write_legal [OF law, of "s\<lparr>apic_hw := h3\<rparr>" X2APIC_SIVR "0x1FF"]) (use on3 in simp_all)
  obtain h5 where 5: "msr_write io X2APIC_TPR 0 (s\<lparr>apic_hw := h4\<rparr>) = (Ok () :: (x2apic_error, unit) res, s\<lparr>apic_hw := h5\<rparr>)"
      "msr h5 = (msr h4)(X2APIC_TPR := 0)" "apic_on msr h5"
    by (rule write_legal [OF law, of "s\<lparr>apic_hw := h4\<rparr>" X2APIC_TPR 0]) (use 4(3) in simp_all)
  show thesis
  proof (rule that)
    show "x2apic_enable io False s = (Ok True, s\<lparr>apic_hw := h5\<rparr>)"
      using 1(1) 2(1) 3(1) 4(1) 5(1) by (simp add: x2apic_enable_def bnd_def ret_def or_and_self)
  qed (use 1(2) 2(2) 3(2) 4(2) 5(2,3) in simp_all)
qed

lemma initialize_from_xapic:
  assumes law: "apic_law io msr" and xapic: "bit (msr (apic_hw s) IA32_APIC_BASE_MSR) 11"
    and core: "unat (msr (apic_hw s) X2APIC_ID) < MAX_CORES"
  obtains h where "initialize_current_core io s = (Ok (), s\<lparr>apic_hw := h, apics := (apics s)[unat (msr (apic_hw s) X2APIC_ID) := Some True]\<rparr>)"
    "apic_on msr h"
    "msr h = (msr (apic_hw s))(IA32_APIC_BASE_MSR := msr (apic_hw s) IA32_APIC_BASE_MSR OR 0xC00, X2APIC_SIVR := 0x1FF, X2APIC_TPR := 0)"
proof -
  let ?m = "(msr (apic_hw s))(IA32_APIC_BASE_MSR := msr (apic_hw s) IA32_APIC_BASE_MSR OR 0xC00, X2APIC_SIVR := 0x1FF, X2APIC_TPR := 0)"
  obtain h where h: "x2apic_enable io False s = (Ok True, s\<lparr>apic_hw := h\<rparr>)" "apic_on msr h" "msr h = ?m"
    by (rule enable_from_xapic [OF law xapic]) (rule that)
  have i: "msr h X2APIC_ID = msr (apic_hw s) X2APIC_ID" using h(3) by (simp add: apic_constants)
  obtain h' where h': "msr_read io X2APIC_ID (s\<lparr>apic_hw := h\<rparr>) = (Ok (msr (apic_hw s) X2APIC_ID) :: (x2apic_error, u64) res, s\<lparr>apic_hw := h'\<rparr>)"
      "msr h' = msr h"
    by (rule read_id [OF law, of "s\<lparr>apic_hw := h\<rparr>"]) (use h(2) i in simp_all)
  have "has_x2apic io (apic_hw s)" using law by (simp add: apic_law_def)
  then have "x2apic_new io s = (Ok False, s)" by (simp add: x2apic_new_def bnd_def gets_def ret_def)
  then have "initialize_current_core io s = (Ok (), s\<lparr>apic_hw := h', apics := (apics s)[unat (msr (apic_hw s) X2APIC_ID) := Some True]\<rparr>)"
    using h(1) h'(1) core by (simp add: initialize_current_core_def current_core_id_def bnd_def ret_def modify_st_def)
  then show thesis by (rule that) (use h h' in \<open>simp_all add: apic_on_def\<close>)
qed

lemma configure_on:
  assumes law: "apic_law io msr" and on: "apic_on msr (apic_hw s)"
  obtains h where "configure_timer_current_core io counter s = (Ok (), s\<lparr>apic_hw := h\<rparr>)"
    "msr h = (msr (apic_hw s))(X2APIC_LVT_TIMER := 0x20020, X2APIC_TIMER_DCR := 0xB, X2APIC_TIMER_ICR := ucast counter)"
proof -
  obtain h1 where 1: "msr_write io X2APIC_LVT_TIMER 0x20020 s = (Ok () :: (x2apic_error, unit) res, s\<lparr>apic_hw := h1\<rparr>)"
      "msr h1 = (msr (apic_hw s))(X2APIC_LVT_TIMER := 0x20020)" "apic_on msr h1"
    by (rule write_legal [OF law on legal_values(3)]) (rule that)
  obtain h2 where 2: "msr_write io X2APIC_TIMER_DCR 0xB (s\<lparr>apic_hw := h1\<rparr>) = (Ok () :: (x2apic_error, unit) res, s\<lparr>apic_hw := h2\<rparr>)"
      "msr h2 = (msr h1)(X2APIC_TIMER_DCR := 0xB)" "apic_on msr h2"
    by (rule write_legal [OF law, of "s\<lparr>apic_hw := h1\<rparr>" X2APIC_TIMER_DCR "0xB"]) (use 1(3) in simp_all)
  obtain h3 where 3: "msr_write io X2APIC_TIMER_ICR (ucast counter) (s\<lparr>apic_hw := h2\<rparr>) = (Ok () :: (x2apic_error, unit) res, s\<lparr>apic_hw := h3\<rparr>)"
      "msr h3 = (msr h2)(X2APIC_TIMER_ICR := ucast counter)"
    by (rule write_legal [OF law, of "s\<lparr>apic_hw := h2\<rparr>" X2APIC_TIMER_ICR "ucast counter"]) (use 2(3) in simp_all)
  have "configure_timer_current_core io counter s = (Ok (), s\<lparr>apic_hw := h3\<rparr>)"
    using 1(1) 2(1) 3(1) by (simp add: configure_timer_current_core_def bnd_def TIMER_VECTOR_def)
  then show thesis by (rule that) (simp add: 1(2) 2(2) 3(2))
qed

section \<open>Properties\<close>

text \<open>A core is started with period \<open>n\<close>: its timer is periodic and unmasked on vector 32, undivided, with initial count \<open>n\<close>; the controller is enabled with
  spurious vector 255 and accepts every priority; the count is stored for the other cores and the slot of the core is taken.\<close>

definition core_started :: "('h \<Rightarrow> u32 \<Rightarrow> u64) \<Rightarrow> 'h apic_state \<Rightarrow> u32 \<Rightarrow> bool" where
  "core_started msr s n \<longleftrightarrow>
     (let m = msr (apic_hw s)
      in m X2APIC_LVT_TIMER = 0x20020 \<and> m X2APIC_TIMER_DCR = 0xB \<and> m X2APIC_TIMER_ICR = ucast n \<and> m X2APIC_SIVR = 0x1FF \<and> m X2APIC_TPR = 0
         \<and> apic_on msr (apic_hw s) \<and> calibrated_timer_count s = n \<and> apics s ! unat (m X2APIC_ID) = Some True)"

lemma start_core:
  assumes law: "apic_law io msr" and xapic: "bit (msr (apic_hw s) IA32_APIC_BASE_MSR) 11"
    and core: "unat (msr (apic_hw s) X2APIC_ID) < MAX_CORES" and len: "length (apics s) = MAX_CORES"
    and n: "calibrated_timer_count s = n"
  obtains s' where "bnd (initialize_current_core io) (\<lambda>_. configure_timer_current_core io n) s = (Ok (), s')" "core_started msr s' n"
    "apics s' = (apics s)[unat (msr (apic_hw s) X2APIC_ID) := Some True]"
proof -
  let ?a = "(apics s)[unat (msr (apic_hw s) X2APIC_ID) := Some True]"
  obtain h where 1: "initialize_current_core io s = (Ok (), s\<lparr>apic_hw := h, apics := ?a\<rparr>)" "apic_on msr h"
    "msr h = (msr (apic_hw s))(IA32_APIC_BASE_MSR := msr (apic_hw s) IA32_APIC_BASE_MSR OR 0xC00, X2APIC_SIVR := 0x1FF, X2APIC_TPR := 0)"
    by (rule initialize_from_xapic [OF law xapic core]) (rule that)
  let ?s = "s\<lparr>apic_hw := h, apics := ?a\<rparr>"
  have "apic_on msr (apic_hw ?s)" using 1(2) by simp
  then obtain h' where 2: "configure_timer_current_core io n ?s = (Ok (), ?s\<lparr>apic_hw := h'\<rparr>)"
    "msr h' = (msr (apic_hw ?s))(X2APIC_LVT_TIMER := 0x20020, X2APIC_TIMER_DCR := 0xB, X2APIC_TIMER_ICR := ucast n)"
    by (rule configure_on [OF law]) (rule that)
  show thesis
  proof (rule that)
    show "bnd (initialize_current_core io) (\<lambda>_. configure_timer_current_core io n) s = (Ok (), ?s\<lparr>apic_hw := h'\<rparr>)"
      using 1(1) 2(1) by (simp add: bnd_def)
    show "core_started msr (?s\<lparr>apic_hw := h'\<rparr>) n"
      using 1(2) n core len by (simp add: core_started_def Let_def 2(2) 1(3) apic_on_def apic_constants)
  qed simp
qed


definition demo_apic :: "((u32 \<Rightarrow> u64) \<times> bool) apic_api" where
  "demo_apic = \<lparr>
     rdmsr = (\<lambda>r h. if x2_reg r \<and> \<not> apic_on fst h then None else Some (if r = X2APIC_LVT_TIMER then fst h r AND 0x710FF else fst h r, h)),
     wrmsr = (\<lambda>r v h. if x2_reg r \<and> \<not> apic_on fst h then None else Some ((fst h)(r := v), snd h)),
     in8 = (\<lambda>p h. (if snd h then 0x20 else 0, fst h, \<not> snd h)), out8 = (\<lambda>p v h. h), has_x2apic = (\<lambda>h. True)\<rparr>"

lemma demo_apic_law: "apic_law demo_apic fst"
proof -
  have "msr_read_law demo_apic fst"
    by (auto simp: msr_read_law_def demo_apic_def legal_value_def apic_constants x2_reg_def and.assoc)
  moreover have "msr_write_law demo_apic fst"
    by (auto simp: msr_write_law_def demo_apic_def Let_def x2_reg_def apic_constants)
  ultimately show ?thesis by (simp add: apic_law_def msr_fault_law_def) (simp add: demo_apic_def)
qed

lemma demo_pit_toggles: "pit_toggles demo_apic"
  unfolding pit_toggles_def
proof (intro allI)
  fix h :: "(u32 \<Rightarrow> u64) \<times> bool" and prev :: u8
  have "fst (in8 demo_apic CONTROL_PORT ((after_read demo_apic ^^ 0) h)) AND 0x20 \<noteq> fst (in8 demo_apic CONTROL_PORT ((after_read demo_apic ^^ 1) h)) AND 0x20"
    by (simp add: demo_apic_def after_read_def)
  then show "\<exists>n. fst (in8 demo_apic CONTROL_PORT ((after_read demo_apic ^^ n) h)) AND 0x20 \<noteq> prev" by metis
qed

definition demo_core :: "u64 \<Rightarrow> u64 \<Rightarrow> (u32 \<Rightarrow> u64) \<times> bool" where
  "demo_core base i = ((\<lambda>_. 0)(IA32_APIC_BASE_MSR := base, X2APIC_ID := i), False)"


text \<open>The calibration uses the registers of the controller before x2APIC mode is enabled.  On a core that is not yet in that mode \<open>bsp_init\<close> panics at its
  first access, for every frequency, although the enabling code that follows would have worked.\<close>

theorem bsp_init_before_enable:
  assumes "apic_law io msr" "\<not> apic_on msr (apic_hw s)" "bit (msr (apic_hw s) IA32_APIC_BASE_MSR) 11"
    "unat (msr (apic_hw s) X2APIC_ID) < MAX_CORES"
  shows "bsp_init io hz s = Some (Panic, s) \<and> (\<exists>s'. initialize_current_core io s = (Ok (), s'))"
proof
  have "rdmsr io X2APIC_LVT_TIMER (apic_hw s) = None"
    using assms(1,2) x2_regs(4) unfolding apic_law_def msr_fault_law_def by blast
  then have "mask_timer io s = (Panic :: (pit_error, unit) res, s)" by (simp add: mask_timer_def bnd_def msr_read_def)
  then have "calibrate_timer io hz s = Some (Panic, s)"
    by (simp add: calibrate_timer_def calibrate_apic_timer_def dbnd_def total_def)
  then show "bsp_init io hz s = Some (Panic, s)" by (simp add: bsp_init_def dbnd_def)
  show "\<exists>s'. initialize_current_core io s = (Ok (), s')"
    by (rule initialize_from_xapic [OF assms(1,3,4)]) blast
qed

theorem bsp_init_before_enable_witness:
  "bsp_init demo_apic 100 \<lparr>apic_hw = demo_core 0xFEE00900 0, apics = replicate MAX_CORES None, calibrated_timer_count = 0\<rparr>
    = Some (Panic, \<lparr>apic_hw = demo_core 0xFEE00900 0, apics = replicate MAX_CORES None, calibrated_timer_count = 0\<rparr>)"
proof -
  let ?s = "\<lparr>apic_hw = demo_core 0xFEE00900 0, apics = replicate MAX_CORES None, calibrated_timer_count = 0\<rparr>"
  have i: "fst (demo_core b i) X2APIC_ID = i" "fst (demo_core b i) IA32_APIC_BASE_MSR = b" for b i
    by (simp_all add: demo_core_def apic_constants)
  show ?thesis
    using bsp_init_before_enable [OF demo_apic_law, of ?s 100] by (simp add: i apic_on_def MAX_CORES_def)
qed

end
