(* ===== verification/Spec2Isabelle.thy ===== *)
theory Spec2Isabelle
  imports Heap_Init Fat16_Refine Event_Props Boot_Init Loader_Props Sd_Props X2apic
begin

text \<open>
  A verification library for the TAOS kernel, a multi-core x86-64 kernel in Rust (\<open>src/kernel/src\<close>; file names below are relative to it).

  \<^bold>\<open>The program.\<close>  At boot \<open>init.rs\<close> brings up the cores.  \<open>memory\<close> hands out physical frames, first with the boot allocator, then, once the heap is mapped,
  with the bitmap allocator; it maps pages and keeps the translation caches of the cores coherent with inter-processor interrupts.  \<open>events\<close> is a
  cooperative scheduler: each core has a runner with queues of futures by priority.  \<open>processes\<close> loads executables into address spaces of their own and
  runs a process as an event; the timer interrupt and the system calls in \<open>interrupts\<close> and \<open>syscalls\<close> take the core back.  \<open>filesys\<close> is a FAT16 driver over
  a block device; \<open>devices\<close> finds the SD card on the PCI bus and drives it as such a device.

  \<^bold>\<open>Conventions\<close> (\<open>Kernel_Prelude\<close>, \<open>Kernel_Loops\<close>).  A call is a function from its state to a result and a new state (\<open>prog\<close>); a result is \<open>Ok\<close>, \<open>Err\<close> or \<open>Panic\<close>
  (\<open>res\<close>), and \<open>bnd\<close> sequences as \<open>;\<close> and \<open>?\<close> do.  An index, unwrap, assertion or 64-bit arithmetic operation that fails is a \<open>Panic\<close>.  A call that may run for ever is a
  \<open>partial_function\<close> into \<open>option\<close> (\<open>dprog\<close>), and \<open>None\<close> is such a call; no definition has fuel.  The loops with a bound in the source (\<open>MAX_ITERATIONS\<close> polls of the
  SD card) have the same bound here.  The relation \<open>sim\<close> and the predicate \<open>keeps\<close> with their rules carry the refinement and frame proofs through the structure of a program.

  \<^bold>\<open>Parameters.\<close>  Code outside the repository and hardware are records of functions, with what the kernel relies on as a locale or a named predicate:
  frames of the \<open>x86_64\<close> crate (\<open>frame_api\<close>, locale \<open>phys_frames\<close>), its mapper (\<open>mapper_api\<close>, \<open>lawful_mapper\<close>), page table entries and the hardware walk
  (\<open>table_api\<close>, \<open>table_law\<close>), the ELF parser of \<open>goblin\<close>, polling of futures (\<open>poll\<close>), configuration ports (\<open>port_api\<close>, \<open>config_law\<close>), memory-mapped registers
  (\<open>mmio\<close>, \<open>controller_law\<close>), and model-specific registers with the timer chip (\<open>apic_api\<close>, \<open>apic_law\<close>, \<open>pit_toggles\<close>).  Each theorem that uses one has a witness
  on a concrete instance.  A mutex is the state it protects, and a call under it is atomic, except where the source uses a lock wrongly
  (\<open>Boot_Init\<close>, \<open>Pci\<close>), where the steps interleave.

  \<^bold>\<open>Physical memory.\<close>
  \<^item> \<open>Phys_Frames\<close>: frames, the memory map, and the locale \<open>frame_source\<close>, the contract of \<open>FrameAllocator\<close> and \<open>FrameDeallocator\<close>: no frame is handed out twice.
  \<^item> \<open>Frame_Boot\<close> (\<open>memory/boot_frame_allocator.rs\<close>): the usable frames are handed out in order; the address filter excludes nothing, and the list of allocated
    frames is wrong when the memory map has a hole.
  \<^item> \<open>Frame_Bitmap\<close> (\<open>memory/bitmap_frame_allocator.rs\<close>): initialisation, allocation of the next free frame, deallocation, and the exact condition under which the
    search never ends.
  \<^item> \<open>Frame_Global\<close> (\<open>memory/frame_allocator.rs\<close>, \<open>switch_allocator\<close> of \<open>memory/heap.rs\<close>): the dispatch, and that the switch keeps the frames handed out at boot.

  \<^bold>\<open>Virtual memory.\<close>
  \<^item> \<open>Paging\<close> and \<open>Paging_Props\<close> (\<open>memory/paging.rs\<close>, \<open>memory/tlb.rs\<close>, \<open>tlb_shootdown_handler\<close> of \<open>interrupts/idt.rs\<close>): mappings are created and removed as specified, and
    shootdowns restore the coherence of the caches, unless a second one overtakes the first.
  \<^item> \<open>Heap_Init\<close> (\<open>memory/heap.rs\<close>, \<open>memory/mod.rs\<close>): when \<open>memory::init\<close> returns, the heap is mapped to frames that nobody else will get.

  \<^bold>\<open>Scheduling and processes.\<close>
  \<^item> \<open>Events\<close> and \<open>Event_Props\<close> (\<open>events\<close>): the invariant of the runners, that a pass of the loop does not panic and does not poll finished futures, the order of a
    queue, and the starvation by an event that wakes itself.
  \<^item> \<open>Boot_Init\<close> (\<open>init.rs\<close>): the cores as an interleaving; a core that registers late waits for ever.
  \<^item> \<open>Context_Switch\<close> (assembly of \<open>processes/process.rs\<close> and \<open>interrupts/idt.rs\<close>): a preempted process resumes in the interrupted context, by execution of the listings.
  \<^item> \<open>Processes\<close>, \<open>Process_Props\<close>, \<open>Loader_Props\<close> (\<open>processes\<close>, \<open>syscalls\<close>, handlers of \<open>interrupts/idt.rs\<close>): preemption by the timer, the exact release of an address space,
    what exit leaves loaded on the core, and the contents of a loaded page.
  \<^item> \<open>X2apic\<close> (\<open>interrupts/x2apic.rs\<close>, \<open>interrupts/mod.rs\<close>): calibration ends, and all cores start with the same timer period.

  \<^bold>\<open>Devices.\<close>
  \<^item> \<open>Pci\<close> (\<open>devices/pci.rs\<close>): the walk finds every device once; reads of two cores race, since the lock is released at once.
  \<^item> \<open>Sd_Card\<close> and \<open>Sd_Props\<close> (\<open>devices/sd_card.rs\<close>, \<open>devices/mod.rs\<close>): a block written is read back, and the bounds of the device.  The reset of the card and the mapping of its
    registers are definitions without theorems of their own.

  \<^bold>\<open>File system.\<close>
  \<^item> \<open>Block_Device\<close> (\<open>filesys/mod.rs\<close>, \<open>filesys/block/memory.rs\<close>): the trait, its contract \<open>lawful_device\<close>, and the in-memory device, which obeys it.  The SD card does not: it
    panics on a buffer of another length.
  \<^item> \<open>Fat16_Types\<close>, \<open>Fat16_Table\<close>, \<open>Fat16_Dir\<close>, \<open>Fat16_File\<close>, \<open>Fat16_Fs\<close> (\<open>filesys/fat16\<close>): the on-disk formats with their round trips, the table and the cluster allocator,
    directories with their invariant, descriptors, and the remaining operations of the driver.
  \<^item> \<open>Fat16_Transfer\<close>, \<open>Fat16_Create\<close>, \<open>Fat16_Remove\<close>: reading after writing, looking up after creating, and what removal frees and when it never returns, on the
    in-memory device.
  \<^item> \<open>Fat16_Refine\<close>: on every lawful device the driver behaves as on the in-memory device, so these theorems carry over.

  \<^bold>\<open>Limits of the theorems.\<close>  Those on \<open>memory::init\<close> and on the loading of a page describe the state after the call has returned: it may panic for lack of frames or on
  a malformed executable.  The transfer theorems cover writes that end inside the current cluster.  The SD card theorems assume a controller that reports no error.

  \<^bold>\<open>Not modelled.\<close>  Descriptor tables (\<open>interrupts/gdt.rs\<close>, \<open>init_idt\<close>: constant data loaded once), the serial port and logging (output only), the frame buffer pattern of
  \<open>devices::init\<close>, \<open>main.rs\<close> and \<open>lib.rs\<close> (entry points and test runner), \<open>events/futures.rs\<close> (not part of the build), the heap allocator (crate \<open>talc\<close>), functions that only print,
  and the weak memory order of atomics, whose accesses are taken as sequentially consistent.
\<close>

end
